(* ===== verification/Go_Prelude.thy ===== *)
theory Go_Prelude
  imports Main "HOL-Library.AList" "HOL-Library.Multiset" "HOL-Library.Sublist"
begin

section \<open>What the model takes from the Go language and its standard library\<close>

text \<open>
  This theory holds the parts of Go that every component uses: calls that may panic, loops over
  maps and slices, the builtin map, instants and durations of package \<open>time\<close>,
  \<open>strings.Contains\<close>, \<open>utf8.ValidString\<close> and the conversion \<open>float64(n)\<close>. A Go
  \<open>string\<close> is a list of bytes, which is what Isabelle's \<open>string\<close> is.
\<close>

named_theorems expo_simps "the updates of the exported series, as function updates"

subsection \<open>Calls that may panic\<close>

text \<open>
  A call on a state either returns with the new state or panics; a panic keeps the state
  reached so far, because controller-runtime recovers the panic of a reconciler and the process
  goes on with that state.
\<close>

datatype 's exec = Ok 's | Panicked 's

fun exec_bind :: "'s exec \<Rightarrow> ('s \<Rightarrow> 's exec) \<Rightarrow> 's exec" where
  "exec_bind (Ok s) f = f s"
| "exec_bind (Panicked s) f = Panicked s"

text \<open>A \<open>for ... range\<close> loop whose body may panic, over the elements in the order given.\<close>

fun range_exec :: "('x \<Rightarrow> 's \<Rightarrow> 's exec) \<Rightarrow> 'x list \<Rightarrow> 's \<Rightarrow> 's exec" where
  "range_exec body [] s = Ok s"
| "range_exec body (x # xs) s = exec_bind (body x s) (range_exec body xs)"

lemma exec_bind_Ok_iff:
  "exec_bind x f = Ok s' \<longleftrightarrow> (\<exists>s. x = Ok s \<and> f s = Ok s')"
  by (cases x) auto

lemma exec_bind_assoc: "exec_bind (exec_bind x f) g = exec_bind x (\<lambda>s. exec_bind (f s) g)"
  by (cases x) simp_all

lemma exec_bind_Ok [simp]: "exec_bind x Ok = x"
  by (cases x) simp_all

lemma range_exec_Nil [simp]: "range_exec body [] = Ok"
  by (simp add: fun_eq_iff)

lemma range_exec_single [simp]: "range_exec body [x] = body x"
  by (simp add: fun_eq_iff)

lemma range_exec_append:
  "range_exec f (xs @ ys) = (\<lambda>a. exec_bind (range_exec f xs a) (range_exec f ys))"
proof (induction xs)
  case (Cons x xs)
  then show ?case by (intro ext) (simp add: exec_bind_assoc)
qed (simp add: fun_eq_iff)

lemma range_exec_concat_map:
  "range_exec f (concat (map g xs)) = range_exec (\<lambda>x. range_exec f (g x)) xs"
proof (induction xs)
  case (Cons x xs)
  then show ?case by (intro ext) (simp add: range_exec_append)
qed simp

text \<open>
  The rule for loops: if the body returns from every state that satisfies the invariant for the
  elements seen so far, and extends it by one element, the loop returns with the invariant for
  all of them.
\<close>

lemma range_exec_invariant:
  assumes "\<And>x seen s. x \<in> set xs \<Longrightarrow> I seen s \<Longrightarrow> \<exists>s'. body x s = Ok s' \<and> I (seen @ [x]) s'"
    and "I [] s"
  shows "\<exists>s'. range_exec body xs s = Ok s' \<and> I xs s'"
proof -
  have "\<exists>s'. range_exec body ys s = Ok s' \<and> I (seen @ ys) s'"
    if "set ys \<subseteq> set xs" and "I seen s" for ys seen s
    using that
  proof (induction ys arbitrary: seen s)
    case Nil
    then show ?case by simp
  next
    case (Cons y ys)
    then obtain s1 where s1: "body y s = Ok s1" "I (seen @ [y]) s1"
      using assms(1) by (meson list.set_intros(1) subsetD)
    with Cons.IH [of "seen @ [y]" s1] Cons.prems(1) show ?case by auto
  qed
  from this [of xs "[]" s] assms(2) show ?thesis by simp
qed

subsection \<open>The builtin map\<close>

text \<open>
  A Go map is an association list with distinct keys; the order of the list stands for the
  unspecified order in which \<open>range\<close> visits the entries, so a fact about a loop over a map
  has to hold for every order.
\<close>

type_synonym ('k, 'v) go_map = "('k \<times> 'v) list"

definition map_put :: "'k \<Rightarrow> 'v \<Rightarrow> ('k, 'v) go_map \<Rightarrow> ('k, 'v) go_map" where
  "map_put k v m = AList.update k v m"

definition map_del :: "'k \<Rightarrow> ('k, 'v) go_map \<Rightarrow> ('k, 'v) go_map" where
  "map_del k m = AList.delete k m"

abbreviation keys_distinct :: "('k, 'v) go_map \<Rightarrow> bool" where
  "keys_distinct m \<equiv> distinct (map fst m)"

lemma map_of_put [simp]: "map_of (map_put k v m) = (map_of m)(k \<mapsto> v)"
  by (simp add: map_put_def update_conv')

lemma map_of_del [simp]: "map_of (map_del k m) = (map_of m)(k := None)"
  by (simp add: map_del_def delete_conv')

lemma keys_distinct_put [simp]: "keys_distinct m \<Longrightarrow> keys_distinct (map_put k v m)"
  by (simp add: map_put_def distinct_update)

lemma keys_distinct_del [simp]: "keys_distinct m \<Longrightarrow> keys_distinct (map_del k m)"
  by (simp add: map_del_def distinct_delete)

lemma set_map_del: "set (map_del k m) = {e \<in> set m. fst e \<noteq> k}"
  by (auto simp: map_del_def AList.delete_eq)

lemma set_map_put:
  assumes "keys_distinct m"
  shows "set (map_put k v m) = insert (k, v) {e \<in> set m. fst e \<noteq> k}"
proof -
  have "keys_distinct (map_put k v m)" using assms by simp
  then have "(a, b) \<in> set (map_put k v m) \<longleftrightarrow> ((map_of m)(k \<mapsto> v)) a = Some b" for a b
    by (metis map_of_eq_Some_iff map_of_put)
  with assms show ?thesis
    by (auto split: if_splits)
qed

subsection \<open>Instants and durations\<close>

text \<open>
  A \<open>time.Time\<close> is the number of nanoseconds since the zero time of Go (January 1 of year 1,
  UTC), a \<open>time.Duration\<close> a number of nanoseconds.
\<close>

type_synonym instant = int
type_synonym duration = int

definition Minute :: duration where
  "Minute = 60 * 10 ^ 9"

definition IsZero :: "instant option \<Rightarrow> bool" where
  "IsZero t \<longleftrightarrow> t = None \<or> t = Some 0"

definition Before :: "instant \<Rightarrow> instant \<Rightarrow> bool" where
  "Before t u \<longleftrightarrow> t < u"

definition After :: "instant \<Rightarrow> instant \<Rightarrow> bool" where
  "After t u \<longleftrightarrow> u < t"

definition time_Add :: "instant \<Rightarrow> duration \<Rightarrow> instant" where
  "time_Add t d = t + d"

text \<open>Seconds since 1970; the seconds of an instant round down. The zero time is 62135596800 seconds earlier.\<close>

definition Unix :: "instant \<Rightarrow> int" where
  "Unix t = t div 10 ^ 9 - 62135596800"

subsection \<open>Strings\<close>

text \<open>\<open>strings.Contains(s, sub)\<close>: some suffix of \<open>s\<close> starts with \<open>sub\<close>.\<close>

fun strings_Contains :: "string \<Rightarrow> string \<Rightarrow> bool" where
  "strings_Contains [] sub \<longleftrightarrow> sub = []"
| "strings_Contains (c # s) sub \<longleftrightarrow> prefix sub (c # s) \<or> strings_Contains s sub"

lemma strings_Contains_sublist: "strings_Contains s sub \<longleftrightarrow> sublist sub s"
  by (induction s) (auto simp: sublist_Cons_right)

lemma strings_Contains_iff: "strings_Contains s sub \<longleftrightarrow> (\<exists>pre post. s = pre @ sub @ post)"
  by (simp add: strings_Contains_sublist sublist_def)

end
