(* ===== verification/Threads.thy ===== *)
theory Threads
  imports Go_Prelude
begin

section \<open>Threads that share a state\<close>

text \<open>
  The methods of the aggregator run in several goroutines at once. This theory states, for any
  program of that kind, when its calls can be taken to run one after the other. The code of a call
  is a sequence of accesses, each of which is atomic; a call may hold the mutex from its first
  access to its last; the state falls into regions, and two threads that share a region both hold
  the mutex there. The locale \<open>shared_regions\<close> shows that every interleaving leaves the state
  that the calls would leave if they ran one after the other in the order of their returns, that no
  two threads are inside one region, and that the calls of all threads can return.
\<close>

subsection \<open>The code of a call\<close>

text \<open>
  \<open>Do f k\<close> makes the access \<open>f\<close> and goes on with \<open>k\<close>, which may depend on what the access
  has read. A panic ends the call.
\<close>

datatype (dead 's) code = Stop | Do "'s \<Rightarrow> 's exec" "'s \<Rightarrow> 's code"

primrec state_of :: "'s exec \<Rightarrow> 's" where
  "state_of (Ok a) = a"
| "state_of (Panicked a) = a"

primrec run_code :: "'s code \<Rightarrow> 's \<Rightarrow> 's exec" where
  "run_code Stop a = Ok a"
| "run_code (Do f k) a = (case f a of Ok b \<Rightarrow> run_code (k a) b | Panicked b \<Rightarrow> Panicked b)"

primrec seq :: "'s code \<Rightarrow> 's code \<Rightarrow> 's code" where
  "seq Stop k' = k'"
| "seq (Do f k) k' = Do f (\<lambda>a. seq (k a) k')"

lemma run_code_seq: "run_code (seq k k') a = exec_bind (run_code k a) (run_code k')"
  by (induction k arbitrary: a) (auto split: exec.split)

subsection \<open>Regions\<close>

text \<open>
  \<open>agree r a b\<close>: the states are the same in the region. Code stays within a region if it
  reads nothing else and changes nothing else.
\<close>

primrec within :: "('r \<Rightarrow> 's \<Rightarrow> 's \<Rightarrow> bool) \<Rightarrow> 'r \<Rightarrow> 's code \<Rightarrow> bool" where
  "within agree r Stop \<longleftrightarrow> True"
| "within agree r (Do f k) \<longleftrightarrow>
     (\<forall>a b. agree r a b \<longrightarrow> rel_exec (agree r) (f a) (f b) \<and> k a = k b)
     \<and> (\<forall>a r'. r' \<noteq> r \<longrightarrow> agree r' a (state_of (f a)))
     \<and> (\<forall>a. within agree r (k a))"

lemma within_seq: "within agree r k \<Longrightarrow> within agree r k' \<Longrightarrow> within agree r (seq k k')"
proof (induction k)
  case (Do f k)
  then have "seq (k a) k' = seq (k b) k'" if "agree r a b" for a b
    using that by (metis within.simps(2))
  with Do show ?case by simp
qed simp

lemma rel_execE:
  assumes "rel_exec R x y"
  obtains a b where "x = Ok a" "y = Ok b" "R a b" | a b where "x = Panicked a" "y = Panicked b" "R a b"
  using assms by (cases x; cases y) auto

text \<open>The points that a call passes through: the code that is left, and the state there.\<close>

inductive partial :: "'s code \<Rightarrow> 's \<Rightarrow> 's code \<Rightarrow> 's \<Rightarrow> bool" for k0 a0 where
  begun: "partial k0 a0 k0 a0"
| further: "partial k0 a0 (Do f k) a \<Longrightarrow> f a = Ok b \<Longrightarrow> partial k0 a0 (k a) b"

lemma partial_run: "partial k0 a0 k a \<Longrightarrow> run_code k0 a0 = run_code k a"
  by (induction rule: partial.induct) auto

lemma partial_within: "partial k0 a0 k a \<Longrightarrow> within agree r k0 \<Longrightarrow> within agree r k"
  by (induction rule: partial.induct) auto

text \<open>A predicate that holds at every point of a call, its start and its end included.\<close>

primrec along :: "('s \<Rightarrow> bool) \<Rightarrow> 's code \<Rightarrow> 's \<Rightarrow> bool" where
  "along P Stop a \<longleftrightarrow> P a"
| "along P (Do f k) a \<longleftrightarrow> P a \<and> (case f a of Ok b \<Rightarrow> along P (k a) b | Panicked b \<Rightarrow> P b)"

lemma along_start: "along P k a \<Longrightarrow> P a"
  by (cases k) auto

lemma along_partial: "partial k0 a0 k a \<Longrightarrow> along P k0 a0 \<Longrightarrow> along P k a"
  by (induction rule: partial.induct) auto

lemma along_seq:
  "along P k a \<Longrightarrow> (\<And>b. P b \<Longrightarrow> along P k' b) \<Longrightarrow> along P (seq k k') a"
  by (induction k arbitrary: a) (auto split: exec.splits)

subsection \<open>The machine\<close>

text \<open>
  A thread is outside any call, waits for the mutex, or is inside a call. \<open>history\<close> lists the
  calls in the order of their returns; it is not part of the program.
\<close>

datatype (dead 'c, dead 's) thread = Idle | Waiting 'c | Running 'c "'s code"

record ('t, 'c, 's) machine =
  status :: "'t \<Rightarrow> ('c, 's) thread"
  mutex :: "'t option"
  shared :: 's
  history :: "'c list"

definition leave :: "('c \<Rightarrow> bool) \<Rightarrow> 't \<Rightarrow> 'c \<Rightarrow> 's \<Rightarrow> ('t, 'c, 's) machine \<Rightarrow> ('t, 'c, 's) machine" where
  "leave locks t c a m = m\<lparr>status := (status m)(t := Idle), mutex := (if locks c then None else mutex m),
     shared := a, history := history m @ [c]\<rparr>"

text \<open>
  A call that takes the mutex releases it when it returns and when it panics, as a deferred
  \<open>Unlock\<close> does.
\<close>

inductive thread_step :: "('t \<Rightarrow> 'c \<Rightarrow> bool) \<Rightarrow> ('c \<Rightarrow> 's code) \<Rightarrow> ('c \<Rightarrow> bool) \<Rightarrow> 't
    \<Rightarrow> ('t, 'c, 's) machine \<Rightarrow> ('t, 'c, 's) machine \<Rightarrow> bool" for may body locks where
  invoke: "status m t = Idle \<Longrightarrow> may t c \<Longrightarrow> \<not> locks c \<Longrightarrow>
    thread_step may body locks t m (m\<lparr>status := (status m)(t := Running c (body c))\<rparr>)"
| request: "status m t = Idle \<Longrightarrow> may t c \<Longrightarrow> locks c \<Longrightarrow>
    thread_step may body locks t m (m\<lparr>status := (status m)(t := Waiting c)\<rparr>)"
| acquire: "status m t = Waiting c \<Longrightarrow> mutex m = None \<Longrightarrow>
    thread_step may body locks t m
      (m\<lparr>status := (status m)(t := Running c (body c)), mutex := Some t\<rparr>)"
| access: "status m t = Running c (Do f k) \<Longrightarrow> f (shared m) = Ok b \<Longrightarrow>
    thread_step may body locks t m
      (m\<lparr>status := (status m)(t := Running c (k (shared m))), shared := b\<rparr>)"
| panic: "status m t = Running c (Do f k) \<Longrightarrow> f (shared m) = Panicked b \<Longrightarrow>
    thread_step may body locks t m (leave locks t c b m)"
| return: "status m t = Running c Stop \<Longrightarrow>
    thread_step may body locks t m (leave locks t c (shared m) m)"

inductive_cases thread_stepE: "thread_step may body locks t m m'"

definition started_machine :: "'s \<Rightarrow> ('t, 'c, 's) machine" where
  "started_machine a = \<lparr>status = (\<lambda>_. Idle), mutex = None, shared = a, history = []\<rparr>"

inductive interleaved :: "('t \<Rightarrow> 'c \<Rightarrow> bool) \<Rightarrow> ('c \<Rightarrow> 's code) \<Rightarrow> ('c \<Rightarrow> bool)
    \<Rightarrow> ('t, 'c, 's) machine \<Rightarrow> ('t, 'c, 's) machine \<Rightarrow> bool" for may body locks m0 where
  no_step: "interleaved may body locks m0 m0"
| one_more: "interleaved may body locks m0 m \<Longrightarrow> thread_step may body locks t m m' \<Longrightarrow>
    interleaved may body locks m0 m'"

lemma interleaved_trans:
  assumes "interleaved may body locks m1 m2" "interleaved may body locks m0 m1"
  shows "interleaved may body locks m0 m2"
  using assms by (induction rule: interleaved.induct) (auto intro: interleaved.intros)

definition quiescent :: "('t, 'c, 's) machine \<Rightarrow> bool" where
  "quiescent m \<longleftrightarrow> (\<forall>t. status m t = Idle)"

definition serial :: "('c \<Rightarrow> 's code) \<Rightarrow> 'c list \<Rightarrow> 's \<Rightarrow> 's" where
  "serial body cs a = fold (\<lambda>c a. state_of (run_code (body c) a)) cs a"

lemma serial_simps [simp]:
  "serial body [] a = a"
  "serial body (cs @ [c]) a = state_of (run_code (body c) (serial body cs a))"
  by (simp_all add: serial_def)


locale shared_regions =
  fixes may :: "'t \<Rightarrow> 'c \<Rightarrow> bool"
    and body :: "'c \<Rightarrow> 's code"
    and locks :: "'c \<Rightarrow> bool"
    and region :: "'c \<Rightarrow> 'r"
    and agree :: "'r \<Rightarrow> 's \<Rightarrow> 's \<Rightarrow> bool"
  assumes agree_refl: "agree r x x"
    and agree_sym: "agree r x y \<Longrightarrow> agree r y x"
    and agree_trans: "agree r x y \<Longrightarrow> agree r y z \<Longrightarrow> agree r x z"
    and agree_all: "(\<And>r. agree r x y) \<Longrightarrow> x = y"
    and body_within: "may t c \<Longrightarrow> within agree (region c) (body c)"
    and exclusive: "may t c \<Longrightarrow> may t' c' \<Longrightarrow> t \<noteq> t' \<Longrightarrow> region c = region c' \<Longrightarrow>
      locks c \<and> locks c'"
begin

lemma run_frame:
  "within agree r k \<Longrightarrow> r' \<noteq> r \<Longrightarrow> agree r' a (state_of (run_code k a))"
proof (induction k arbitrary: a)
  case Stop
  then show ?case by (simp add: agree_refl)
next
  case (Do f k)
  then have step: "agree r' a (state_of (f a))" by simp
  show ?case
  proof (cases "f a")
    case (Ok b)
    with Do have "agree r' b (state_of (run_code (k a) b))" by simp
    with step Ok show ?thesis by (auto intro: agree_trans)
  qed (use step in simp)
qed

lemma partial_frame:
  "partial k0 a0 k a \<Longrightarrow> within agree r k0 \<Longrightarrow> r' \<noteq> r \<Longrightarrow> agree r' a0 a"
proof (induction rule: partial.induct)
  case begun
  then show ?case by (simp add: agree_refl)
next
  case (further f k a b)
  from further.hyps(1) have "within agree r (Do f k)" by (rule partial_within) fact
  then have "agree r' a (state_of (f a))" using further.prems by simp
  with further show ?case by (auto intro: agree_trans)
qed

text \<open>A call passes through the same code from states that agree in its region.\<close>

lemma partial_transfer:
  assumes "partial k0 a0 k a" "within agree r k0" "agree r a0 b0"
  shows "\<exists>b. partial k0 b0 k b \<and> agree r a b"
  using assms
proof (induction rule: partial.induct)
  case begun
  then show ?case by (auto intro: partial.begun)
next
  case (further f k a a')
  then obtain b where b: "partial k0 b0 (Do f k) b" "agree r a b" by blast
  have "within agree r (Do f k)" using further.hyps(1) further.prems(1) by (rule partial_within)
  then have "rel_exec (agree r) (f a) (f b)" "k a = k b" using b(2) by simp_all
  then show ?case using further.hyps(2) b(1)
    by (auto elim!: rel_execE intro: partial.further)
qed

subsubsection \<open>The invariant\<close>

text \<open>
  In each region the shared state is that of the serial execution of the calls that have
  returned, or a point of the one call that is inside the region, begun from there.
\<close>

definition inside :: "('t, 'c, 's) machine \<Rightarrow> 'r \<Rightarrow> bool" where
  "inside m r \<longleftrightarrow> (\<exists>t c k. status m t = Running c k \<and> region c = r)"

definition linear :: "'s \<Rightarrow> ('t, 'c, 's) machine \<Rightarrow> bool" where
  "linear a0 m \<longleftrightarrow>
     (\<forall>t c k. status m t = Running c k \<longrightarrow> may t c \<and> (locks c \<longrightarrow> mutex m = Some t)
        \<and> (\<exists>b. partial (body c) (serial body (history m) a0) k b \<and> agree (region c) b (shared m)))
     \<and> (\<forall>t c. status m t = Waiting c \<longrightarrow> may t c \<and> locks c)
     \<and> (\<forall>t. mutex m = Some t \<longrightarrow> (\<exists>c k. status m t = Running c k \<and> locks c))
     \<and> (\<forall>r. \<not> inside m r \<longrightarrow> agree r (serial body (history m) a0) (shared m))"

lemma inside_split:
  assumes "status m' = (status m)(t := x)"
  shows "inside m' r \<longleftrightarrow> (\<exists>c k. x = Running c k \<and> region c = r)
    \<or> (\<exists>t' c k. t' \<noteq> t \<and> status m t' = Running c k \<and> region c = r)"
  unfolding inside_def assms by (metis fun_upd_apply)

lemma inside_here: "inside m r \<longleftrightarrow> (\<exists>c k. status m t = Running c k \<and> region c = r)
    \<or> (\<exists>t' c k. t' \<noteq> t \<and> status m t' = Running c k \<and> region c = r)"
  by (rule inside_split) simp

lemma linear_running:
  assumes "linear a0 m" "status m t = Running c k"
  obtains b where "may t c" "locks c \<Longrightarrow> mutex m = Some t"
    "partial (body c) (serial body (history m) a0) k b" "agree (region c) b (shared m)"
    "within agree (region c) k"
proof -
  from assms obtain b where b: "may t c" "locks c \<longrightarrow> mutex m = Some t"
      "partial (body c) (serial body (history m) a0) k b" "agree (region c) b (shared m)"
    unfolding linear_def by blast
  moreover have "within agree (region c) k"
    using partial_within [OF b(3) body_within [OF b(1)]] .
  ultimately show ?thesis using that by blast
qed

text \<open>No two threads are inside one region.\<close>

lemma linear_apart:
  assumes "linear a0 m" "status m t = Running c k" "status m t' = Running c' k'" "t \<noteq> t'"
  shows "region c \<noteq> region c'"
proof
  assume same: "region c = region c'"
  have may: "may t c" "may t' c'" and locked: "locks c \<longrightarrow> mutex m = Some t" "locks c' \<longrightarrow> mutex m = Some t'"
    using assms(1-3) unfolding linear_def by blast+
  from exclusive [OF may assms(4) same] locked assms(4) show False by simp
qed

lemma region_free:
  assumes lin: "linear a0 m" and may: "may t c" and out: "\<And>c k. status m t \<noteq> Running c k"
    and free: "locks c \<Longrightarrow> mutex m = None"
  shows "\<not> inside m (region c)"
proof
  assume "inside m (region c)"
  then obtain t' c' k' where t': "status m t' = Running c' k'" "region c' = region c"
    unfolding inside_def by blast
  with out have "t' \<noteq> t" by metis
  moreover obtain "may t' c'" "locks c' \<Longrightarrow> mutex m = Some t'"
    using linear_running [OF lin t'(1)] by blast
  ultimately show False using exclusive [OF may, of t' c'] t'(2) free by auto
qed

lemma linear_enter:
  assumes lin: "linear a0 m" and may: "may t c" and out: "\<And>c k. status m t \<noteq> Running c k"
    and lock: "if locks c then mutex m = None \<and> mx = Some t else mx = mutex m"
  shows "linear a0 (m\<lparr>status := (status m)(t := Running c (body c)), mutex := mx\<rparr>)"
proof -
  let ?s = "serial body (history m) a0"
    and ?m = "m\<lparr>status := (status m)(t := Running c (body c)), mutex := mx\<rparr>"
  have free: "\<not> inside m (region c)"
    using region_free [OF lin may out] lock by (auto split: if_splits)
  then have "agree (region c) ?s (shared m)" using lin unfolding linear_def by blast
  then have begun: "\<exists>b. partial (body c) ?s (body c) b \<and> agree (region c) b (shared m)"
    by (blast intro: partial.begun)
  have held: "mutex m \<noteq> Some t" using lin out unfolding linear_def by metis
  have inside: "inside ?m r \<longleftrightarrow> inside m r \<or> r = region c" for r
    using out inside_split [of ?m m t "Running c (body c)"] inside_here [of m _ t] by auto
  show ?thesis
    using lin may begun held lock out unfolding linear_def inside
    by (auto split: if_splits)
qed

lemma linear_access:
  assumes lin: "linear a0 m" and t: "status m t = Running c (Do f k)" and f: "f (shared m) = Ok a"
  shows "linear a0 (m\<lparr>status := (status m)(t := Running c (k (shared m))), shared := a\<rparr>)"
proof -
  let ?s = "serial body (history m) a0" and ?m = "m\<lparr>status := (status m)(t := Running c (k (shared m))), shared := a\<rparr>"
  obtain b where b: "may t c" "partial (body c) ?s (Do f k) b" "agree (region c) b (shared m)"
      "within agree (region c) (Do f k)" "locks c \<longrightarrow> mutex m = Some t"
    using linear_running [OF lin t] by metis
  then have rel: "rel_exec (agree (region c)) (f b) (f (shared m))" "k b = k (shared m)"
    by (metis within.simps(2))+
  have frame: "agree r (shared m) a" if "r \<noteq> region c" for r
    using b(4) f that by (metis within.simps(2) state_of.simps(1))
  from rel(1) f obtain b' where b': "f b = Ok b'" "agree (region c) b' a"
    by (auto elim: rel_execE)
  then have further: "partial (body c) ?s (k (shared m)) b'"
    using partial.further [OF b(2)] rel(2) by metis
  have inside: "inside ?m r \<longleftrightarrow> inside m r" for r
    using t inside_split [of ?m m t "Running c (k (shared m))"] inside_here [of m _ t] by auto
  have others: "\<exists>d. partial (body c') ?s k' d \<and> agree (region c') d a"
    if t': "status m t' = Running c' k'" "t' \<noteq> t" for t' c' k'
  proof -
    have "region c' \<noteq> region c" using linear_apart [OF lin t'(1) t] t'(2) by blast
    with frame linear_running [OF lin t'(1)] show ?thesis by (metis agree_trans)
  qed
  have idle: "agree r ?s a" if "\<not> inside m r" for r
  proof -
    have "r \<noteq> region c" using that t by (auto simp: inside_def)
    with frame that lin show ?thesis unfolding linear_def by (metis agree_trans)
  qed
  have running: "may t' c' \<and> (locks c' \<longrightarrow> mutex m = Some t') \<and>
      (\<exists>d. partial (body c') ?s k' d \<and> agree (region c') d a)"
    if "status ?m t' = Running c' k'" for t' c' k'
  proof (cases "t' = t")
    case True
    then have "c' = c" "k' = k (shared m)" using that by auto
    with True show ?thesis using b(1,5) further b'(2) by blast
  next
    case False
    then have "status m t' = Running c' k'" using that by simp
    with lin others [OF this False] show ?thesis unfolding linear_def by blast
  qed
  moreover have "may t' c' \<and> locks c'" if "status ?m t' = Waiting c'" for t' c'
    using that lin unfolding linear_def by (auto split: if_splits)
  moreover have "\<exists>c' k'. status ?m t' = Running c' k' \<and> locks c'" if "mutex m = Some t'" for t'
  proof -
    from that lin obtain c' k' where "status m t' = Running c' k'" "locks c'" unfolding linear_def by blast
    then show ?thesis using t by (cases "t' = t") auto
  qed
  ultimately show ?thesis
    unfolding linear_def inside using idle by simp
qed

lemma linear_leave:
  assumes lin: "linear a0 m" and t: "status m t = Running c k"
    and result: "agree (region c) (state_of (run_code (body c) (serial body (history m) a0))) a"
    and frame: "\<And>r. r \<noteq> region c \<Longrightarrow> agree r (shared m) a"
  shows "linear a0 (leave locks t c a m)"
proof -
  let ?m = "leave locks t c a m"
    and ?s = "serial body (history m) a0" and ?s' = "state_of (run_code (body c) (serial body (history m) a0))"
  have may: "may t c" and lock: "locks c \<Longrightarrow> mutex m = Some t"
    using linear_running [OF lin t] by blast+
  have serial_frame: "agree r ?s ?s'" if "r \<noteq> region c" for r
    using run_frame [OF body_within [OF may] that] .
  have others: "(locks c' \<longrightarrow> mutex ?m = Some t') \<and>
      (\<exists>d. partial (body c') ?s' k' d \<and> agree (region c') d a)"
    if t': "status m t' = Running c' k'" "t' \<noteq> t" for t' c' k'
  proof -
    have apart: "region c' \<noteq> region c" using linear_apart [OF lin t'(1) t] t'(2) by blast
    obtain d where d: "may t' c'" "locks c' \<Longrightarrow> mutex m = Some t'"
        "partial (body c') ?s k' d" "agree (region c') d (shared m)"
      using linear_running [OF lin t'(1)] by metis
    obtain d' where "partial (body c') ?s' k' d'" "agree (region c') d d'"
      using partial_transfer [OF d(3) body_within [OF d(1)] serial_frame [OF apart]] by blast
    then have "\<exists>d. partial (body c') ?s' k' d \<and> agree (region c') d a"
      using d(4) frame [OF apart] by (metis agree_sym agree_trans)
    then show ?thesis using d(2) lock t'(2) by (auto simp: leave_def)
  qed
  have inside: "inside ?m r \<longleftrightarrow> (\<exists>t' c k. t' \<noteq> t \<and> status m t' = Running c k \<and> region c = r)" for r
    using inside_split [of ?m m t Idle] by (simp add: leave_def)
  have idle: "agree r ?s' a" if "\<not> inside ?m r" for r
  proof (cases "r = region c")
    case False
    then have "\<not> inside m r" using that t inside inside_here [of m r t] by auto
    with lin have "agree r ?s (shared m)" unfolding linear_def by blast
    with serial_frame [OF False] frame [OF False] show ?thesis by (metis agree_sym agree_trans)
  qed (use result in simp)
  have mutex: "\<exists>c' k'. status ?m t' = Running c' k' \<and> locks c'" if "mutex ?m = Some t'" for t'
  proof -
    from that have "mutex m = Some t'" "\<not> locks c" by (auto simp: leave_def split: if_splits)
    with lin obtain c' k' where "status m t' = Running c' k'" "locks c'" unfolding linear_def by blast
    with \<open>\<not> locks c\<close> t show ?thesis by (auto simp: leave_def)
  qed
  have "shared ?m = a" "history ?m = history m @ [c]" "status ?m = (status m)(t := Idle)"
    by (simp_all add: leave_def)
  moreover have "may t' c' \<and> (locks c' \<longrightarrow> mutex ?m = Some t') \<and>
      (\<exists>b. partial (body c') ?s' k' b \<and> agree (region c') b a)"
    if "status ?m t' = Running c' k'" for t' c' k'
  proof -
    have t': "status m t' = Running c' k'" "t' \<noteq> t" using that by (auto simp: leave_def split: if_splits)
    with lin have "may t' c'" unfolding linear_def by blast
    with others [OF t'] show ?thesis by blast
  qed
  moreover have "may t' c' \<and> locks c'" if "status ?m t' = Waiting c'" for t' c'
    using that lin unfolding linear_def by (auto simp: leave_def split: if_splits)
  ultimately show ?thesis
    using idle mutex unfolding linear_def by simp
qed

lemma linear_step:
  assumes lin: "linear a0 m" and step: "thread_step may body locks t m m'"
  shows "linear a0 m'"
  using step
proof cases
  case (invoke c)
  then show ?thesis
    using linear_enter [OF lin, of t c "mutex m"] by simp
next
  case (request c)
  then have "inside m' r \<longleftrightarrow> inside m r" for r
    using inside_split [of m' m t "Waiting c"] inside_here [of m _ t] by auto
  with lin request show ?thesis unfolding linear_def by auto
next
  case (acquire c)
  moreover have "may t c" "locks c" using lin acquire unfolding linear_def by blast+
  ultimately show ?thesis using linear_enter [OF lin, of t c "Some t"] by simp
next
  case (access c f k a)
  then show ?thesis using linear_access [OF lin] by simp
next
  case (panic c f k a)
  obtain b where b: "may t c" "partial (body c) (serial body (history m) a0) (Do f k) b"
      "agree (region c) b (shared m)" "within agree (region c) (Do f k)"
    using linear_running [OF lin panic(2)] by metis
  then have "rel_exec (agree (region c)) (f b) (f (shared m))" by (metis within.simps(2))
  then obtain b' where "f b = Panicked b'" "agree (region c) b' a"
    using panic(3) by (auto elim: rel_execE)
  moreover have "agree r (shared m) a" if "r \<noteq> region c" for r
    using b(4) panic(3) that by (metis within.simps(2) state_of.simps(2))
  ultimately show ?thesis
    using linear_leave [OF lin panic(2)] panic(1) partial_run [OF b(2)] by simp
next
  case (return c)
  obtain b where "partial (body c) (serial body (history m) a0) Stop b" "agree (region c) b (shared m)"
    using linear_running [OF lin return(2)] by metis
  then show ?thesis
    using linear_leave [OF lin return(2)] return(1) partial_run by (fastforce simp: agree_refl)
qed

lemma linear_started: "linear a0 (started_machine a0)"
  by (simp add: linear_def started_machine_def agree_refl)

lemma linear_interleaved:
  "interleaved may body locks (started_machine a0) m \<Longrightarrow> linear a0 m"
  by (induction rule: interleaved.induct) (auto intro: linear_started linear_step)

lemma history_made:
  assumes "interleaved may body locks (started_machine a0) m" and "c \<in> set (history m)"
  shows "\<exists>t. may t c"
  using assms
proof (induction rule: interleaved.induct)
  case no_step
  then show ?case by (simp add: started_machine_def)
next
  case (one_more m t m')
  from one_more.hyps(1) have lin: "linear a0 m" by (rule linear_interleaved)
  show ?case
  proof (cases "c \<in> set (history m)")
    case True
    then show ?thesis by (rule one_more.IH)
  next
    case False
    with one_more.hyps(2) one_more.prems obtain k where "status m t = Running c k"
      by (cases rule: thread_step.cases) (auto simp: leave_def)
    then show ?thesis using linear_running [OF lin] by blast
  qed
qed

text \<open>
  At any moment the state of a region is the serial one of the calls that have returned, or a
  point of one call of a thread, begun from there.
\<close>

lemma region_state:
  assumes "interleaved may body locks (started_machine a0) m"
  obtains "agree r (serial body (history m) a0) (shared m)"
  | t c k b where "may t c" "region c = r" "partial (body c) (serial body (history m) a0) k b"
      "agree r b (shared m)"
proof (cases "inside m r")
  case True
  then obtain t c k where "status m t = Running c k" "region c = r" unfolding inside_def by blast
  with linear_running [OF linear_interleaved [OF assms]] that(2) show ?thesis by metis
next
  case False
  with linear_interleaved [OF assms] that(1) show ?thesis unfolding linear_def by blast
qed

text \<open>Whenever no call is running, the state is the one of the serial execution.\<close>

lemma serializable:
  assumes "interleaved may body locks (started_machine a0) m" "quiescent m"
  shows "shared m = serial body (history m) a0"
proof -
  have "\<not> inside m r" for r using assms(2) by (simp add: inside_def quiescent_def)
  then have "agree r (shared m) (serial body (history m) a0)" for r
    using linear_interleaved [OF assms(1)] unfolding linear_def by (blast intro: agree_sym)
  then show ?thesis by (rule agree_all)
qed

lemma quiescent_free:
  assumes "interleaved may body locks (started_machine a0) m" "quiescent m"
  shows "mutex m = None"
  using linear_interleaved [OF assms(1)] assms(2) unfolding linear_def quiescent_def
  by (metis option.exhaust thread.distinct(3))

subsubsection \<open>No call is left waiting\<close>

lemma linear_more:
  "interleaved may body locks m m' \<Longrightarrow> linear a0 m \<Longrightarrow> linear a0 m'"
  by (induction rule: interleaved.induct) (auto intro: linear_step)

text \<open>A call inside its code can go on to its return, whatever the other threads do.\<close>

lemma running_returns:
  assumes "status m t = Running c k"
  shows "\<exists>m'. interleaved may body locks m m' \<and> status m' = (status m)(t := Idle)"
  using assms
proof (induction k arbitrary: m)
  case Stop
  then have "thread_step may body locks t m (leave locks t c (shared m) m)" by (rule thread_step.return)
  moreover have "status (leave locks t c (shared m) m) = (status m)(t := Idle)" by (simp add: leave_def)
  ultimately show ?case by (blast intro: interleaved.intros)
next
  case (Do f k)
  show ?case
  proof (cases "f (shared m)")
    case (Ok a)
    let ?m = "m\<lparr>status := (status m)(t := Running c (k (shared m))), shared := a\<rparr>"
    have step: "interleaved may body locks m ?m"
      using interleaved.one_more [OF interleaved.no_step thread_step.access [OF Do.prems Ok]] .
    have "\<exists>m'. interleaved may body locks ?m m' \<and> status m' = (status ?m)(t := Idle)"
      by (rule Do.IH) simp_all
    then obtain m' where "interleaved may body locks ?m m'" "status m' = (status m)(t := Idle)"
      by auto
    with interleaved_trans [OF this(1) step] show ?thesis by blast
  next
    case (Panicked a)
    then have "thread_step may body locks t m (leave locks t c a m)" using Do.prems by (rule thread_step.panic [rotated])
    moreover have "status (leave locks t c a m) = (status m)(t := Idle)" by (simp add: leave_def)
    ultimately show ?thesis by (blast intro: interleaved.intros)
  qed
qed

lemma busy_returns:
  assumes lin: "linear a0 m" and busy: "status m t \<noteq> Idle"
  shows "\<exists>t m'. interleaved may body locks m m' \<and> status m t \<noteq> Idle \<and> status m' = (status m)(t := Idle)"
proof (cases "\<exists>t c k. status m t = Running c k")
  case True
  then show ?thesis using running_returns by (metis thread.distinct(3))
next
  case False
  with lin have free: "mutex m = None" unfolding linear_def by (metis option.exhaust)
  from busy False obtain c where c: "status m t = Waiting c" by (cases "status m t") auto
  let ?m = "m\<lparr>status := (status m)(t := Running c (body c)), mutex := Some t\<rparr>"
  have step: "interleaved may body locks m ?m"
    using interleaved.one_more [OF interleaved.no_step thread_step.acquire [OF c free]] .
  obtain m' where "interleaved may body locks ?m m'" "status m' = (status ?m)(t := Idle)"
    using running_returns [of ?m t c "body c"] by auto
  then show ?thesis using interleaved_trans [OF _ step] busy by (intro exI [of _ t] exI [of _ m']) auto
qed

lemma all_return:
  assumes "finite {t. status m t \<noteq> Idle}" and "linear a0 m"
  shows "\<exists>m'. interleaved may body locks m m' \<and> quiescent m'"
  using assms
proof (induction "card {t. status m t \<noteq> Idle}" arbitrary: m)
  case 0
  then have "quiescent m" by (auto simp: quiescent_def)
  then show ?case by (blast intro: interleaved.no_step)
next
  case (Suc n)
  then have "{t. status m t \<noteq> Idle} \<noteq> {}" by (metis card.empty nat.distinct(1))
  then obtain t0 where "status m t0 \<noteq> Idle" by blast
  then obtain t m1 where m1: "interleaved may body locks m m1" "status m t \<noteq> Idle"
      "status m1 = (status m)(t := Idle)"
    using busy_returns [OF Suc.prems(2)] by blast
  have less: "{t. status m1 t \<noteq> Idle} = {t. status m t \<noteq> Idle} - {t}" using m1(3) by auto
  have "n = card {t. status m1 t \<noteq> Idle}"
    using Suc.hyps(2) Suc.prems(1) m1(2) by (simp add: less card_Diff_singleton)
  moreover have "finite {t. status m1 t \<noteq> Idle}" using Suc.prems(1) by (simp add: less)
  ultimately obtain m' where "interleaved may body locks m1 m'" "quiescent m'"
    using Suc.hyps(1) linear_more [OF m1(1) Suc.prems(2)] by blast
  then show ?case using interleaved_trans [OF _ m1(1)] by blast
qed

end

end
