(* ===== verification/Go_Utf8.thy ===== *)
theory Go_Utf8
  imports Go_Prelude
begin

section \<open>UTF-8 validity and the conversion to float64\<close>

text \<open>
  \<open>utf8.ValidString\<close>, which the Prometheus client applies to every label value, and the
  conversion \<open>float64(n)\<close> of a 64-bit integer, which rounds to 53 significant bits, ties to
  even. A float64 that comes from an integer is an integer again, so it is kept as an \<open>int\<close>.
\<close>

subsection \<open>utf8.ValidString\<close>

definition byte :: "char \<Rightarrow> nat" where
  "byte c = of_char c"

definition cont_byte :: "char \<Rightarrow> bool" where
  "cont_byte c \<longleftrightarrow> 128 \<le> byte c \<and> byte c \<le> 191"

text \<open>
  The second byte of a sequence has a narrower range after the lead bytes E0 and F0 (no overlong
  encodings), ED (no surrogates) and F4 (nothing above U+10FFFF).
\<close>

definition second_byte_ok :: "nat \<Rightarrow> char \<Rightarrow> bool" where
  "second_byte_ok lead c \<longleftrightarrow> cont_byte c
     \<and> (lead = 224 \<longrightarrow> 160 \<le> byte c) \<and> (lead = 237 \<longrightarrow> byte c \<le> 159)
     \<and> (lead = 240 \<longrightarrow> 144 \<le> byte c) \<and> (lead = 244 \<longrightarrow> byte c \<le> 143)"

fun ValidString :: "string \<Rightarrow> bool" where
  "ValidString [] = True"
| "ValidString (c # s) =
     (let b = byte c in
      if b < 128 then ValidString s
      else if 194 \<le> b \<and> b \<le> 223 then
        (case s of c1 # s1 \<Rightarrow> cont_byte c1 \<and> ValidString s1 | _ \<Rightarrow> False)
      else if 224 \<le> b \<and> b \<le> 239 then
        (case s of c1 # c2 # s2 \<Rightarrow> second_byte_ok b c1 \<and> cont_byte c2 \<and> ValidString s2 | _ \<Rightarrow> False)
      else if 240 \<le> b \<and> b \<le> 244 then
        (case s of c1 # c2 # c3 # s3 \<Rightarrow>
           second_byte_ok b c1 \<and> cont_byte c2 \<and> cont_byte c3 \<and> ValidString s3 | _ \<Rightarrow> False)
      else False)"

definition ascii :: "string \<Rightarrow> bool" where
  "ascii s \<longleftrightarrow> list_all (\<lambda>c. byte c < 128) s"

lemma ascii_ValidString: "ascii s \<Longrightarrow> ValidString s"
  by (induction s) (auto simp: ascii_def)

subsection \<open>float64(n)\<close>

text \<open>The number of low bits that do not fit into 53 significant bits.\<close>

fun excess_bits :: "nat \<Rightarrow> nat" where
  "excess_bits n = (if n < 2 ^ 53 then 0 else Suc (excess_bits (n div 2)))"

declare excess_bits.simps [simp del]

definition round_even :: "nat \<Rightarrow> nat \<Rightarrow> nat" where
  "round_even n k =
     (let q = n div 2 ^ k; r = n mod 2 ^ k in
      if 2 * r > 2 ^ k \<or> (2 * r = 2 ^ k \<and> odd q) then (q + 1) * 2 ^ k else q * 2 ^ k)"

definition float64 :: "int \<Rightarrow> int" where
  "float64 x = sgn x * int (round_even (nat \<bar>x\<bar>) (excess_bits (nat \<bar>x\<bar>)))"

lemma round_even_0 [simp]: "round_even n 0 = n"
  by (simp add: round_even_def Let_def)

lemma float64_exact: "\<bar>x\<bar> < 2 ^ 53 \<Longrightarrow> float64 x = x"
  by (simp add: float64_def excess_bits.simps sgn_if nat_less_iff)

lemma float64_0 [simp]: "float64 0 = 0"
  by (simp add: float64_exact)

lemma float64_1 [simp]: "float64 1 = 1"
  by (simp add: float64_exact)

text \<open>The rounding error is at most half of the unit that is rounded to.\<close>

lemma round_even_error: "2 * \<bar>int (round_even n k) - int n\<bar> \<le> 2 ^ k"
proof -
  let ?q = "int (n div 2 ^ k)" and ?r = "int (n mod 2 ^ k)"
  have n: "int n = ?q * 2 ^ k + ?r"
    by (metis (no_types, lifting) div_mult_mod_eq of_nat_add of_nat_mult of_nat_numeral of_nat_power)
  have r: "0 \<le> ?r" "?r < 2 ^ k"
    by (simp_all add: zmod_int)
  show ?thesis
  proof (cases "2 * (n mod 2 ^ k) > 2 ^ k \<or> (2 * (n mod 2 ^ k) = 2 ^ k \<and> odd (n div 2 ^ k))")
    case True
    then have "int (round_even n k) = (?q + 1) * 2 ^ k"
      by (simp add: round_even_def Let_def algebra_simps)
    moreover from True have "2 ^ k \<le> 2 * (n mod 2 ^ k)" by auto
    then have "2 ^ k \<le> 2 * ?r"
      by (simp only: of_nat_le_iff [where 'a = int, symmetric] of_nat_mult of_nat_numeral of_nat_power)
    ultimately show ?thesis using n r by (simp add: algebra_simps)
  next
    case False
    then have "int (round_even n k) = ?q * 2 ^ k"
      by (simp add: round_even_def Let_def)
    moreover from False have "2 * (n mod 2 ^ k) \<le> 2 ^ k" by auto
    then have "2 * ?r \<le> 2 ^ k"
      by (simp only: of_nat_le_iff [where 'a = int, symmetric] of_nat_mult of_nat_numeral of_nat_power)
    ultimately show ?thesis using n r by (simp add: algebra_simps)
  qed
qed

end
