(* ===== verification/Prometheus.thy ===== *)
theory Prometheus
  imports Go_Utf8
begin

section \<open>The Prometheus client library as the program uses it\<close>

text \<open>
  \<open>prometheus.GaugeVec\<close> is not part of the repository, so it is a parameter of the model: a
  record of the operations the program calls (\<open>NewGaugeVec\<close>, \<open>With(labels).Set(v)\<close>,
  \<open>Reset\<close>) and of what a scrape observes (the declared label names and the series, which
  the client library identifies by the label values in declaration order). The locale
  \<open>gauge_vec\<close> states the documented behaviour the program relies on: \<open>With\<close> panics
  exactly if the labels do not match the declaration or a value is not valid UTF-8, \<open>Set\<close>
  overwrites one series, \<open>Reset\<close> deletes all. \<open>map_api\<close> is a concrete instance, used to
  run the model on examples.
\<close>

type_synonym labels = "(string, string) go_map"

record GaugeOpts =
  opts_Name :: string
  opts_Help :: string
  opts_ConstLabels :: labels

record 'g gauge_api =
  NewGaugeVec :: "GaugeOpts \<Rightarrow> string list \<Rightarrow> 'g"
  WithSet :: "'g \<Rightarrow> labels \<Rightarrow> int \<Rightarrow> 'g option"
  VecReset :: "'g \<Rightarrow> 'g"
  label_names :: "'g \<Rightarrow> string list"
  series :: "'g \<Rightarrow> string list \<Rightarrow> int option"

definition labels_ok :: "string list \<Rightarrow> labels \<Rightarrow> bool" where
  "labels_ok names ls \<longleftrightarrow>
     distinct (map fst ls) \<and> set (map fst ls) = set names \<and> list_all (\<lambda>(_, v). ValidString v) ls"

definition label_values :: "string list \<Rightarrow> labels \<Rightarrow> string list" where
  "label_values names ls = map (\<lambda>n. the (map_of ls n)) names"

text \<open>A method of a struct that sets one series of the vector in one of its fields.\<close>

definition with_set ::
  "'g gauge_api \<Rightarrow> ('s \<Rightarrow> 'g) \<Rightarrow> ('g \<Rightarrow> 's \<Rightarrow> 's) \<Rightarrow> labels \<Rightarrow> int \<Rightarrow> 's \<Rightarrow> 's exec" where
  "with_set pv get put ls v s =
     (case WithSet pv (get s) ls v of None \<Rightarrow> Panicked s | Some g \<Rightarrow> Ok (put g s))"

locale gauge_vec =
  fixes pv :: "'g gauge_api"
  assumes new_names: "label_names pv (NewGaugeVec pv opts names) = names"
    and new_series: "series pv (NewGaugeVec pv opts names) = Map.empty"
    and with_panics: "\<not> labels_ok (label_names pv g) ls \<Longrightarrow> WithSet pv g ls v = None"
    and with_returns: "labels_ok (label_names pv g) ls \<Longrightarrow> \<exists>g'. WithSet pv g ls v = Some g'"
    and with_names: "WithSet pv g ls v = Some g' \<Longrightarrow> label_names pv g' = label_names pv g"
    and with_series: "WithSet pv g ls v = Some g' \<Longrightarrow>
      series pv g' = (series pv g)(label_values (label_names pv g) ls \<mapsto> v)"
    and reset_names: "label_names pv (VecReset pv g) = label_names pv g"
    and reset_series: "series pv (VecReset pv g) = Map.empty"
begin

lemma with_set_Ok:
  assumes "labels_ok (label_names pv (get s)) ls"
  shows "\<exists>g. with_set pv get put ls v s = Ok (put g s)
    \<and> label_names pv g = label_names pv (get s)
    \<and> series pv g = (series pv (get s))(label_values (label_names pv (get s)) ls \<mapsto> v)"
  using with_returns [OF assms, of v] with_names with_series
  by (fastforce simp: with_set_def)

lemma with_set_panics:
  "\<not> labels_ok (label_names pv (get s)) ls \<Longrightarrow> with_set pv get put ls v s = Panicked s"
  by (simp add: with_set_def with_panics)

end

subsection \<open>A concrete instance\<close>

record map_vec =
  mv_names :: "string list"
  mv_series :: "(string list \<times> int) list"

definition map_api :: "map_vec gauge_api" where
  "map_api = \<lparr>
     NewGaugeVec = (\<lambda>opts names. \<lparr>mv_names = names, mv_series = []\<rparr>),
     WithSet = (\<lambda>g ls v. if labels_ok (mv_names g) ls
       then Some (g\<lparr>mv_series := map_put (label_values (mv_names g) ls) v (mv_series g)\<rparr>) else None),
     VecReset = (\<lambda>g. g\<lparr>mv_series := []\<rparr>),
     label_names = mv_names,
     series = (\<lambda>g. map_of (mv_series g))\<rparr>"

interpretation map_vec: gauge_vec map_api
  by unfold_locales (auto simp: map_api_def split: if_splits)

subsection \<open>With and Set as two steps\<close>

text \<open>
  \<open>With(labels).Set(v)\<close> is two calls: \<open>With\<close> creates the series, with the value 0, if there is
  none, and \<open>Set\<close> then gives it its value. A scrape may come between the two. \<open>vec_with\<close> is
  the vector after the first call.
\<close>

locale gauge_with = gauge_vec pv for pv :: "'g gauge_api" +
  fixes vec_with :: "'g \<Rightarrow> labels \<Rightarrow> 'g option"
  assumes created: "labels_ok (label_names pv g) ls \<Longrightarrow> \<exists>g'. vec_with g ls = Some g'"
    and not_created: "\<not> labels_ok (label_names pv g) ls \<Longrightarrow> vec_with g ls = None"
    and created_names: "vec_with g ls = Some g' \<Longrightarrow> label_names pv g' = label_names pv g"
    and created_series: "vec_with g ls = Some g' \<Longrightarrow>
      (let key = label_values (label_names pv g) ls in
       series pv g' = (case series pv g key of None \<Rightarrow> (series pv g)(key \<mapsto> 0) | Some _ \<Rightarrow> series pv g))"
    and created_set: "vec_with g ls = Some g' \<Longrightarrow> WithSet pv g' ls v = WithSet pv g ls v"

definition map_with :: "map_vec \<Rightarrow> labels \<Rightarrow> map_vec option" where
  "map_with g ls =
     (if labels_ok (mv_names g) ls then
        (let key = label_values (mv_names g) ls in
         Some (case map_of (mv_series g) key of None \<Rightarrow> g\<lparr>mv_series := map_put key 0 (mv_series g)\<rparr>
           | Some _ \<Rightarrow> g))
      else None)"

lemma map_put_twice: "map_put k v (map_put k u m) = map_put k v m"
  by (induction m) (auto simp: map_put_def)

interpretation map_vec: gauge_with map_api map_with
  by unfold_locales
    (auto simp: map_with_def map_api_def Let_def map_put_twice split: if_splits option.splits)

end
