(* ===== verification/Aggregator.thy ===== *)
theory Aggregator
  imports Prometheus
begin

section \<open>The metrics aggregator (\<open>pkg/metrics/aggregator.go\<close>)\<close>

text \<open>
  The aggregator owns the ten gauge vectors, the map of identity providers and the map of
  draining machines; every controller reports through its methods. Definitions follow the
  methods of \<open>AdoptionMetricsAggregator\<close>. Each method is one step here; \<open>Aggregator_Threads\<close> has
  its single accesses and the mutex. A method returns \<open>Panicked\<close> where \<open>With\<close> panics.
\<close>

subsection \<open>Constants and types\<close>

definition providerLabel :: string where "providerLabel = ''provider''"
definition osdExporterValue :: string where "osdExporterValue = ''osd_exporter''"
definition proxyHTTPLabel :: string where "proxyHTTPLabel = ''http''"
definition proxyHTTPSLabel :: string where "proxyHTTPSLabel = ''https''"
definition proxyCALabel :: string where "proxyCALabel = ''trusted_ca''"
definition proxyCASubjectLabel :: string where "proxyCASubjectLabel = ''subject''"
definition clusterIDLabel :: string where "clusterIDLabel = ''_id''"
definition cpmsInstanceTypeLabel :: string where
  "cpmsInstanceTypeLabel = ''label_node_kubernetes_io_instance_type''"
definition pullSecretReasonLabel :: string where "pullSecretReasonLabel = ''reason''"

text \<open>
  The nine constants of type \<open>IdentityProviderType\<close> belong to \<open>github.com/openshift/api\<close>;
  their string values are a parameter.
\<close>

record idp_types =
  IdentityProviderTypeBasicAuth :: string
  IdentityProviderTypeGitHub :: string
  IdentityProviderTypeGitLab :: string
  IdentityProviderTypeGoogle :: string
  IdentityProviderTypeHTPasswd :: string
  IdentityProviderTypeKeystone :: string
  IdentityProviderTypeLDAP :: string
  IdentityProviderTypeOpenID :: string
  IdentityProviderTypeRequestHeader :: string

definition knownIdentityProviderTypes :: "idp_types \<Rightarrow> string list" where
  "knownIdentityProviderTypes c =
     [IdentityProviderTypeBasicAuth c, IdentityProviderTypeGitHub c, IdentityProviderTypeGitLab c,
      IdentityProviderTypeGoogle c, IdentityProviderTypeHTPasswd c, IdentityProviderTypeKeystone c,
      IdentityProviderTypeLDAP c, IdentityProviderTypeOpenID c, IdentityProviderTypeRequestHeader c]"

text \<open>The field of \<open>configv1.IdentityProvider\<close> that the aggregator reads.\<close>

record IdentityProvider =
  idp_Type :: string

record providerKey =
  pk_name :: string
  pk_namespace :: string

record drainingMachine =
  nodeName :: string
  podNamespaces :: "(string, string) go_map"

record 'g AdoptionMetricsAggregator =
  identityProviders :: 'g
  clusterAdmin :: 'g
  limitedSupport :: 'g
  providerMap :: "(providerKey, string list) go_map"
  clusterProxy :: 'g
  clusterProxyCAExpiry :: 'g
  clusterProxyCAValid :: 'g
  clusterID :: 'g
  podsPreventingNodeDrain :: 'g
  cpms :: 'g
  pullSecretValid :: 'g
  drainingMachines :: "(string, drainingMachine) go_map"
  aggregationInterval :: duration

definition GetMetrics :: "'g AdoptionMetricsAggregator \<Rightarrow> 'g list" where
  "GetMetrics a =
     [identityProviders a, clusterAdmin a, limitedSupport a, clusterProxy a, clusterProxyCAExpiry a,
      clusterProxyCAValid a, clusterID a, podsPreventingNodeDrain a, cpms a, pullSecretValid a]"

text \<open>The accessors of single vectors, which the tests of the controllers use.\<close>

definition GetClusterRoleMetric :: "'g AdoptionMetricsAggregator \<Rightarrow> 'g" where
  "GetClusterRoleMetric a = clusterAdmin a"

definition GetLimitedsupportStatus :: "'g AdoptionMetricsAggregator \<Rightarrow> 'g" where
  "GetLimitedsupportStatus a = limitedSupport a"

definition GetIdentityProviderMetric :: "'g AdoptionMetricsAggregator \<Rightarrow> 'g" where
  "GetIdentityProviderMetric a = identityProviders a"

definition GetClusterProxyMetric :: "'g AdoptionMetricsAggregator \<Rightarrow> 'g" where
  "GetClusterProxyMetric a = clusterProxy a"

definition GetClusterIDMetric :: "'g AdoptionMetricsAggregator \<Rightarrow> 'g" where
  "GetClusterIDMetric a = clusterID a"

definition GetClusterProxyCAExpiryMetrics :: "'g AdoptionMetricsAggregator \<Rightarrow> 'g" where
  "GetClusterProxyCAExpiryMetrics a = clusterProxyCAExpiry a"

definition GetClusterProxyCAValidMetrics :: "'g AdoptionMetricsAggregator \<Rightarrow> 'g" where
  "GetClusterProxyCAValidMetrics a = clusterProxyCAValid a"

definition GetCPMSMetric :: "'g AdoptionMetricsAggregator \<Rightarrow> 'g" where
  "GetCPMSMetric a = cpms a"

definition GetPullSecretValidMetric :: "'g AdoptionMetricsAggregator \<Rightarrow> 'g" where
  "GetPullSecretValidMetric a = pullSecretValid a"

subsection \<open>Setting and resetting gauges\<close>

definition SetClusterAdmin :: "'g gauge_api \<Rightarrow> string \<Rightarrow> bool
    \<Rightarrow> 'g AdoptionMetricsAggregator \<Rightarrow> 'g AdoptionMetricsAggregator exec" where
  "SetClusterAdmin pv uuid enabled a =
     (let labels = [(clusterIDLabel, uuid)] in
      if enabled then with_set pv clusterAdmin (\<lambda>g a. a\<lparr>clusterAdmin := g\<rparr>) labels 1 a
      else with_set pv clusterAdmin (\<lambda>g a. a\<lparr>clusterAdmin := g\<rparr>) labels 0 a)"

definition SetLimitedSupport :: "'g gauge_api \<Rightarrow> string \<Rightarrow> bool
    \<Rightarrow> 'g AdoptionMetricsAggregator \<Rightarrow> 'g AdoptionMetricsAggregator exec" where
  "SetLimitedSupport pv uuid enabled a =
     (let labels = [(clusterIDLabel, uuid)] in
      if enabled then with_set pv limitedSupport (\<lambda>g a. a\<lparr>limitedSupport := g\<rparr>) labels 1 a
      else with_set pv limitedSupport (\<lambda>g a. a\<lparr>limitedSupport := g\<rparr>) labels 0 a)"

definition SetClusterProxy ::
  "'g gauge_api \<Rightarrow> string \<Rightarrow> string \<Rightarrow> string \<Rightarrow> string \<Rightarrow> int
    \<Rightarrow> 'g AdoptionMetricsAggregator \<Rightarrow> 'g AdoptionMetricsAggregator exec" where
  "SetClusterProxy pv uuid proxyHTTP proxyHTTPS proxyTrustedCA proxyEnabled a =
     with_set pv clusterProxy (\<lambda>g a. a\<lparr>clusterProxy := g\<rparr>)
       [(clusterIDLabel, uuid), (proxyHTTPLabel, proxyHTTP),
        (proxyHTTPSLabel, proxyHTTPS), (proxyCALabel, proxyTrustedCA)]
       (float64 proxyEnabled) a"

definition ResetClusterProxyCAExpiry :: "'g gauge_api
    \<Rightarrow> 'g AdoptionMetricsAggregator \<Rightarrow> 'g AdoptionMetricsAggregator" where
  "ResetClusterProxyCAExpiry pv a = a\<lparr>clusterProxyCAExpiry := VecReset pv (clusterProxyCAExpiry a)\<rparr>"

definition SetClusterProxyCAExpiry :: "'g gauge_api \<Rightarrow> string \<Rightarrow> string \<Rightarrow> int
    \<Rightarrow> 'g AdoptionMetricsAggregator \<Rightarrow> 'g AdoptionMetricsAggregator exec" where
  "SetClusterProxyCAExpiry pv uuid subject expiry a =
     with_set pv clusterProxyCAExpiry (\<lambda>g a. a\<lparr>clusterProxyCAExpiry := g\<rparr>)
       [(clusterIDLabel, uuid), (proxyCASubjectLabel, subject)] (float64 expiry) a"

definition ResetClusterProxyCAValid :: "'g gauge_api
    \<Rightarrow> 'g AdoptionMetricsAggregator \<Rightarrow> 'g AdoptionMetricsAggregator" where
  "ResetClusterProxyCAValid pv a = a\<lparr>clusterProxyCAValid := VecReset pv (clusterProxyCAValid a)\<rparr>"

definition SetClusterProxyCAValid :: "'g gauge_api \<Rightarrow> string \<Rightarrow> bool
    \<Rightarrow> 'g AdoptionMetricsAggregator \<Rightarrow> 'g AdoptionMetricsAggregator exec" where
  "SetClusterProxyCAValid pv uuid valid a =
     (let labels = [(clusterIDLabel, uuid)] in
      if valid then with_set pv clusterProxyCAValid (\<lambda>g a. a\<lparr>clusterProxyCAValid := g\<rparr>) labels 1 a
      else with_set pv clusterProxyCAValid (\<lambda>g a. a\<lparr>clusterProxyCAValid := g\<rparr>) labels 0 a)"

definition SetCPMSEnabled :: "'g gauge_api \<Rightarrow> string \<Rightarrow> string \<Rightarrow> bool
    \<Rightarrow> 'g AdoptionMetricsAggregator \<Rightarrow> 'g AdoptionMetricsAggregator exec" where
  "SetCPMSEnabled pv uuid instance_type enabled a =
     (let labels = [(clusterIDLabel, uuid), (cpmsInstanceTypeLabel, instance_type)];
          a = a\<lparr>cpms := VecReset pv (cpms a)\<rparr> in
      if enabled then with_set pv cpms (\<lambda>g a. a\<lparr>cpms := g\<rparr>) labels 1 a
      else with_set pv cpms (\<lambda>g a. a\<lparr>cpms := g\<rparr>) labels 0 a)"

definition SetClusterID :: "'g gauge_api \<Rightarrow> string
    \<Rightarrow> 'g AdoptionMetricsAggregator \<Rightarrow> 'g AdoptionMetricsAggregator exec" where
  "SetClusterID pv uuid a =
     with_set pv clusterID (\<lambda>g a. a\<lparr>clusterID := g\<rparr>) [(clusterIDLabel, uuid)] 1 a"

definition SetPullSecretValid :: "'g gauge_api \<Rightarrow> string \<Rightarrow> bool \<Rightarrow> string
    \<Rightarrow> 'g AdoptionMetricsAggregator \<Rightarrow> 'g AdoptionMetricsAggregator exec" where
  "SetPullSecretValid pv uuid valid reason a =
     (let a = a\<lparr>pullSecretValid := VecReset pv (pullSecretValid a)\<rparr>;
          labels = [(clusterIDLabel, uuid), (pullSecretReasonLabel, reason)] in
      if valid then with_set pv pullSecretValid (\<lambda>g a. a\<lparr>pullSecretValid := g\<rparr>) labels 1 a
      else with_set pv pullSecretValid (\<lambda>g a. a\<lparr>pullSecretValid := g\<rparr>) labels 0 a)"

subsection \<open>Identity providers\<close>

definition SetOAuthIDP :: "string \<Rightarrow> string \<Rightarrow> IdentityProvider list
    \<Rightarrow> 'g AdoptionMetricsAggregator \<Rightarrow> 'g AdoptionMetricsAggregator" where
  "SetOAuthIDP name namespace provider a =
     (let providerTypes = map idp_Type provider in
      a\<lparr>providerMap :=
          map_put \<lparr>pk_name = name, pk_namespace = namespace\<rparr> providerTypes (providerMap a)\<rparr>)"

definition DeleteOAuthIDP :: "string \<Rightarrow> string
    \<Rightarrow> 'g AdoptionMetricsAggregator \<Rightarrow> 'g AdoptionMetricsAggregator" where
  "DeleteOAuthIDP name namespace a =
     a\<lparr>providerMap := map_del \<lparr>pk_name = name, pk_namespace = namespace\<rparr> (providerMap a)\<rparr>"

text \<open>The counting loop of \<open>aggregate\<close>; the outer loop visits the map in the order of the list.\<close>

definition count_provider :: "string \<Rightarrow> (string, int) go_map \<Rightarrow> (string, int) go_map" where
  "count_provider p providers =
     (let providers = (if map_of providers p = None then map_put p 0 providers else providers) in
      map_put p (the (map_of providers p) + 1) providers)"

definition count_providers :: "(providerKey, string list) go_map \<Rightarrow> (string, int) go_map" where
  "count_providers m = fold (\<lambda>(_, v) providers. fold count_provider v providers) m []"

definition aggregate :: "'g gauge_api \<Rightarrow> idp_types
    \<Rightarrow> 'g AdoptionMetricsAggregator \<Rightarrow> 'g AdoptionMetricsAggregator exec" where
  "aggregate pv c a =
     (let providers = count_providers (providerMap a) in
      range_exec (\<lambda>t a.
        case map_of providers t of
          Some n \<Rightarrow> with_set pv identityProviders (\<lambda>g a. a\<lparr>identityProviders := g\<rparr>)
            [(providerLabel, t)] (float64 n) a
        | None \<Rightarrow> with_set pv identityProviders (\<lambda>g a. a\<lparr>identityProviders := g\<rparr>)
            [(providerLabel, t)] 0 a)
        (knownIdentityProviderTypes c) a)"

text \<open>
  The goroutine of \<open>Run\<close>: each round of its loop receives from the ticker and aggregates, or
  receives from the closed channel \<open>done\<close> and returns. With each event comes what the other goroutines
  have done to the aggregator since the last one. The result is the aggregator, and the events that are
  left when the loop has returned; \<open>None\<close> if it still waits for an event, or has panicked.
\<close>

datatype run_event = Done | Tick

type_synonym 'g run_events = "(('g AdoptionMetricsAggregator \<Rightarrow> 'g AdoptionMetricsAggregator) \<times> run_event) list"

fun Run :: "'g gauge_api \<Rightarrow> idp_types \<Rightarrow> 'g run_events
    \<Rightarrow> 'g AdoptionMetricsAggregator \<Rightarrow> 'g run_events option \<times> 'g AdoptionMetricsAggregator exec" where
  "Run pv c [] a = (None, Ok a)"
| "Run pv c ((others, Done) # es) a = (Some es, Ok (others a))"
| "Run pv c ((others, Tick) # es) a =
     (case aggregate pv c (others a) of Ok a' \<Rightarrow> Run pv c es a' | Panicked a' \<Rightarrow> (None, Panicked a'))"

subsection \<open>Draining machines\<close>

text \<open>
  \<open>resetMachineMetrics_in\<close> is the loop over the order in which \<open>range\<close> visits the
  entries of the two maps; \<open>resetMachineMetrics\<close> takes the order of the lists.
\<close>

definition set_pod_series :: "'g gauge_api \<Rightarrow> string \<Rightarrow> drainingMachine \<Rightarrow> string \<times> string
    \<Rightarrow> 'g AdoptionMetricsAggregator \<Rightarrow> 'g AdoptionMetricsAggregator exec" where
  "set_pod_series pv machine machineInfo pod a =
     (case pod of (podName, podNamespace) \<Rightarrow>
        with_set pv podsPreventingNodeDrain (\<lambda>g a. a\<lparr>podsPreventingNodeDrain := g\<rparr>)
          [(''pod_name'', podName), (''pod_namespace'', podNamespace),
           (''instance'', nodeName machineInfo), (''node'', nodeName machineInfo),
           (''machine'', machine)] 1 a)"

definition resetMachineMetrics_in :: "'g gauge_api \<Rightarrow> (string \<times> drainingMachine) list
    \<Rightarrow> 'g AdoptionMetricsAggregator \<Rightarrow> 'g AdoptionMetricsAggregator exec" where
  "resetMachineMetrics_in pv order a =
     range_exec (\<lambda>(machine, machineInfo).
         range_exec (set_pod_series pv machine machineInfo) (podNamespaces machineInfo))
       order (a\<lparr>podsPreventingNodeDrain := VecReset pv (podsPreventingNodeDrain a)\<rparr>)"

definition resetMachineMetrics :: "'g gauge_api
    \<Rightarrow> 'g AdoptionMetricsAggregator \<Rightarrow> 'g AdoptionMetricsAggregator exec" where
  "resetMachineMetrics pv a = resetMachineMetrics_in pv (drainingMachines a) a"

definition SetFailingDrainPodsForMachine ::
  "'g gauge_api \<Rightarrow> string \<Rightarrow> (string, string) go_map \<Rightarrow> string
    \<Rightarrow> 'g AdoptionMetricsAggregator \<Rightarrow> 'g AdoptionMetricsAggregator exec" where
  "SetFailingDrainPodsForMachine pv machineName podNamespaceMap node a =
     resetMachineMetrics pv (a\<lparr>drainingMachines := map_put machineName
       \<lparr>nodeName = node, podNamespaces = podNamespaceMap\<rparr> (drainingMachines a)\<rparr>)"

definition RemoveMachineMetrics :: "'g gauge_api \<Rightarrow> string
    \<Rightarrow> 'g AdoptionMetricsAggregator \<Rightarrow> 'g AdoptionMetricsAggregator exec" where
  "RemoveMachineMetrics pv machineName a =
     resetMachineMetrics pv (a\<lparr>drainingMachines := map_del machineName (drainingMachines a)\<rparr>)"

subsection \<open>Construction\<close>

definition osd_gauge :: "string \<Rightarrow> string \<Rightarrow> GaugeOpts" where
  "osd_gauge name help = \<lparr>opts_Name = name, opts_Help = help,
     opts_ConstLabels = [(''name'', osdExporterValue)]\<rparr>"

definition new_collector :: "'g gauge_api \<Rightarrow> duration \<Rightarrow> 'g AdoptionMetricsAggregator" where
  "new_collector pv interval = \<lparr>
     identityProviders = NewGaugeVec pv
       (osd_gauge ''identity_provider'' ''Indicates if an identity provider is enabled'')
       [providerLabel],
     clusterAdmin = NewGaugeVec pv
       (osd_gauge ''cluster_admin_enabled'' ''Indicates if the cluster-admin role is enabled'')
       [clusterIDLabel],
     limitedSupport = NewGaugeVec pv
       (osd_gauge ''limited_support_enabled'' ''Indicates if limited support is enabled'')
       [clusterIDLabel],
     providerMap = [],
     clusterProxy = NewGaugeVec pv
       (osd_gauge ''cluster_proxy'' ''Indicates cluster proxy state'')
       [clusterIDLabel, proxyHTTPLabel, proxyHTTPSLabel, proxyCALabel],
     clusterProxyCAExpiry = NewGaugeVec pv
       (osd_gauge ''cluster_proxy_ca_expiry_timestamp''
          ''Indicates cluster proxy CA expiry unix timestamp in UTC'')
       [clusterIDLabel, proxyCASubjectLabel],
     clusterProxyCAValid = NewGaugeVec pv
       (osd_gauge ''cluster_proxy_ca_valid'' ''Indicates if cluster proxy CA valid'')
       [clusterIDLabel],
     clusterID = NewGaugeVec pv
       (osd_gauge ''cluster_id'' ''Indicates the cluster id'')
       [clusterIDLabel],
     podsPreventingNodeDrain = NewGaugeVec pv
       \<lparr>opts_Name = ''pods_preventing_node_drain'',
        opts_Help = ''Pods that cannot be drained from a deleting machine'', opts_ConstLabels = []\<rparr>
       [''pod_name'', ''pod_namespace'', ''instance'', ''node'', ''machine''],
     cpms = NewGaugeVec pv
       (osd_gauge ''cpms_enabled'' ''Indicates if the controlplanemachineset is enabled'')
       [clusterIDLabel, cpmsInstanceTypeLabel],
     pullSecretValid = NewGaugeVec pv
       (osd_gauge ''pull_secret_valid''
          ''Indicates if the cluster pull secret is valid (1=valid, 0=invalid)'')
       [clusterIDLabel, pullSecretReasonLabel],
     drainingMachines = [],
     aggregationInterval = interval\<rparr>"

definition NewMetricsAggregator :: "'g gauge_api \<Rightarrow> duration \<Rightarrow> string
    \<Rightarrow> 'g AdoptionMetricsAggregator exec" where
  "NewMetricsAggregator pv interval clusterId =
     exec_bind (SetClusterAdmin pv clusterId False (new_collector pv interval))
       (SetLimitedSupport pv clusterId False)"

subsection \<open>The exposition and the invariant\<close>

text \<open>
  What a scrape sees is, for each vector, a map from label values to a number. It is the
  abstract state of the aggregator: every method acts on it as a plain map update.
\<close>

datatype vec_id =
    Identity_Provider | Cluster_Admin_Enabled | Limited_Support_Enabled | Cluster_Proxy
  | Cluster_Proxy_CA_Expiry | Cluster_Proxy_CA_Valid | Cluster_ID | Pods_Preventing_Node_Drain
  | CPMS_Enabled | Pull_Secret_Valid

text \<open>The ten vectors can be enumerated, so that facts about all of them are computed.\<close>

instantiation vec_id :: enum
begin

definition
  "Enum.enum = [Identity_Provider, Cluster_Admin_Enabled, Limited_Support_Enabled, Cluster_Proxy,
     Cluster_Proxy_CA_Expiry, Cluster_Proxy_CA_Valid, Cluster_ID, Pods_Preventing_Node_Drain,
     CPMS_Enabled, Pull_Secret_Valid]"

definition
  "Enum.enum_all P \<longleftrightarrow> (\<forall>v \<in> set (Enum.enum :: vec_id list). P v)"

definition
  "Enum.enum_ex P \<longleftrightarrow> (\<exists>v \<in> set (Enum.enum :: vec_id list). P v)"

instance
proof
  have all: "v \<in> set Enum.enum" for v :: vec_id
    by (cases v) (simp_all add: enum_vec_id_def)
  then show "UNIV = set (Enum.enum :: vec_id list)" by blast
  show "distinct (Enum.enum :: vec_id list)" by (simp add: enum_vec_id_def)
  show "Enum.enum_all P \<longleftrightarrow> Ball (UNIV :: vec_id set) P" for P using all by (auto simp: enum_all_vec_id_def)
  show "Enum.enum_ex P \<longleftrightarrow> Bex (UNIV :: vec_id set) P" for P using all by (auto simp: enum_ex_vec_id_def)
qed

end

type_synonym exposition = "vec_id \<Rightarrow> string list \<Rightarrow> int option"

fun vec_of :: "vec_id \<Rightarrow> 'g AdoptionMetricsAggregator \<Rightarrow> 'g" where
  "vec_of Identity_Provider a = identityProviders a"
| "vec_of Cluster_Admin_Enabled a = clusterAdmin a"
| "vec_of Limited_Support_Enabled a = limitedSupport a"
| "vec_of Cluster_Proxy a = clusterProxy a"
| "vec_of Cluster_Proxy_CA_Expiry a = clusterProxyCAExpiry a"
| "vec_of Cluster_Proxy_CA_Valid a = clusterProxyCAValid a"
| "vec_of Cluster_ID a = clusterID a"
| "vec_of Pods_Preventing_Node_Drain a = podsPreventingNodeDrain a"
| "vec_of CPMS_Enabled a = cpms a"
| "vec_of Pull_Secret_Valid a = pullSecretValid a"

fun declared_labels :: "vec_id \<Rightarrow> string list" where
  "declared_labels Identity_Provider = [providerLabel]"
| "declared_labels Cluster_Admin_Enabled = [clusterIDLabel]"
| "declared_labels Limited_Support_Enabled = [clusterIDLabel]"
| "declared_labels Cluster_Proxy = [clusterIDLabel, proxyHTTPLabel, proxyHTTPSLabel, proxyCALabel]"
| "declared_labels Cluster_Proxy_CA_Expiry = [clusterIDLabel, proxyCASubjectLabel]"
| "declared_labels Cluster_Proxy_CA_Valid = [clusterIDLabel]"
| "declared_labels Cluster_ID = [clusterIDLabel]"
| "declared_labels Pods_Preventing_Node_Drain =
     [''pod_name'', ''pod_namespace'', ''instance'', ''node'', ''machine'']"
| "declared_labels CPMS_Enabled = [clusterIDLabel, cpmsInstanceTypeLabel]"
| "declared_labels Pull_Secret_Valid = [clusterIDLabel, pullSecretReasonLabel]"

definition exported :: "'g gauge_api \<Rightarrow> 'g AdoptionMetricsAggregator \<Rightarrow> exposition" where
  "exported pv a v = series pv (vec_of v a)"

definition expo_set :: "vec_id \<Rightarrow> string list \<Rightarrow> int \<Rightarrow> exposition \<Rightarrow> exposition" where
  "expo_set v key x e = e(v := (e v)(key \<mapsto> x))"

definition expo_only :: "vec_id \<Rightarrow> string list \<Rightarrow> int \<Rightarrow> exposition \<Rightarrow> exposition" where
  "expo_only v key x e = e(v := [key \<mapsto> x])"

definition expo_clear :: "vec_id \<Rightarrow> exposition \<Rightarrow> exposition" where
  "expo_clear v e = e(v := Map.empty)"

text \<open>The series that the map of draining machines stands for.\<close>

definition drain_keys :: "(string, drainingMachine) go_map \<Rightarrow> string list set" where
  "drain_keys ms = {[p, ns, nodeName i, nodeName i, m] | m i p ns.
     (m, i) \<in> set ms \<and> (p, ns) \<in> set (podNamespaces i)}"

definition drain_series :: "(string, drainingMachine) go_map \<Rightarrow> string list \<Rightarrow> int option" where
  "drain_series ms key = (if key \<in> drain_keys ms then Some 1 else None)"

definition machine_wf :: "string \<Rightarrow> drainingMachine \<Rightarrow> bool" where
  "machine_wf m i \<longleftrightarrow> ValidString m \<and> ValidString (nodeName i) \<and> keys_distinct (podNamespaces i)
     \<and> (\<forall>(p, ns) \<in> set (podNamespaces i). ValidString p \<and> ValidString ns)"

definition drain_wf :: "(string, drainingMachine) go_map \<Rightarrow> bool" where
  "drain_wf ms \<longleftrightarrow> keys_distinct ms \<and> (\<forall>(m, i) \<in> set ms. machine_wf m i)"

text \<open>
  The invariant of the aggregator: the vectors carry the label names their \<open>With\<close> calls use,
  the maps are well formed, and the exported drain series are exactly those of the map of
  draining machines.
\<close>

definition agg_wf :: "'g gauge_api \<Rightarrow> 'g AdoptionMetricsAggregator \<Rightarrow> bool" where
  "agg_wf pv a \<longleftrightarrow>
     (\<forall>v. label_names pv (vec_of v a) = declared_labels v)
     \<and> keys_distinct (providerMap a) \<and> drain_wf (drainingMachines a)
     \<and> exported pv a Pods_Preventing_Node_Drain = drain_series (drainingMachines a)"

end
