(* ===== verification/Aggregator_Facts.thy ===== *)
theory Aggregator_Facts
  imports Aggregator
begin

section \<open>Correctness of the aggregator's methods\<close>

text \<open>
  Every method is shown to return (no \<open>With\<close> call panics), to keep the invariant
  \<open>agg_wf\<close>, and to act on the exposition as a map update that touches one vector only. The
  locale \<open>vec_field\<close> is the contract of a struct field that holds a vector; it is
  interpreted for the ten fields.
\<close>

lemmas label_defs = providerLabel_def proxyHTTPLabel_def proxyHTTPSLabel_def proxyCALabel_def
  proxyCASubjectLabel_def clusterIDLabel_def cpmsInstanceTypeLabel_def pullSecretReasonLabel_def

declare expo_set_def [expo_simps] and expo_only_def [expo_simps] and expo_clear_def [expo_simps]

definition same_maps :: "'g AdoptionMetricsAggregator \<Rightarrow> 'g AdoptionMetricsAggregator \<Rightarrow> bool" where
  "same_maps a a' \<longleftrightarrow> providerMap a' = providerMap a \<and> drainingMachines a' = drainingMachines a"

lemma same_maps_refl [simp]: "same_maps a a"
  by (simp add: same_maps_def)

lemma same_maps_trans: "same_maps a b \<Longrightarrow> same_maps b c \<Longrightarrow> same_maps a c"
  by (simp add: same_maps_def)

text \<open>An operation implements an update of the exposition from a given state.\<close>

definition reports :: "'g gauge_api \<Rightarrow> 'g AdoptionMetricsAggregator exec
    \<Rightarrow> (exposition \<Rightarrow> exposition) \<Rightarrow> 'g AdoptionMetricsAggregator \<Rightarrow> bool" where
  "reports pv result f a \<longleftrightarrow>
     (\<exists>a'. result = Ok a' \<and> agg_wf pv a' \<and> same_maps a a' \<and> exported pv a' = f (exported pv a))"

lemma reportsE:
  assumes "reports pv result f a"
  obtains a' where "result = Ok a'" "agg_wf pv a'" "same_maps a a'" "exported pv a' = f (exported pv a)"
  using assms by (auto simp: reports_def)

lemma reports_bind:
  assumes "reports pv x f a"
    and "\<And>b. agg_wf pv b \<Longrightarrow> reports pv (op b) g b"
  shows "reports pv (exec_bind x op) (g \<circ> f) a"
proof -
  from assms(1) obtain b where b: "x = Ok b" "agg_wf pv b" "same_maps a b" "exported pv b = f (exported pv a)"
    by (rule reportsE)
  from assms(2) [OF b(2)] show ?thesis
    using b by (auto simp: reports_def intro: same_maps_trans)
qed

lemma all_vec_id:
  "(\<forall>v. P v) \<longleftrightarrow> P Identity_Provider \<and> P Cluster_Admin_Enabled \<and> P Limited_Support_Enabled
     \<and> P Cluster_Proxy \<and> P Cluster_Proxy_CA_Expiry \<and> P Cluster_Proxy_CA_Valid \<and> P Cluster_ID
     \<and> P Pods_Preventing_Node_Drain \<and> P CPMS_Enabled \<and> P Pull_Secret_Valid"
proof -
  have "(\<forall>v. P v) \<longleftrightarrow> (\<forall>v \<in> set Enum.enum. P v)" by (simp add: UNIV_enum [symmetric])
  then show ?thesis by (simp add: enum_vec_id_def)
qed

locale vec_field =
  fixes v :: vec_id
    and get :: "'g AdoptionMetricsAggregator \<Rightarrow> 'g"
    and put :: "'g \<Rightarrow> 'g AdoptionMetricsAggregator \<Rightarrow> 'g AdoptionMetricsAggregator"
  assumes get_vec: "get a = vec_of v a"
    and put_vecs: "\<forall>v'. vec_of v' (put g a) = (if v' = v then g else vec_of v' a)"
    and put_maps: "same_maps a (put g a)"
    and put_put: "put g (put h a) = put g a"
begin

lemma put_vec: "vec_of v' (put g a) = (if v' = v then g else vec_of v' a)"
  using put_vecs by blast

lemma exported_put:
  "exported pv (put g a) v' = (if v' = v then series pv g else exported pv a v')"
  by (simp add: exported_def put_vec)

lemma set_step:
  assumes pv: "gauge_vec pv" and names: "label_names pv (vec_of v a) = declared_labels v"
    and ls: "labels_ok (declared_labels v) ls"
  shows "\<exists>a'. with_set pv get put ls x a = Ok a'
    \<and> (\<forall>v'. label_names pv (vec_of v' a') = label_names pv (vec_of v' a)) \<and> same_maps a a'
    \<and> exported pv a' = expo_set v (label_values (declared_labels v) ls) x (exported pv a)"
proof -
  have "labels_ok (label_names pv (get a)) ls"
    using names ls by (simp add: get_vec)
  from gauge_vec.with_set_Ok [where get = get and s = a, OF pv this, of put x]
  obtain g where g: "with_set pv get put ls x a = Ok (put g a)"
      "label_names pv g = declared_labels v"
      "series pv g = (series pv (vec_of v a))(label_values (declared_labels v) ls \<mapsto> x)"
    using names by (auto simp: get_vec)
  then show ?thesis
    using names put_maps
    by (intro exI [of _ "put g a"]) (auto simp: put_vec exported_put exported_def expo_set_def fun_eq_iff)
qed

lemma reset_step:
  assumes pv: "gauge_vec pv" and wf: "agg_wf pv a" and not_drain: "v \<noteq> Pods_Preventing_Node_Drain"
  shows "reports pv (Ok (put (VecReset pv (get a)) a)) (expo_clear v) a"
  using assms put_maps [of a "VecReset pv (get a)"]
  by (auto simp: reports_def agg_wf_def exported_put expo_clear_def put_vec get_vec fun_eq_iff same_maps_def
        gauge_vec.reset_names [OF pv] gauge_vec.reset_series [OF pv])

lemma set_reports:
  assumes pv: "gauge_vec pv" and wf: "agg_wf pv a" and not_drain: "v \<noteq> Pods_Preventing_Node_Drain"
    and ls: "labels_ok (declared_labels v) ls"
  shows "reports pv (with_set pv get put ls x a)
    (expo_set v (label_values (declared_labels v) ls) x) a"
proof -
  from wf have "label_names pv (vec_of v a) = declared_labels v" by (simp add: agg_wf_def)
  from set_step [OF pv this ls, of x] obtain a' where "with_set pv get put ls x a = Ok a'"
      "\<forall>v'. label_names pv (vec_of v' a') = label_names pv (vec_of v' a)" "same_maps a a'"
      "exported pv a' = expo_set v (label_values (declared_labels v) ls) x (exported pv a)"
    by blast
  then show ?thesis
    using wf not_drain by (auto simp: reports_def agg_wf_def same_maps_def expo_set_def)
qed

text \<open>Resetting a vector before setting one series leaves exactly that series.\<close>

lemma reset_set_reports:
  assumes pv: "gauge_vec pv" and wf: "agg_wf pv a" and not_drain: "v \<noteq> Pods_Preventing_Node_Drain"
    and ls: "labels_ok (declared_labels v) ls"
  shows "reports pv (with_set pv get put ls x (put (VecReset pv (get a)) a))
    (expo_only v (label_values (declared_labels v) ls) x) a"
proof -
  let ?r = "put (VecReset pv (get a)) a"
  have reset: "agg_wf pv ?r" "same_maps a ?r" "exported pv ?r = expo_clear v (exported pv a)"
    using reset_step [OF pv wf not_drain] by (auto elim: reportsE)
  from set_reports [OF pv reset(1) not_drain ls, of x] show ?thesis
    using reset by (auto simp: reports_def expo_simps fun_eq_iff intro: same_maps_trans)
qed

end

interpretation vf_idp: vec_field Identity_Provider identityProviders "\<lambda>g a. a\<lparr>identityProviders := g\<rparr>"
  by unfold_locales (auto simp: all_vec_id same_maps_def)

interpretation vf_admin: vec_field Cluster_Admin_Enabled clusterAdmin "\<lambda>g a. a\<lparr>clusterAdmin := g\<rparr>"
  by unfold_locales (auto simp: all_vec_id same_maps_def)

interpretation vf_support: vec_field Limited_Support_Enabled limitedSupport "\<lambda>g a. a\<lparr>limitedSupport := g\<rparr>"
  by unfold_locales (auto simp: all_vec_id same_maps_def)

interpretation vf_proxy: vec_field Cluster_Proxy clusterProxy "\<lambda>g a. a\<lparr>clusterProxy := g\<rparr>"
  by unfold_locales (auto simp: all_vec_id same_maps_def)

interpretation vf_expiry: vec_field Cluster_Proxy_CA_Expiry clusterProxyCAExpiry "\<lambda>g a. a\<lparr>clusterProxyCAExpiry := g\<rparr>"
  by unfold_locales (auto simp: all_vec_id same_maps_def)

interpretation vf_valid: vec_field Cluster_Proxy_CA_Valid clusterProxyCAValid "\<lambda>g a. a\<lparr>clusterProxyCAValid := g\<rparr>"
  by unfold_locales (auto simp: all_vec_id same_maps_def)

interpretation vf_id: vec_field Cluster_ID clusterID "\<lambda>g a. a\<lparr>clusterID := g\<rparr>"
  by unfold_locales (auto simp: all_vec_id same_maps_def)

interpretation vf_drain: vec_field Pods_Preventing_Node_Drain podsPreventingNodeDrain
    "\<lambda>g a. a\<lparr>podsPreventingNodeDrain := g\<rparr>"
  by unfold_locales (auto simp: all_vec_id same_maps_def)

interpretation vf_cpms: vec_field CPMS_Enabled cpms "\<lambda>g a. a\<lparr>cpms := g\<rparr>"
  by unfold_locales (auto simp: all_vec_id same_maps_def)

interpretation vf_pull: vec_field Pull_Secret_Valid pullSecretValid "\<lambda>g a. a\<lparr>pullSecretValid := g\<rparr>"
  by unfold_locales (auto simp: all_vec_id same_maps_def)

subsection \<open>Methods that set or reset gauges\<close>

lemmas labels_simps = labels_ok_def label_values_def label_defs

lemma SetClusterAdmin_reports:
  assumes "gauge_vec pv" "ValidString u" "agg_wf pv a"
  shows "reports pv (SetClusterAdmin pv u b a) (expo_set Cluster_Admin_Enabled [u] (of_bool b)) a"
  using vf_admin.set_reports [OF assms(1,3), of "[(clusterIDLabel, u)]" "of_bool b"] assms(2)
  by (cases b) (simp_all add: SetClusterAdmin_def labels_simps)

lemma SetLimitedSupport_reports:
  assumes "gauge_vec pv" "ValidString u" "agg_wf pv a"
  shows "reports pv (SetLimitedSupport pv u b a) (expo_set Limited_Support_Enabled [u] (of_bool b)) a"
  using vf_support.set_reports [OF assms(1,3), of "[(clusterIDLabel, u)]" "of_bool b"] assms(2)
  by (cases b) (simp_all add: SetLimitedSupport_def labels_simps)

lemma SetClusterProxyCAValid_reports:
  assumes "gauge_vec pv" "ValidString u" "agg_wf pv a"
  shows "reports pv (SetClusterProxyCAValid pv u b a) (expo_set Cluster_Proxy_CA_Valid [u] (of_bool b)) a"
  using vf_valid.set_reports [OF assms(1,3), of "[(clusterIDLabel, u)]" "of_bool b"] assms(2)
  by (cases b) (simp_all add: SetClusterProxyCAValid_def labels_simps)

lemma SetClusterID_reports:
  assumes "gauge_vec pv" "ValidString u" "agg_wf pv a"
  shows "reports pv (SetClusterID pv u a) (expo_set Cluster_ID [u] 1) a"
  using vf_id.set_reports [OF assms(1,3), of "[(clusterIDLabel, u)]" 1] assms(2)
  by (simp add: SetClusterID_def labels_simps)

lemma SetClusterProxy_reports:
  assumes "gauge_vec pv" "list_all ValidString [u, http, https, ca]" "agg_wf pv a"
  shows "reports pv (SetClusterProxy pv u http https ca n a)
    (expo_set Cluster_Proxy [u, http, https, ca] (float64 n)) a"
  using vf_proxy.set_reports [OF assms(1,3), of "[(clusterIDLabel, u), (proxyHTTPLabel, http),
      (proxyHTTPSLabel, https), (proxyCALabel, ca)]" "float64 n"] assms(2)
  by (simp add: SetClusterProxy_def labels_simps)

lemma SetClusterProxyCAExpiry_reports:
  assumes "gauge_vec pv" "ValidString u" "ValidString subject" "agg_wf pv a"
  shows "reports pv (SetClusterProxyCAExpiry pv u subject n a)
    (expo_set Cluster_Proxy_CA_Expiry [u, subject] (float64 n)) a"
  using vf_expiry.set_reports [OF assms(1,4), of "[(clusterIDLabel, u), (proxyCASubjectLabel, subject)]"
      "float64 n"] assms(2,3)
  by (simp add: SetClusterProxyCAExpiry_def labels_simps)

lemma ResetClusterProxyCAExpiry_reports:
  assumes "gauge_vec pv" "agg_wf pv a"
  shows "reports pv (Ok (ResetClusterProxyCAExpiry pv a)) (expo_clear Cluster_Proxy_CA_Expiry) a"
  using vf_expiry.reset_step [OF assms] by (simp add: ResetClusterProxyCAExpiry_def)

lemma ResetClusterProxyCAValid_reports:
  assumes "gauge_vec pv" "agg_wf pv a"
  shows "reports pv (Ok (ResetClusterProxyCAValid pv a)) (expo_clear Cluster_Proxy_CA_Valid) a"
  using vf_valid.reset_step [OF assms] by (simp add: ResetClusterProxyCAValid_def)

lemma SetCPMSEnabled_reports:
  assumes "gauge_vec pv" "ValidString u" "ValidString t" "agg_wf pv a"
  shows "reports pv (SetCPMSEnabled pv u t b a) (expo_only CPMS_Enabled [u, t] (of_bool b)) a"
  using vf_cpms.reset_set_reports [OF assms(1,4), of "[(clusterIDLabel, u), (cpmsInstanceTypeLabel, t)]"
      "of_bool b"] assms(2,3)
  by (cases b) (simp_all add: SetCPMSEnabled_def labels_simps Let_def)

lemma SetPullSecretValid_reports:
  assumes "gauge_vec pv" "ValidString u" "ValidString r" "agg_wf pv a"
  shows "reports pv (SetPullSecretValid pv u b r a) (expo_only Pull_Secret_Valid [u, r] (of_bool b)) a"
  using vf_pull.reset_set_reports [OF assms(1,4), of "[(clusterIDLabel, u), (pullSecretReasonLabel, r)]"
      "of_bool b"] assms(2,3)
  by (cases b) (simp_all add: SetPullSecretValid_def labels_simps Let_def)

subsection \<open>The contracts the controllers rely on\<close>

text \<open>
  A flag gauge keeps one 0/1 series per cluster id; a state gauge keeps one series in all, whose
  second label tells a detail of the state. The controllers for the cluster-admins group, for
  limited support and for the trusted CA report through flag gauges, those for the control plane
  machine set and for the pull secret through state gauges.
\<close>

locale flag_gauge =
  fixes pv :: "'g gauge_api" and v :: vec_id
    and set_flag :: "string \<Rightarrow> bool \<Rightarrow> 'g AdoptionMetricsAggregator \<Rightarrow> 'g AdoptionMetricsAggregator exec"
  assumes flag_reports: "gauge_vec pv \<Longrightarrow> ValidString u \<Longrightarrow> agg_wf pv a \<Longrightarrow>
    reports pv (set_flag u b a) (expo_set v [u] (of_bool b)) a"
begin

lemma flag_value:
  assumes "gauge_vec pv" "ValidString u" "agg_wf pv a"
  shows "\<exists>a'. set_flag u b a = Ok a' \<and> agg_wf pv a' \<and> exported pv a' v [u] = Some (of_bool b)
    \<and> (\<forall>u'. u' \<noteq> u \<longrightarrow> exported pv a' v [u'] = exported pv a v [u'])
    \<and> (\<forall>v'. v' \<noteq> v \<longrightarrow> exported pv a' v' = exported pv a v')"
  using flag_reports [OF assms, of b] by (auto simp: expo_set_def elim!: reportsE)

text \<open>Over any history of reports the last one is what a scrape sees.\<close>

lemma flag_history:
  assumes "gauge_vec pv" "ValidString u" "agg_wf pv a"
  shows "\<exists>a'. range_exec (set_flag u) bs a = Ok a' \<and> agg_wf pv a'
    \<and> exported pv a' v [u] = (if bs = [] then exported pv a v [u] else Some (of_bool (last bs)))"
proof (rule range_exec_invariant [where I = "\<lambda>seen s. agg_wf pv s
      \<and> exported pv s v [u] = (if seen = [] then exported pv a v [u] else Some (of_bool (last seen)))"])
  show "\<exists>s'. set_flag u b s = Ok s' \<and> agg_wf pv s' \<and> exported pv s' v [u] =
      (if seen @ [b] = [] then exported pv a v [u] else Some (of_bool (last (seen @ [b]))))"
    if "agg_wf pv s \<and> exported pv s v [u] =
      (if seen = [] then exported pv a v [u] else Some (of_bool (last seen)))" for b seen s
    using flag_value [OF assms(1,2), of s b] that by auto
qed (use assms in auto)

end

interpretation admin_flag: flag_gauge pv Cluster_Admin_Enabled "SetClusterAdmin pv" for pv
  by unfold_locales (rule SetClusterAdmin_reports)

interpretation support_flag: flag_gauge pv Limited_Support_Enabled "SetLimitedSupport pv" for pv
  by unfold_locales (rule SetLimitedSupport_reports)

interpretation ca_flag: flag_gauge pv Cluster_Proxy_CA_Valid "SetClusterProxyCAValid pv" for pv
  by unfold_locales (rule SetClusterProxyCAValid_reports)

locale state_gauge =
  fixes pv :: "'g gauge_api" and v :: vec_id
    and set_state :: "string \<Rightarrow> string \<Rightarrow> bool \<Rightarrow> 'g AdoptionMetricsAggregator \<Rightarrow> 'g AdoptionMetricsAggregator exec"
  assumes state_reports: "gauge_vec pv \<Longrightarrow> ValidString u \<Longrightarrow> ValidString d \<Longrightarrow> agg_wf pv a \<Longrightarrow>
    reports pv (set_state u d b a) (expo_only v [u, d] (of_bool b)) a"
begin

lemma state_value:
  assumes "gauge_vec pv" "ValidString u" "ValidString d" "agg_wf pv a"
  shows "\<exists>a'. set_state u d b a = Ok a' \<and> agg_wf pv a' \<and> exported pv a' v = [[u, d] \<mapsto> of_bool b]
    \<and> (\<forall>v'. v' \<noteq> v \<longrightarrow> exported pv a' v' = exported pv a v')"
  using state_reports [OF assms, of b] by (auto simp: expo_only_def elim!: reportsE)

text \<open>However often the detail changes, no series of an earlier report stays behind.\<close>

lemma state_history:
  assumes "gauge_vec pv" "ValidString u" "list_all (\<lambda>w. ValidString (fst w)) ws" "agg_wf pv a"
  shows "\<exists>a'. range_exec (\<lambda>(d, b). set_state u d b) ws a = Ok a' \<and> agg_wf pv a'
    \<and> exported pv a' v = (if ws = [] then exported pv a v
        else [[u, fst (last ws)] \<mapsto> of_bool (snd (last ws))])"
proof (rule range_exec_invariant [where I = "\<lambda>seen s. agg_wf pv s \<and> exported pv s v =
      (if seen = [] then exported pv a v else [[u, fst (last seen)] \<mapsto> of_bool (snd (last seen))])"])
  show "\<exists>s'. (case w of (d, b) \<Rightarrow> set_state u d b) s = Ok s' \<and> agg_wf pv s' \<and> exported pv s' v =
      (if seen @ [w] = [] then exported pv a v
       else [[u, fst (last (seen @ [w]))] \<mapsto> of_bool (snd (last (seen @ [w])))])"
    if "w \<in> set ws" "agg_wf pv s \<and> exported pv s v =
      (if seen = [] then exported pv a v else [[u, fst (last seen)] \<mapsto> of_bool (snd (last seen))])"
    for w seen s
    using state_value [OF assms(1,2), of "fst w" s "snd w"] assms(3) that
    by (auto simp: list_all_iff split: prod.splits)
qed (use assms in auto)

end

interpretation cpms_state: state_gauge pv CPMS_Enabled "SetCPMSEnabled pv" for pv
  by unfold_locales (rule SetCPMSEnabled_reports)

interpretation pull_state: state_gauge pv Pull_Secret_Valid "\<lambda>u r b. SetPullSecretValid pv u b r" for pv
  by unfold_locales (rule SetPullSecretValid_reports)

subsection \<open>Identity providers\<close>

text \<open>The number of entries of a provider type over all OAuth objects.\<close>

definition provider_total :: "(providerKey, string list) go_map \<Rightarrow> string \<Rightarrow> nat" where
  "provider_total m t = count_list (concat (map snd m)) t"

lemma provider_total_perm:
  assumes "mset m' = mset m" shows "provider_total m' t = provider_total m t"
proof -
  have "provider_total m t = (\<Sum>v \<in># mset (map snd m). count_list v t)" for m
    by (induction m) (auto simp: provider_total_def)
  then show ?thesis using assms by (metis mset_map)
qed

lemma map_of_count_provider:
  "map_of (count_provider p providers) =
     (map_of providers)(p \<mapsto> (case map_of providers p of None \<Rightarrow> 1 | Some n \<Rightarrow> n + 1))"
  by (auto simp: count_provider_def Let_def split: option.splits)

definition counted :: "string list \<Rightarrow> string \<Rightarrow> int option" where
  "counted ts t = (if t \<in> set ts then Some (int (count_list ts t)) else None)"

lemma fold_count_provider:
  "map_of providers = counted seen \<Longrightarrow>
   map_of (fold count_provider ts providers) = counted (seen @ ts)"
proof (induction ts arbitrary: seen providers)
  case (Cons p ts)
  have "map_of (count_provider p providers) = counted (seen @ [p])"
    by (auto simp: map_of_count_provider Cons.prems counted_def fun_eq_iff count_list_0_iff)
  from Cons.IH [OF this] show ?case by simp
qed simp

lemma map_of_count_providers: "map_of (count_providers m) = counted (concat (map snd m))"
proof -
  have "map_of (fold (\<lambda>(_, v) providers. fold count_provider v providers) m providers)
      = counted (seen @ concat (map snd m))"
    if "map_of providers = counted seen" for seen providers
    using that
  proof (induction m arbitrary: seen providers)
    case (Cons e m)
    obtain k v where e: "e = (k, v)" by (cases e)
    from Cons.IH [OF fold_count_provider [OF Cons.prems, of v]] show ?case by (simp add: e)
  qed simp
  from this [of "[]" "[]"] show ?thesis
    by (simp add: count_providers_def counted_def fun_eq_iff)
qed

definition expo_providers :: "idp_types \<Rightarrow> (providerKey, string list) go_map \<Rightarrow> exposition \<Rightarrow> exposition" where
  "expo_providers c m e = e(Identity_Provider := (\<lambda>key.
     case key of [t] \<Rightarrow> if t \<in> set (knownIdentityProviderTypes c)
         then Some (float64 (int (provider_total m t))) else e Identity_Provider [t]
     | _ \<Rightarrow> e Identity_Provider key))"

declare expo_providers_def [expo_simps]

lemma aggregate_reports:
  assumes pv: "gauge_vec pv" and wf: "agg_wf pv a"
    and valid: "list_all ValidString (knownIdentityProviderTypes c)"
  shows "reports pv (aggregate pv c a) (expo_providers c (providerMap a)) a"
proof -
  let ?m = "count_providers (providerMap a)" and ?ts = "knownIdentityProviderTypes c"
  let ?total = "\<lambda>t. float64 (int (provider_total (providerMap a) t))"
  let ?body = "\<lambda>t a. case map_of ?m t of
      Some n \<Rightarrow> with_set pv identityProviders (\<lambda>g a. a\<lparr>identityProviders := g\<rparr>)
        [(providerLabel, t)] (float64 n) a
    | None \<Rightarrow> with_set pv identityProviders (\<lambda>g a. a\<lparr>identityProviders := g\<rparr>) [(providerLabel, t)] 0 a"
  define I where "I = (\<lambda>(seen :: string list) s. agg_wf pv s \<and> same_maps a s \<and> exported pv s =
    (exported pv a)(Identity_Provider := (\<lambda>key. case key of [t] \<Rightarrow>
        if t \<in> set seen then Some (?total t) else exported pv a Identity_Provider [t]
      | _ \<Rightarrow> exported pv a Identity_Provider key)))"
  have body: "?body t s = with_set pv identityProviders (\<lambda>g a. a\<lparr>identityProviders := g\<rparr>)
      [(providerLabel, t)] (?total t) s" for t s
    by (auto simp: map_of_count_providers counted_def provider_total_def count_list_0_iff)
  have "\<exists>s'. range_exec ?body ?ts a = Ok s' \<and> I ?ts s'"
  proof (rule range_exec_invariant)
    fix t seen s assume t: "t \<in> set ?ts" and I: "I seen s"
    have "labels_ok (declared_labels Identity_Provider) [(providerLabel, t)]"
      using t valid by (auto simp: labels_ok_def list_all_iff)
    from vf_idp.set_reports [OF pv _ _ this, of s "?total t"] I
    obtain s' where "?body t s = Ok s'" "agg_wf pv s'" "same_maps s s'"
        "exported pv s' = expo_set Identity_Provider [t] (?total t) (exported pv s)"
      unfolding body by (auto simp: I_def label_values_def elim!: reportsE)
    then show "\<exists>s'. ?body t s = Ok s' \<and> I (seen @ [t]) s'"
      using I by (auto simp: I_def expo_set_def fun_eq_iff split: list.splits intro: same_maps_trans)
  next
    show "I [] a" using wf by (auto simp: I_def fun_eq_iff split: list.splits)
  qed
  then show ?thesis
    by (auto simp: reports_def aggregate_def I_def expo_providers_def Let_def fun_eq_iff)
qed

lemma SetOAuthIDP_wf:
  "agg_wf pv a \<Longrightarrow> agg_wf pv (SetOAuthIDP name ns ps a)"
  "exported pv (SetOAuthIDP name ns ps a) = exported pv a"
  by (auto simp: agg_wf_def exported_def SetOAuthIDP_def all_vec_id fun_eq_iff)

lemma DeleteOAuthIDP_wf:
  "agg_wf pv a \<Longrightarrow> agg_wf pv (DeleteOAuthIDP name ns a)"
  "exported pv (DeleteOAuthIDP name ns a) = exported pv a"
  by (auto simp: agg_wf_def exported_def DeleteOAuthIDP_def all_vec_id fun_eq_iff)

subsection \<open>Draining machines\<close>

definition one_series :: "string list set \<Rightarrow> string list \<Rightarrow> int option" where
  "one_series K key = (if key \<in> K then Some 1 else None)"

definition pod_keys :: "string \<Rightarrow> drainingMachine \<Rightarrow> (string \<times> string) list \<Rightarrow> string list set" where
  "pod_keys m i pods = {[p, ns, nodeName i, nodeName i, m] | p ns. (p, ns) \<in> set pods}"

lemma pod_keys_snoc [simp]:
  "pod_keys m i [] = {}"
  "pod_keys m i (pods @ [(p, ns)]) = insert [p, ns, nodeName i, nodeName i, m] (pod_keys m i pods)"
  by (auto simp: pod_keys_def)

lemma drain_keys_snoc [simp]:
  "drain_keys [] = {}"
  "drain_keys (ms @ [(m, i)]) = drain_keys ms \<union> pod_keys m i (podNamespaces i)"
  by (auto simp: drain_keys_def pod_keys_def)

lemma drain_series_one: "drain_series ms = one_series (drain_keys ms)"
  by (auto simp: drain_series_def one_series_def)

text \<open>
  The drain loops only touch the one vector: the state they reach keeps the label names and the
  maps, and exports the old series but for the drain vector, which exports \<open>K\<close>.
\<close>

definition drains :: "'g gauge_api \<Rightarrow> 'g AdoptionMetricsAggregator \<Rightarrow> string list set
    \<Rightarrow> 'g AdoptionMetricsAggregator \<Rightarrow> bool" where
  "drains pv a K s \<longleftrightarrow> (\<forall>v. label_names pv (vec_of v s) = declared_labels v) \<and> same_maps a s
     \<and> exported pv s = (exported pv a)(Pods_Preventing_Node_Drain := one_series K)"

lemma set_pod_series_drains:
  assumes pv: "gauge_vec pv" and s: "drains pv a K s"
    and valid: "list_all ValidString [p, ns, nodeName i, m]"
  shows "\<exists>s'. set_pod_series pv m i (p, ns) s = Ok s'
    \<and> drains pv a (insert [p, ns, nodeName i, nodeName i, m] K) s'"
proof -
  let ?ls = "[(''pod_name'', p), (''pod_namespace'', ns), (''instance'', nodeName i),
     (''node'', nodeName i), (''machine'', m)]"
  have ls: "labels_ok (declared_labels Pods_Preventing_Node_Drain) ?ls"
    using valid by (simp add: labels_ok_def)
  have vals: "label_values (declared_labels Pods_Preventing_Node_Drain) ?ls =
      [p, ns, nodeName i, nodeName i, m]"
    by (simp add: label_values_def)
  have "label_names pv (vec_of Pods_Preventing_Node_Drain s) = declared_labels Pods_Preventing_Node_Drain"
    using s unfolding drains_def by blast
  from vf_drain.set_step [OF pv this ls, of 1] vals s show ?thesis
    by (auto simp: set_pod_series_def drains_def expo_set_def one_series_def fun_eq_iff
        intro: same_maps_trans)
qed

lemma machine_loop_drains:
  assumes pv: "gauge_vec pv" and s: "drains pv a K s" and wf: "machine_wf m i"
  shows "\<exists>s'. range_exec (set_pod_series pv m i) (podNamespaces i) s = Ok s'
    \<and> drains pv a (K \<union> pod_keys m i (podNamespaces i)) s'"
proof (rule range_exec_invariant [where I = "\<lambda>seen s. drains pv a (K \<union> pod_keys m i seen) s"])
  show "\<exists>s'. set_pod_series pv m i pod s = Ok s' \<and> drains pv a (K \<union> pod_keys m i (seen @ [pod])) s'"
    if "pod \<in> set (podNamespaces i)" "drains pv a (K \<union> pod_keys m i seen) s" for pod seen s
    using set_pod_series_drains [OF pv that(2), of "fst pod" "snd pod" i m] that(1) wf
    by (cases pod) (auto simp: machine_wf_def)
qed (use s in simp)

lemma resetMachineMetrics_in_drains:
  assumes pv: "gauge_vec pv" and names: "\<forall>v. label_names pv (vec_of v a) = declared_labels v"
    and wf: "\<forall>(m, i) \<in> set order. machine_wf m i"
  shows "\<exists>a'. resetMachineMetrics_in pv order a = Ok a' \<and> drains pv a (drain_keys order) a'"
  unfolding resetMachineMetrics_in_def
proof (rule range_exec_invariant [where I = "\<lambda>seen s. drains pv a (drain_keys seen) s"])
  show "\<exists>s'. (case e of (m, i) \<Rightarrow> range_exec (set_pod_series pv m i) (podNamespaces i)) s = Ok s'
      \<and> drains pv a (drain_keys (seen @ [e])) s'"
    if "e \<in> set order" "drains pv a (drain_keys seen) s" for e seen s
    using machine_loop_drains [OF pv that(2), of "fst e" "snd e"] that(1) wf
    by (cases e) auto
next
  show "drains pv a (drain_keys []) (a\<lparr>podsPreventingNodeDrain := VecReset pv (podsPreventingNodeDrain a)\<rparr>)"
    using names vf_drain.put_maps [of a]
    by (auto simp: drains_def vf_drain.put_vec vf_drain.exported_put vf_drain.get_vec one_series_def
        fun_eq_iff same_maps_def gauge_vec.reset_names [OF pv] gauge_vec.reset_series [OF pv]
        simp del: vec_of.simps)
qed

text \<open>Any order in which the two loops may visit the map gives the same series.\<close>

definition same_entry :: "string \<times> drainingMachine \<Rightarrow> string \<times> drainingMachine \<Rightarrow> bool" where
  "same_entry e e' \<longleftrightarrow> fst e' = fst e \<and> nodeName (snd e') = nodeName (snd e)
     \<and> mset (podNamespaces (snd e')) = mset (podNamespaces (snd e))"

definition visits :: "(string, drainingMachine) go_map \<Rightarrow> (string, drainingMachine) go_map \<Rightarrow> bool" where
  "visits ms order \<longleftrightarrow> (\<exists>ms'. mset ms' = mset ms \<and> list_all2 same_entry ms' order)"

lemma drain_keys_Cons [simp]:
  "drain_keys (e # ms) = pod_keys (fst e) (snd e) (podNamespaces (snd e)) \<union> drain_keys ms"
  by (cases e) (auto simp: drain_keys_def pod_keys_def)

lemma drain_keys_set: "set ms' = set ms \<Longrightarrow> drain_keys ms' = drain_keys ms"
  by (simp add: drain_keys_def)

lemma same_entry_facts:
  assumes "same_entry e e'"
  shows "pod_keys (fst e') (snd e') (podNamespaces (snd e')) = pod_keys (fst e) (snd e) (podNamespaces (snd e))"
    and "machine_wf (fst e') (snd e') \<longleftrightarrow> machine_wf (fst e) (snd e)"
proof -
  have ms: "mset (podNamespaces (snd e')) = mset (podNamespaces (snd e))"
    using assms by (simp add: same_entry_def)
  then have "set (podNamespaces (snd e')) = set (podNamespaces (snd e))"
    by (rule mset_eq_setD)
  moreover have "keys_distinct (podNamespaces (snd e')) \<longleftrightarrow> keys_distinct (podNamespaces (snd e))"
    by (rule mset_eq_imp_distinct_iff) (simp add: ms)
  ultimately show "pod_keys (fst e') (snd e') (podNamespaces (snd e')) =
        pod_keys (fst e) (snd e) (podNamespaces (snd e))"
    and "machine_wf (fst e') (snd e') \<longleftrightarrow> machine_wf (fst e) (snd e)"
    using assms by (simp_all add: same_entry_def pod_keys_def machine_wf_def)
qed

lemma visits_facts:
  assumes "visits ms order"
  shows "drain_keys order = drain_keys ms"
    and "(\<forall>(m, i) \<in> set order. machine_wf m i) \<longleftrightarrow> (\<forall>(m, i) \<in> set ms. machine_wf m i)"
proof -
  from assms obtain ms' where ms': "set ms' = set ms" and all: "list_all2 same_entry ms' order"
    unfolding visits_def using mset_eq_setD by blast
  from all have "drain_keys order = drain_keys ms' \<and>
      ((\<forall>(m, i) \<in> set order. machine_wf m i) \<longleftrightarrow> (\<forall>(m, i) \<in> set ms'. machine_wf m i))"
    by (induction rule: list_all2_induct) (simp_all add: case_prod_beta same_entry_facts)
  with ms' drain_keys_set [OF ms'] show "drain_keys order = drain_keys ms"
    and "(\<forall>(m, i) \<in> set order. machine_wf m i) \<longleftrightarrow> (\<forall>(m, i) \<in> set ms. machine_wf m i)"
    by simp_all
qed

text \<open>What the drain methods do to the aggregator.\<close>

lemma resetMachineMetrics_ok:
  assumes pv: "gauge_vec pv" and names: "\<forall>v. label_names pv (vec_of v a) = declared_labels v"
    and keys: "keys_distinct (providerMap a)" and wf: "drain_wf (drainingMachines a)"
  shows "\<exists>a'. resetMachineMetrics pv a = Ok a' \<and> agg_wf pv a' \<and> same_maps a a'
    \<and> exported pv a' =
        (exported pv a)(Pods_Preventing_Node_Drain := drain_series (drainingMachines a))"
proof -
  from wf have "\<forall>(m, i) \<in> set (drainingMachines a). machine_wf m i" by (simp add: drain_wf_def)
  from resetMachineMetrics_in_drains [OF pv names this] obtain a' where
    "resetMachineMetrics pv a = Ok a'" "drains pv a (drain_keys (drainingMachines a)) a'"
    by (auto simp: resetMachineMetrics_def)
  then show ?thesis
    using keys wf by (auto simp: drains_def agg_wf_def same_maps_def drain_series_one)
qed

definition expo_drain :: "(string, drainingMachine) go_map \<Rightarrow> exposition \<Rightarrow> exposition" where
  "expo_drain ms e = e(Pods_Preventing_Node_Drain := drain_series ms)"

declare expo_drain_def [expo_simps]

lemma exported_drainingMachines [simp]:
  "exported pv (a\<lparr>drainingMachines := ms\<rparr>) = exported pv a"
  "vec_of v (a\<lparr>drainingMachines := ms\<rparr>) = vec_of v a"
  by (auto simp: exported_def all_vec_id fun_eq_iff) (cases v; simp)+

lemma with_drainingMachines_ok:
  assumes pv: "gauge_vec pv" and wf: "agg_wf pv a" and ms: "drain_wf ms"
  shows "\<exists>a'. resetMachineMetrics pv (a\<lparr>drainingMachines := ms\<rparr>) = Ok a' \<and> agg_wf pv a'
    \<and> providerMap a' = providerMap a \<and> drainingMachines a' = ms
    \<and> exported pv a' = expo_drain ms (exported pv a)"
  using resetMachineMetrics_ok [OF pv, of "a\<lparr>drainingMachines := ms\<rparr>"] wf ms
  by (auto simp: agg_wf_def same_maps_def expo_drain_def)

lemma drain_wf_put:
  "drain_wf ms \<Longrightarrow> machine_wf m i \<Longrightarrow> drain_wf (map_put m i ms)"
  by (auto simp: drain_wf_def set_map_put)

lemma drain_wf_del: "drain_wf ms \<Longrightarrow> drain_wf (map_del m ms)"
  by (auto simp: drain_wf_def set_map_del)

lemma SetFailingDrainPods_ok:
  assumes "gauge_vec pv" "agg_wf pv a" "machine_wf m \<lparr>nodeName = node, podNamespaces = pods\<rparr>"
  shows "\<exists>a'. SetFailingDrainPodsForMachine pv m pods node a = Ok a' \<and> agg_wf pv a'
    \<and> providerMap a' = providerMap a
    \<and> drainingMachines a' = map_put m \<lparr>nodeName = node, podNamespaces = pods\<rparr> (drainingMachines a)
    \<and> exported pv a' = expo_drain (drainingMachines a') (exported pv a)"
  using with_drainingMachines_ok [OF assms(1,2) drain_wf_put [OF _ assms(3)], of "drainingMachines a"]
    assms(2) by (auto simp: SetFailingDrainPodsForMachine_def agg_wf_def)

lemma RemoveMachineMetrics_ok:
  assumes "gauge_vec pv" "agg_wf pv a"
  shows "\<exists>a'. RemoveMachineMetrics pv m a = Ok a' \<and> agg_wf pv a'
    \<and> providerMap a' = providerMap a \<and> drainingMachines a' = map_del m (drainingMachines a)
    \<and> exported pv a' = expo_drain (drainingMachines a') (exported pv a)"
  using with_drainingMachines_ok [OF assms drain_wf_del, of "drainingMachines a" m] assms(2)
  by (auto simp: RemoveMachineMetrics_def agg_wf_def)

text \<open>The series of one machine, and of the others, after an update of the map.\<close>

lemma drain_series_put:
  assumes "keys_distinct ms"
  shows "drain_series (map_put m i ms) [p, ns, n1, n2, m'] =
    (if m' = m then if (p, ns) \<in> set (podNamespaces i) \<and> n1 = nodeName i \<and> n2 = nodeName i
       then Some 1 else None
     else drain_series ms [p, ns, n1, n2, m'])"
  using assms by (auto simp: drain_series_def drain_keys_def set_map_put)

lemma drain_series_del:
  "drain_series (map_del m ms) [p, ns, n1, n2, m'] =
    (if m' = m then None else drain_series ms [p, ns, n1, n2, m'])"
  by (auto simp: drain_series_def drain_keys_def set_map_del)

subsection \<open>Construction\<close>

lemma new_collector_wf: "gauge_vec pv \<Longrightarrow> agg_wf pv (new_collector pv interval)"
  "gauge_vec pv \<Longrightarrow> exported pv (new_collector pv interval) = (\<lambda>_. Map.empty)"
proof -
  assume pv: "gauge_vec pv"
  have new: "label_names pv (vec_of v (new_collector pv interval)) = declared_labels v
      \<and> series pv (vec_of v (new_collector pv interval)) = Map.empty" for v
    by (cases v) (simp_all add: new_collector_def gauge_vec.new_names [OF pv] gauge_vec.new_series [OF pv])
  then show "exported pv (new_collector pv interval) = (\<lambda>_. Map.empty)"
    by (auto simp: exported_def fun_eq_iff)
  then show "agg_wf pv (new_collector pv interval)"
    using new by (auto simp: agg_wf_def drain_wf_def drain_series_def drain_keys_def new_collector_def
        fun_eq_iff)
qed

lemma NewMetricsAggregator_ok:
  assumes pv: "gauge_vec pv" and u: "ValidString u"
  shows "\<exists>a. NewMetricsAggregator pv interval u = Ok a \<and> agg_wf pv a \<and> providerMap a = []
    \<and> drainingMachines a = [] \<and> exported pv a = expo_set Limited_Support_Enabled [u] 0
        (expo_set Cluster_Admin_Enabled [u] 0 (\<lambda>_. Map.empty))"
proof -
  have "reports pv (NewMetricsAggregator pv interval u)
      (expo_set Limited_Support_Enabled [u] 0 \<circ> expo_set Cluster_Admin_Enabled [u] 0) (new_collector pv interval)"
    unfolding NewMetricsAggregator_def
    using SetClusterAdmin_reports [OF pv u new_collector_wf(1) [OF pv], of False]
      SetLimitedSupport_reports [OF pv u, of _ False]
    by (intro reports_bind) simp_all
  then show ?thesis
    using new_collector_wf(2) [OF pv, of interval]
    by (auto simp: same_maps_def new_collector_def elim!: reportsE)
qed

end
