(* ===== verification/Aggregator_Threads.thy ===== *)
theory Aggregator_Threads
  imports Threads Aggregator_Facts
begin

section \<open>The accesses of the aggregator's methods\<close>

text \<open>
  The methods of the aggregator once more, as the sequences of accesses that other goroutines and
  a scrape can come between: each \<open>Reset\<close>, \<open>With\<close> and \<open>Set\<close> of a vector, each read or write of
  a map. Only \<open>SetOAuthIDP\<close>, \<open>DeleteOAuthIDP\<close> and \<open>aggregate\<close> take the mutex. The loops over
  the two maps read the map when they start; nobody else can change it until they end, as
  the accesses of a method stay within one region of the struct.
\<close>

datatype agg_call =
    aggregate_m
  | SetOAuthIDP_m string string "IdentityProvider list"
  | DeleteOAuthIDP_m string string
  | SetClusterAdmin_m string bool
  | SetLimitedSupport_m string bool
  | SetClusterProxy_m string string string string int
  | SetClusterID_m string
  | ResetClusterProxyCAExpiry_m
  | SetClusterProxyCAExpiry_m string string int
  | ResetClusterProxyCAValid_m
  | SetClusterProxyCAValid_m string bool
  | SetCPMSEnabled_m string string bool
  | SetPullSecretValid_m string bool string
  | SetFailingDrainPodsForMachine_m string "(string, string) go_map" string
  | RemoveMachineMetrics_m string

text \<open>The methods as single steps.\<close>

fun method_step :: "'g gauge_api \<Rightarrow> idp_types \<Rightarrow> agg_call
    \<Rightarrow> 'g AdoptionMetricsAggregator \<Rightarrow> 'g AdoptionMetricsAggregator exec" where
  "method_step pv c aggregate_m a = aggregate pv c a"
| "method_step pv c (SetOAuthIDP_m name ns ps) a = Ok (SetOAuthIDP name ns ps a)"
| "method_step pv c (DeleteOAuthIDP_m name ns) a = Ok (DeleteOAuthIDP name ns a)"
| "method_step pv c (SetClusterAdmin_m u b) a = SetClusterAdmin pv u b a"
| "method_step pv c (SetLimitedSupport_m u b) a = SetLimitedSupport pv u b a"
| "method_step pv c (SetClusterProxy_m u http https ca n) a = SetClusterProxy pv u http https ca n a"
| "method_step pv c (SetClusterID_m u) a = SetClusterID pv u a"
| "method_step pv c ResetClusterProxyCAExpiry_m a = Ok (ResetClusterProxyCAExpiry pv a)"
| "method_step pv c (SetClusterProxyCAExpiry_m u s n) a = SetClusterProxyCAExpiry pv u s n a"
| "method_step pv c ResetClusterProxyCAValid_m a = Ok (ResetClusterProxyCAValid pv a)"
| "method_step pv c (SetClusterProxyCAValid_m u b) a = SetClusterProxyCAValid pv u b a"
| "method_step pv c (SetCPMSEnabled_m u t b) a = SetCPMSEnabled pv u t b a"
| "method_step pv c (SetPullSecretValid_m u b r) a = SetPullSecretValid pv u b r a"
| "method_step pv c (SetFailingDrainPodsForMachine_m m pods node) a =
     SetFailingDrainPodsForMachine pv m pods node a"
| "method_step pv c (RemoveMachineMetrics_m m) a = RemoveMachineMetrics pv m a"

subsection \<open>The accesses\<close>

type_synonym 'g vec_with = "'g \<Rightarrow> labels \<Rightarrow> 'g option"

text \<open>\<open>With\<close> on the vector of a field, then \<open>Set\<close> on the gauge it returns.\<close>

definition with_access :: "'g vec_with \<Rightarrow> ('s \<Rightarrow> 'g) \<Rightarrow> ('g \<Rightarrow> 's \<Rightarrow> 's) \<Rightarrow> labels \<Rightarrow> 's \<Rightarrow> 's exec" where
  "with_access wth get put ls a =
     (case wth (get a) ls of None \<Rightarrow> Panicked a | Some g \<Rightarrow> Ok (put g a))"

definition set_access :: "'g gauge_api \<Rightarrow> 'g vec_with \<Rightarrow> ('s \<Rightarrow> 'g) \<Rightarrow> ('g \<Rightarrow> 's \<Rightarrow> 's) \<Rightarrow> labels \<Rightarrow> int
    \<Rightarrow> 's code \<Rightarrow> 's code" where
  "set_access pv wth get put ls v k =
     Do (with_access wth get put ls) (\<lambda>_. Do (with_set pv get put ls v) (\<lambda>_. k))"

definition reset_access :: "'g gauge_api \<Rightarrow> ('s \<Rightarrow> 'g) \<Rightarrow> ('g \<Rightarrow> 's \<Rightarrow> 's) \<Rightarrow> 's code \<Rightarrow> 's code" where
  "reset_access pv get put k = Do (\<lambda>a. Ok (put (VecReset pv (get a)) a)) (\<lambda>_. k)"

definition write_access :: "('s \<Rightarrow> 's) \<Rightarrow> 's code \<Rightarrow> 's code" where
  "write_access f k = Do (\<lambda>a. Ok (f a)) (\<lambda>_. k)"

definition read_access :: "('s \<Rightarrow> 's code) \<Rightarrow> 's code" where
  "read_access k = Do Ok k"

primrec set_types :: "'g gauge_api \<Rightarrow> 'g vec_with \<Rightarrow> (string, int) go_map \<Rightarrow> string list
    \<Rightarrow> 'g AdoptionMetricsAggregator code" where
  "set_types pv wth providers [] = Stop"
| "set_types pv wth providers (t # ts) =
     set_access pv wth identityProviders (\<lambda>g a. a\<lparr>identityProviders := g\<rparr>) [(providerLabel, t)]
       (case map_of providers t of Some n \<Rightarrow> float64 n | None \<Rightarrow> 0) (set_types pv wth providers ts)"

primrec set_pods :: "'g gauge_api \<Rightarrow> 'g vec_with \<Rightarrow> string \<Rightarrow> drainingMachine \<Rightarrow> (string \<times> string) list
    \<Rightarrow> 'g AdoptionMetricsAggregator code \<Rightarrow> 'g AdoptionMetricsAggregator code" where
  "set_pods pv wth m i [] k = k"
| "set_pods pv wth m i (pod # pods) k =
     set_access pv wth podsPreventingNodeDrain (\<lambda>g a. a\<lparr>podsPreventingNodeDrain := g\<rparr>)
       [(''pod_name'', fst pod), (''pod_namespace'', snd pod), (''instance'', nodeName i),
        (''node'', nodeName i), (''machine'', m)] 1 (set_pods pv wth m i pods k)"

primrec set_machines :: "'g gauge_api \<Rightarrow> 'g vec_with \<Rightarrow> (string \<times> drainingMachine) list
    \<Rightarrow> 'g AdoptionMetricsAggregator code" where
  "set_machines pv wth [] = Stop"
| "set_machines pv wth (e # ms) =
     set_pods pv wth (fst e) (snd e) (podNamespaces (snd e)) (set_machines pv wth ms)"

definition refresh_code :: "'g gauge_api \<Rightarrow> 'g vec_with \<Rightarrow> 'g AdoptionMetricsAggregator code" where
  "refresh_code pv wth =
     reset_access pv podsPreventingNodeDrain (\<lambda>g a. a\<lparr>podsPreventingNodeDrain := g\<rparr>)
       (read_access (\<lambda>a. set_machines pv wth (drainingMachines a)))"

fun call_code :: "'g gauge_api \<Rightarrow> 'g vec_with \<Rightarrow> idp_types \<Rightarrow> agg_call
    \<Rightarrow> 'g AdoptionMetricsAggregator code" where
  "call_code pv wth c aggregate_m =
     read_access (\<lambda>a. set_types pv wth (count_providers (providerMap a)) (knownIdentityProviderTypes c))"
| "call_code pv wth c (SetOAuthIDP_m name ns ps) = write_access (SetOAuthIDP name ns ps) Stop"
| "call_code pv wth c (DeleteOAuthIDP_m name ns) = write_access (DeleteOAuthIDP name ns) Stop"
| "call_code pv wth c (SetClusterAdmin_m u enabled) =
     (if enabled then set_access pv wth clusterAdmin (\<lambda>g a. a\<lparr>clusterAdmin := g\<rparr>) [(clusterIDLabel, u)] 1 Stop
      else set_access pv wth clusterAdmin (\<lambda>g a. a\<lparr>clusterAdmin := g\<rparr>) [(clusterIDLabel, u)] 0 Stop)"
| "call_code pv wth c (SetLimitedSupport_m u enabled) =
     (if enabled then set_access pv wth limitedSupport (\<lambda>g a. a\<lparr>limitedSupport := g\<rparr>) [(clusterIDLabel, u)] 1 Stop
      else set_access pv wth limitedSupport (\<lambda>g a. a\<lparr>limitedSupport := g\<rparr>) [(clusterIDLabel, u)] 0 Stop)"
| "call_code pv wth c (SetClusterProxy_m u http https ca n) =
     set_access pv wth clusterProxy (\<lambda>g a. a\<lparr>clusterProxy := g\<rparr>)
       [(clusterIDLabel, u), (proxyHTTPLabel, http), (proxyHTTPSLabel, https), (proxyCALabel, ca)]
       (float64 n) Stop"
| "call_code pv wth c (SetClusterID_m u) =
     set_access pv wth clusterID (\<lambda>g a. a\<lparr>clusterID := g\<rparr>) [(clusterIDLabel, u)] 1 Stop"
| "call_code pv wth c ResetClusterProxyCAExpiry_m =
     reset_access pv clusterProxyCAExpiry (\<lambda>g a. a\<lparr>clusterProxyCAExpiry := g\<rparr>) Stop"
| "call_code pv wth c (SetClusterProxyCAExpiry_m u subject n) =
     set_access pv wth clusterProxyCAExpiry (\<lambda>g a. a\<lparr>clusterProxyCAExpiry := g\<rparr>)
       [(clusterIDLabel, u), (proxyCASubjectLabel, subject)] (float64 n) Stop"
| "call_code pv wth c ResetClusterProxyCAValid_m =
     reset_access pv clusterProxyCAValid (\<lambda>g a. a\<lparr>clusterProxyCAValid := g\<rparr>) Stop"
| "call_code pv wth c (SetClusterProxyCAValid_m u valid) =
     (if valid then set_access pv wth clusterProxyCAValid (\<lambda>g a. a\<lparr>clusterProxyCAValid := g\<rparr>)
        [(clusterIDLabel, u)] 1 Stop
      else set_access pv wth clusterProxyCAValid (\<lambda>g a. a\<lparr>clusterProxyCAValid := g\<rparr>)
        [(clusterIDLabel, u)] 0 Stop)"
| "call_code pv wth c (SetCPMSEnabled_m u t enabled) =
     reset_access pv cpms (\<lambda>g a. a\<lparr>cpms := g\<rparr>)
       (if enabled then set_access pv wth cpms (\<lambda>g a. a\<lparr>cpms := g\<rparr>)
          [(clusterIDLabel, u), (cpmsInstanceTypeLabel, t)] 1 Stop
        else set_access pv wth cpms (\<lambda>g a. a\<lparr>cpms := g\<rparr>)
          [(clusterIDLabel, u), (cpmsInstanceTypeLabel, t)] 0 Stop)"
| "call_code pv wth c (SetPullSecretValid_m u valid reason) =
     reset_access pv pullSecretValid (\<lambda>g a. a\<lparr>pullSecretValid := g\<rparr>)
       (if valid then set_access pv wth pullSecretValid (\<lambda>g a. a\<lparr>pullSecretValid := g\<rparr>)
          [(clusterIDLabel, u), (pullSecretReasonLabel, reason)] 1 Stop
        else set_access pv wth pullSecretValid (\<lambda>g a. a\<lparr>pullSecretValid := g\<rparr>)
          [(clusterIDLabel, u), (pullSecretReasonLabel, reason)] 0 Stop)"
| "call_code pv wth c (SetFailingDrainPodsForMachine_m m pods node) =
     write_access (\<lambda>a. a\<lparr>drainingMachines :=
       map_put m \<lparr>nodeName = node, podNamespaces = pods\<rparr> (drainingMachines a)\<rparr>) (refresh_code pv wth)"
| "call_code pv wth c (RemoveMachineMetrics_m m) =
     write_access (\<lambda>a. a\<lparr>drainingMachines := map_del m (drainingMachines a)\<rparr>) (refresh_code pv wth)"

text \<open>The methods that hold the mutex from their first access to their last.\<close>

fun takes_mutex :: "agg_call \<Rightarrow> bool" where
  "takes_mutex aggregate_m \<longleftrightarrow> True"
| "takes_mutex (SetOAuthIDP_m name ns ps) \<longleftrightarrow> True"
| "takes_mutex (DeleteOAuthIDP_m name ns) \<longleftrightarrow> True"
| "takes_mutex _ \<longleftrightarrow> False"

subsection \<open>The accesses of a method make up the method\<close>

context vec_field
begin

lemma run_set_access:
  assumes wth: "gauge_with pv wth"
  shows "run_code (set_access pv wth get put ls x k) a = exec_bind (with_set pv get put ls x a) (run_code k)"
proof (cases "labels_ok (label_names pv (get a)) ls")
  case True
  from gauge_with.created [OF wth True] obtain g where g: "wth (get a) ls = Some g" by blast
  have "get (put g a) = g" by (simp add: get_vec put_vec)
  then have "with_set pv get put ls x (put g a) = (case WithSet pv (get a) ls x of
      None \<Rightarrow> Panicked (put g a) | Some g' \<Rightarrow> Ok (put g' a))"
    using gauge_with.created_set [OF wth g] by (simp add: with_set_def put_put split: option.split)
  moreover obtain g' where "WithSet pv (get a) ls x = Some g'"
    using gauge_vec.with_returns [OF _ True] wth by (auto simp: gauge_with_def)
  ultimately show ?thesis
    by (simp add: set_access_def with_access_def g with_set_def)
next
  case False
  then have "WithSet pv (get a) ls x = None"
    using gauge_vec.with_panics wth by (auto simp: gauge_with_def)
  then show ?thesis
    using gauge_with.not_created [OF wth False]
    by (simp add: set_access_def with_access_def with_set_def)
qed

end

lemmas run_set_accesses = vf_idp.run_set_access vf_admin.run_set_access vf_support.run_set_access
  vf_proxy.run_set_access vf_expiry.run_set_access vf_valid.run_set_access vf_id.run_set_access
  vf_drain.run_set_access vf_cpms.run_set_access vf_pull.run_set_access

lemma run_accesses [simp]:
  "run_code (reset_access pv get put k) a = run_code k (put (VecReset pv (get a)) a)"
  "run_code (write_access f k) a = run_code k (f a)"
  "run_code (read_access h) a = run_code (h a) a"
  by (simp_all add: reset_access_def write_access_def read_access_def)

lemma run_Finished [simp]: "run_code Stop = Ok"
  by (simp add: fun_eq_iff)

lemma run_set_types:
  assumes "gauge_with pv wth"
  shows "run_code (set_types pv wth providers ts) a = range_exec (\<lambda>t a.
      case map_of providers t of
        Some n \<Rightarrow> with_set pv identityProviders (\<lambda>g a. a\<lparr>identityProviders := g\<rparr>) [(providerLabel, t)] (float64 n) a
      | None \<Rightarrow> with_set pv identityProviders (\<lambda>g a. a\<lparr>identityProviders := g\<rparr>) [(providerLabel, t)] 0 a) ts a"
proof (induction ts arbitrary: a)
  case (Cons t ts)
  then have "run_code (set_types pv wth providers ts) = range_exec (\<lambda>t a.
      case map_of providers t of
        Some n \<Rightarrow> with_set pv identityProviders (\<lambda>g a. a\<lparr>identityProviders := g\<rparr>) [(providerLabel, t)] (float64 n) a
      | None \<Rightarrow> with_set pv identityProviders (\<lambda>g a. a\<lparr>identityProviders := g\<rparr>) [(providerLabel, t)] 0 a) ts"
    by blast
  then show ?case by (simp add: run_set_accesses [OF assms] split: option.split)
qed simp

lemma run_set_pods:
  assumes "gauge_with pv wth"
  shows "run_code (set_pods pv wth m i pods k) = (\<lambda>a. exec_bind (range_exec (set_pod_series pv m i) pods a) (run_code k))"
proof (induction pods)
  case (Cons pod pods)
  have "set_pod_series pv m i pod a = with_set pv podsPreventingNodeDrain
      (\<lambda>g a. a\<lparr>podsPreventingNodeDrain := g\<rparr>) [(''pod_name'', fst pod), (''pod_namespace'', snd pod),
       (''instance'', nodeName i), (''node'', nodeName i), (''machine'', m)] 1 a" for a
    by (cases pod) (simp add: set_pod_series_def)
  with Cons show ?case
    by (intro ext) (simp add: run_set_accesses [OF assms] exec_bind_assoc)
qed (simp add: fun_eq_iff)

lemma run_set_machines:
  assumes "gauge_with pv wth"
  shows "run_code (set_machines pv wth ms) = range_exec (\<lambda>(m, i).
    range_exec (set_pod_series pv m i) (podNamespaces i)) ms"
proof (induction ms)
  case (Cons e ms)
  then show ?case by (intro ext) (cases e, simp add: run_set_pods [OF assms])
qed (simp add: fun_eq_iff)

lemma run_refresh:
  assumes "gauge_with pv wth"
  shows "run_code (refresh_code pv wth) a = resetMachineMetrics pv a"
  by (simp add: refresh_code_def run_set_machines [OF assms] resetMachineMetrics_def
      resetMachineMetrics_in_def)

lemma run_call_code:
  assumes "gauge_with pv wth"
  shows "run_code (call_code pv wth c call) a = method_step pv c call a"
  by (cases call) (simp_all add: run_set_accesses [OF assms] run_set_types [OF assms] run_refresh [OF assms]
      aggregate_def SetClusterAdmin_def SetLimitedSupport_def SetClusterProxy_def SetClusterID_def
      ResetClusterProxyCAExpiry_def SetClusterProxyCAExpiry_def ResetClusterProxyCAValid_def
      SetClusterProxyCAValid_def SetCPMSEnabled_def SetPullSecretValid_def
      SetFailingDrainPodsForMachine_def RemoveMachineMetrics_def Let_def)

subsection \<open>The regions of the struct\<close>

text \<open>
  The fields fall into regions with one user each, but for the map of identity providers and the
  vector computed from it, which the OAuth controller and the aggregation loop share.
\<close>

datatype region =
    Providers_R | Admin_R | Support_R | Proxy_R | CA_R | Drain_R | CPMS_R | Pull_Secret_R | Interval_R

fun agree :: "region \<Rightarrow> 'g AdoptionMetricsAggregator \<Rightarrow> 'g AdoptionMetricsAggregator \<Rightarrow> bool" where
  "agree Providers_R a b \<longleftrightarrow> providerMap a = providerMap b \<and> identityProviders a = identityProviders b"
| "agree Admin_R a b \<longleftrightarrow> clusterAdmin a = clusterAdmin b"
| "agree Support_R a b \<longleftrightarrow> limitedSupport a = limitedSupport b"
| "agree Proxy_R a b \<longleftrightarrow> clusterProxy a = clusterProxy b \<and> clusterID a = clusterID b"
| "agree CA_R a b \<longleftrightarrow> clusterProxyCAExpiry a = clusterProxyCAExpiry b
     \<and> clusterProxyCAValid a = clusterProxyCAValid b"
| "agree Drain_R a b \<longleftrightarrow> drainingMachines a = drainingMachines b
     \<and> podsPreventingNodeDrain a = podsPreventingNodeDrain b"
| "agree CPMS_R a b \<longleftrightarrow> cpms a = cpms b"
| "agree Pull_Secret_R a b \<longleftrightarrow> pullSecretValid a = pullSecretValid b"
| "agree Interval_R a b \<longleftrightarrow> aggregationInterval a = aggregationInterval b"

fun call_region :: "agg_call \<Rightarrow> region" where
  "call_region aggregate_m = Providers_R"
| "call_region (SetOAuthIDP_m _ _ _) = Providers_R"
| "call_region (DeleteOAuthIDP_m _ _) = Providers_R"
| "call_region (SetClusterAdmin_m _ _) = Admin_R"
| "call_region (SetLimitedSupport_m _ _) = Support_R"
| "call_region (SetClusterProxy_m _ _ _ _ _) = Proxy_R"
| "call_region (SetClusterID_m _) = Proxy_R"
| "call_region ResetClusterProxyCAExpiry_m = CA_R"
| "call_region (SetClusterProxyCAExpiry_m _ _ _) = CA_R"
| "call_region ResetClusterProxyCAValid_m = CA_R"
| "call_region (SetClusterProxyCAValid_m _ _) = CA_R"
| "call_region (SetCPMSEnabled_m _ _ _) = CPMS_R"
| "call_region (SetPullSecretValid_m _ _ _) = Pull_Secret_R"
| "call_region (SetFailingDrainPodsForMachine_m _ _ _) = Drain_R"
| "call_region (RemoveMachineMetrics_m _) = Drain_R"

fun vec_region :: "vec_id \<Rightarrow> region" where
  "vec_region Identity_Provider = Providers_R"
| "vec_region Cluster_Admin_Enabled = Admin_R"
| "vec_region Limited_Support_Enabled = Support_R"
| "vec_region Cluster_Proxy = Proxy_R"
| "vec_region Cluster_Proxy_CA_Expiry = CA_R"
| "vec_region Cluster_Proxy_CA_Valid = CA_R"
| "vec_region Cluster_ID = Proxy_R"
| "vec_region Pods_Preventing_Node_Drain = Drain_R"
| "vec_region CPMS_Enabled = CPMS_R"
| "vec_region Pull_Secret_Valid = Pull_Secret_R"

lemma agree_vec: "agree (vec_region v) a b \<Longrightarrow> vec_of v a = vec_of v b"
  by (cases v) auto

lemma agree_exported: "agree (vec_region v) a b \<Longrightarrow> exported pv a v = exported pv b v"
  by (simp add: exported_def agree_vec)

lemma agree_equivalence:
  "agree r a a" "agree r a b \<Longrightarrow> agree r b a" "agree r a b \<Longrightarrow> agree r b d \<Longrightarrow> agree r a d"
  by (cases r; simp)+

lemma agree_everywhere:
  assumes "\<And>r. agree r a b" shows "a = b"
  using assms [of Providers_R] assms [of Admin_R] assms [of Support_R] assms [of Proxy_R]
    assms [of CA_R] assms [of Drain_R] assms [of CPMS_R] assms [of Pull_Secret_R] assms [of Interval_R]
  by simp

lemma all_region:
  "(\<forall>r. P r) \<longleftrightarrow> P Providers_R \<and> P Admin_R \<and> P Support_R \<and> P Proxy_R \<and> P CA_R \<and> P Drain_R
     \<and> P CPMS_R \<and> P Pull_Secret_R \<and> P Interval_R"
  by (metis region.exhaust)

text \<open>The contract of a field that belongs to a region.\<close>

locale region_field =
  fixes r :: region
    and get :: "'g AdoptionMetricsAggregator \<Rightarrow> 'x"
    and put :: "'x \<Rightarrow> 'g AdoptionMetricsAggregator \<Rightarrow> 'g AdoptionMetricsAggregator"
  assumes get_agree: "agree r a b \<Longrightarrow> get a = get b"
    and put_agree: "agree r a b \<Longrightarrow> agree r (put g a) (put g b)"
    and put_frames: "\<forall>r'. r' \<noteq> r \<longrightarrow> agree r' a (put g a)"
begin

lemma put_frame: "r' \<noteq> r \<Longrightarrow> agree r' a (put g a)"
  using put_frames by blast

lemma within_do:
  assumes "\<And>a. f a = Panicked a \<or> (\<exists>g. f a = Ok (put g a))"
    and "\<And>a b. agree r a b \<Longrightarrow> rel_exec (agree r) (f a) (f b)"
    and "within agree r k"
  shows "within agree r (Do f (\<lambda>_. k))"
proof -
  have "agree r' a (state_of (f a))" if "r' \<noteq> r" for r' a
    using assms(1) [of a] put_frame [OF that] by (auto simp: agree_equivalence(1))
  with assms show ?thesis by simp
qed

lemma within_write: "within agree r k \<Longrightarrow> within agree r (write_access (\<lambda>a. put (h (get a)) a) k)"
  unfolding write_access_def by (rule within_do) (auto simp: get_agree intro: put_agree)

end

lemma within_read:
  assumes "\<And>a b. agree r a b \<Longrightarrow> h a = h b" and "\<And>a. within agree r (h a)"
  shows "within agree r (read_access h)"
  using assms by (simp add: read_access_def agree_equivalence(1))

locale region_vec = region_field r get put
  for r and get :: "'g AdoptionMetricsAggregator \<Rightarrow> 'g" and put
begin

lemma within_reset: "within agree r k \<Longrightarrow> within agree r (reset_access pv get put k)"
  unfolding reset_access_def by (rule within_do) (auto simp: get_agree intro: put_agree)

lemma within_set:
  assumes "within agree r k" shows "within agree r (set_access pv wth get put ls x k)"
  unfolding set_access_def
  by (intro within_do assms)
    (auto simp: with_access_def with_set_def get_agree put_agree split: option.split)

end

interpretation rv_idp: region_vec Providers_R identityProviders "\<lambda>g a. a\<lparr>identityProviders := g\<rparr>"
  by unfold_locales (auto simp: all_region)

interpretation rv_admin: region_vec Admin_R clusterAdmin "\<lambda>g a. a\<lparr>clusterAdmin := g\<rparr>"
  by unfold_locales (auto simp: all_region)

interpretation rv_support: region_vec Support_R limitedSupport "\<lambda>g a. a\<lparr>limitedSupport := g\<rparr>"
  by unfold_locales (auto simp: all_region)

interpretation rv_proxy: region_vec Proxy_R clusterProxy "\<lambda>g a. a\<lparr>clusterProxy := g\<rparr>"
  by unfold_locales (auto simp: all_region)

interpretation rv_id: region_vec Proxy_R clusterID "\<lambda>g a. a\<lparr>clusterID := g\<rparr>"
  by unfold_locales (auto simp: all_region)

interpretation rv_expiry: region_vec CA_R clusterProxyCAExpiry "\<lambda>g a. a\<lparr>clusterProxyCAExpiry := g\<rparr>"
  by unfold_locales (auto simp: all_region)

interpretation rv_valid: region_vec CA_R clusterProxyCAValid "\<lambda>g a. a\<lparr>clusterProxyCAValid := g\<rparr>"
  by unfold_locales (auto simp: all_region)

interpretation rv_drain: region_vec Drain_R podsPreventingNodeDrain "\<lambda>g a. a\<lparr>podsPreventingNodeDrain := g\<rparr>"
  by unfold_locales (auto simp: all_region)

interpretation rv_cpms: region_vec CPMS_R cpms "\<lambda>g a. a\<lparr>cpms := g\<rparr>"
  by unfold_locales (auto simp: all_region)

interpretation rv_pull: region_vec Pull_Secret_R pullSecretValid "\<lambda>g a. a\<lparr>pullSecretValid := g\<rparr>"
  by unfold_locales (auto simp: all_region)

interpretation rf_providers: region_field Providers_R providerMap "\<lambda>g a. a\<lparr>providerMap := g\<rparr>"
  by unfold_locales (auto simp: all_region)

interpretation rf_machines: region_field Drain_R drainingMachines "\<lambda>g a. a\<lparr>drainingMachines := g\<rparr>"
  by unfold_locales (auto simp: all_region)

lemmas within_accesses =
  rv_idp.within_set rv_admin.within_set rv_support.within_set rv_proxy.within_set rv_id.within_set
  rv_expiry.within_set rv_valid.within_set rv_drain.within_set rv_cpms.within_set rv_pull.within_set
  rv_expiry.within_reset rv_valid.within_reset rv_drain.within_reset rv_cpms.within_reset
  rv_pull.within_reset

lemma within_set_types: "within agree Providers_R (set_types pv wth providers ts)"
  by (induction ts) (simp_all add: within_accesses del: within.simps(2))

lemma within_set_pods: "within agree Drain_R k \<Longrightarrow> within agree Drain_R (set_pods pv wth m i pods k)"
  by (induction pods) (simp_all add: within_accesses del: within.simps(2))

lemma within_set_machines: "within agree Drain_R (set_machines pv wth ms)"
  by (induction ms) (simp_all add: within_set_pods)

lemma within_refresh: "within agree Drain_R (refresh_code pv wth)"
  unfolding refresh_code_def by (intro within_accesses within_read) (simp_all add: within_set_machines)

text \<open>No method reads or writes outside its region.\<close>

lemma call_within: "within agree (call_region call) (call_code pv wth c call)"
proof (cases call)
  case aggregate_m
  then show ?thesis by (auto intro!: within_read within_set_types)
next
  case (SetOAuthIDP_m name ns ps)
  then show ?thesis
    using rf_providers.within_write [of Stop "map_put \<lparr>pk_name = name, pk_namespace = ns\<rparr> (map idp_Type ps)"]
    by (simp add: SetOAuthIDP_def [abs_def])
next
  case (DeleteOAuthIDP_m name ns)
  then show ?thesis
    using rf_providers.within_write [of Stop "map_del \<lparr>pk_name = name, pk_namespace = ns\<rparr>"]
    by (simp add: DeleteOAuthIDP_def [abs_def])
next
  case (SetFailingDrainPodsForMachine_m m pods node)
  then show ?thesis
    using rf_machines.within_write [OF within_refresh, of "map_put m \<lparr>nodeName = node, podNamespaces = pods\<rparr>"]
    by simp
next
  case (RemoveMachineMetrics_m m)
  then show ?thesis using rf_machines.within_write [OF within_refresh, of "map_del m"] by simp
qed (simp_all add: within_accesses)

end
