(* ===== verification/Go_Flag.thy ===== *)
theory Go_Flag
  imports Go_Prelude
begin

section \<open>The package flag\<close>

text \<open>
  \<open>flag.Parse\<close> on the command line, as \<open>main\<close> uses it. An argument that starts with one or two
  dashes is a flag; its value follows after \<open>=\<close> or, for a string flag, as the next
  argument; the first argument that is no flag, or \<open>--\<close>, ends the flags. The parse keeps the text of
  the last value given to each flag.
\<close>

datatype flag_kind = String_flag | Bool_flag

datatype flag_token = No_flag | Terminator | Bad_syntax | Flag string "string option"

definition flag_token :: "string \<Rightarrow> flag_token" where
  "flag_token s =
     (if length s < 2 \<or> hd s \<noteq> CHR ''-'' then No_flag
      else if s = ''--'' then Terminator
      else
        (let name = (if s ! 1 = CHR ''-'' then drop 2 s else drop 1 s) in
         if name = '''' \<or> hd name = CHR ''-'' \<or> hd name = CHR ''='' then Bad_syntax
         else if CHR ''='' \<in> set name
         then Flag (takeWhile (\<lambda>c. c \<noteq> CHR ''='') name) (Some (tl (dropWhile (\<lambda>c. c \<noteq> CHR ''='') name)))
         else Flag name None))"

text \<open>\<open>strconv.ParseBool\<close>\<close>

definition ParseBool :: "string \<Rightarrow> bool option" where
  "ParseBool s =
     (if s \<in> {''1'', ''t'', ''T'', ''TRUE'', ''true'', ''True''} then Some True
      else if s \<in> {''0'', ''f'', ''F'', ''FALSE'', ''false'', ''False''} then Some False
      else None)"

text \<open>A flag that is wrong ends the process, as does one that asks for help.\<close>

datatype flag_result = Parsed "(string, string) go_map" "string list" | Flag_error | Flag_help

fun parse_flags :: "(string, flag_kind) go_map \<Rightarrow> string list \<Rightarrow> (string, string) go_map \<Rightarrow> flag_result" where
  "parse_flags formal [] vals = Parsed vals []"
| "parse_flags formal (s # args) vals =
     (case flag_token s of
       No_flag \<Rightarrow> Parsed vals (s # args)
     | Terminator \<Rightarrow> Parsed vals args
     | Bad_syntax \<Rightarrow> Flag_error
     | Flag name value \<Rightarrow>
         (case map_of formal name of
           None \<Rightarrow> if name = ''help'' \<or> name = ''h'' then Flag_help else Flag_error
         | Some Bool_flag \<Rightarrow>
             (case value of
               None \<Rightarrow> parse_flags formal args (map_put name ''true'' vals)
             | Some v \<Rightarrow>
                 if ParseBool v = None then Flag_error else parse_flags formal args (map_put name v vals))
         | Some String_flag \<Rightarrow>
             (case value of
               Some v \<Rightarrow> parse_flags formal args (map_put name v vals)
             | None \<Rightarrow>
                 (case args of
                   [] \<Rightarrow> Flag_error
                 | v # args \<Rightarrow> parse_flags formal args (map_put name v vals)))))"

text \<open>The value of a flag: what was given last, or the default.\<close>

definition flag_string :: "(string, string) go_map \<Rightarrow> string \<Rightarrow> string \<Rightarrow> string" where
  "flag_string vals name dflt = (case map_of vals name of None \<Rightarrow> dflt | Some v \<Rightarrow> v)"

definition flag_bool :: "(string, string) go_map \<Rightarrow> string \<Rightarrow> bool \<Rightarrow> bool" where
  "flag_bool vals name dflt =
     (case Option.bind (map_of vals name) ParseBool of None \<Rightarrow> dflt | Some b \<Rightarrow> b)"

subsection \<open>Writing flags down\<close>

text \<open>A flag in the form \<open>--name=value\<close> is read back whatever the value is.\<close>

definition write_flag :: "string \<times> string \<Rightarrow> string" where
  "write_flag f = ''--'' @ fst f @ ''='' @ snd f"

definition good_flag :: "(string, flag_kind) go_map \<Rightarrow> string \<times> string \<Rightarrow> bool" where
  "good_flag formal f \<longleftrightarrow> fst f \<noteq> '''' \<and> hd (fst f) \<noteq> CHR ''-'' \<and> CHR ''='' \<notin> set (fst f)
     \<and> (case map_of formal (fst f) of None \<Rightarrow> False | Some String_flag \<Rightarrow> True
        | Some Bool_flag \<Rightarrow> ParseBool (snd f) \<noteq> None)"

lemma flag_token_write:
  assumes "name \<noteq> ''''" "hd name \<noteq> CHR ''-''" "CHR ''='' \<notin> set name"
  shows "flag_token (write_flag (name, v)) = Flag name (Some v)"
proof -
  have "takeWhile (\<lambda>c. c \<noteq> CHR ''='') (name @ ''='' @ v) = name"
    "dropWhile (\<lambda>c. c \<noteq> CHR ''='') (name @ ''='' @ v) = ''='' @ v"
    using assms(3) by (induction name) auto
  moreover have "hd name \<noteq> CHR ''=''" using assms by (cases name) auto
  ultimately show ?thesis
    using assms by (simp add: flag_token_def write_flag_def)
qed

lemma parse_written:
  assumes "\<forall>f \<in> set fs. good_flag formal f"
  shows "parse_flags formal (map write_flag fs @ rest) vals =
    parse_flags formal rest (fold (\<lambda>f. map_put (fst f) (snd f)) fs vals)"
  using assms
proof (induction fs arbitrary: vals)
  case (Cons f fs)
  then have "flag_token (write_flag f) = Flag (fst f) (Some (snd f))"
    using flag_token_write [of "fst f" "snd f"] by (simp add: good_flag_def)
  with Cons show ?case
    by (auto simp: good_flag_def split: option.splits flag_kind.splits)
qed simp

lemma map_of_fold_put: "map_of (fold (\<lambda>f. map_put (fst f) (snd f)) fs []) = map_of (rev fs)"
proof -
  have "map_of (fold (\<lambda>f. map_put (fst f) (snd f)) fs vals) = map_of vals ++ map_of (rev fs)" for vals
    by (induction fs arbitrary: vals) (auto simp: map_add_def fun_eq_iff split: option.split)
  then show ?thesis by simp
qed

end
