(* ===== verification/Kube.thy ===== *)
theory Kube
  imports Go_Prelude
begin

section \<open>Kubernetes objects, the client and reconcile results\<close>

text \<open>
  The Kubernetes client, the finalizer helpers and the work queue belong to controller-runtime.
  The client is a parameter: a record of the calls the controllers make, over an arbitrary type
  \<open>'w\<close> of worlds (what the API server holds), a type \<open>'o\<close> of objects and a type \<open>'e\<close> of
  library errors. The locale \<open>api_server\<close> states the documented behaviour that the
  finalizer protocol relies on; \<open>mem_client\<close> is a concrete in-memory server.
\<close>

record object_meta =
  m_Name :: string
  m_Namespace :: string
  m_Finalizers :: "string list"
  m_DeletionTimestamp :: "instant option"

record NamespacedName =
  nn_Namespace :: string
  nn_Name :: string

definition key_of :: "object_meta \<Rightarrow> NamespacedName" where
  "key_of m = \<lparr>nn_Namespace = m_Namespace m, nn_Name = m_Name m\<rparr>"

record ('w, 'o, 'e) client =
  Get :: "'w \<Rightarrow> NamespacedName \<Rightarrow> 'e + 'o"
  Update :: "'w \<Rightarrow> 'o \<Rightarrow> ('e + 'o) \<times> 'w"
  IsNotFound :: "'e \<Rightarrow> bool"
  AddFinalizer :: "string list \<Rightarrow> string \<Rightarrow> string list"
  RemoveFinalizer :: "string list \<Rightarrow> string \<Rightarrow> string list"

text \<open>\<open>Update\<close> also overwrites the object in memory with the server's response, hence the object in its result.\<close>

subsection \<open>Results of a reconcile\<close>

text \<open>An error is one that a library call returned, or one the program builds with \<open>fmt.Errorf\<close>.\<close>

datatype 'e go_error = LibError 'e | Errorf string

record Result =
  res_Requeue :: bool
  res_RequeueAfter :: duration

datatype 'e outcome = Returned Result "'e go_error option" | Panicking

definition empty_Result :: Result where
  "empty_Result = \<lparr>res_Requeue = False, res_RequeueAfter = 0\<rparr>"

text \<open>The last call of a reconciler on the aggregator, then \<open>return ctrl.Result{}, nil\<close>.\<close>

definition after_call :: "'s exec \<Rightarrow> 'w \<Rightarrow> ('s \<Rightarrow> 'e outcome \<times> 'w \<times> 's) \<Rightarrow> 'e outcome \<times> 'w \<times> 's" where
  "after_call x w f = (case x of Ok a \<Rightarrow> f a | Panicked a \<Rightarrow> (Panicking, w, a))"

lemma after_call_Ok [simp]: "after_call (Ok a) w f = f a"
  by (simp add: after_call_def)

lemma after_call_Panicked [simp]: "after_call (Panicked a) w f = (Panicking, w, a)"
  by (simp add: after_call_def)

subsection \<open>Event filters\<close>

text \<open>
  \<open>predicate.Funcs\<close>: one function per kind of event; the work queue receives a request for
  an event that its function admits. An update event carries the old and the new object.
\<close>

datatype watch_event =
    CreateEvent object_meta
  | DeleteEvent object_meta
  | UpdateEvent object_meta object_meta
  | GenericEvent object_meta

record Funcs =
  CreateFunc :: "object_meta \<Rightarrow> bool"
  DeleteFunc :: "object_meta \<Rightarrow> bool"
  UpdateFunc :: "object_meta \<Rightarrow> object_meta \<Rightarrow> bool"
  GenericFunc :: "object_meta \<Rightarrow> bool"

fun admits :: "Funcs \<Rightarrow> watch_event \<Rightarrow> bool" where
  "admits p (CreateEvent m) = CreateFunc p m"
| "admits p (DeleteEvent m) = DeleteFunc p m"
| "admits p (UpdateEvent old new) = UpdateFunc p old new"
| "admits p (GenericEvent m) = GenericFunc p m"

text \<open>The object a request is made for: the new one of an update.\<close>

fun event_object :: "watch_event \<Rightarrow> object_meta" where
  "event_object (CreateEvent m) = m"
| "event_object (DeleteEvent m) = m"
| "event_object (UpdateEvent old new) = new"
| "event_object (GenericEvent m) = m"

subsection \<open>The API server\<close>

text \<open>
  An object whose deletion has been requested and that has no finalizer left is removed by the
  update that takes the last one away. An update that returns an error has either done nothing
  or has been applied without the client learning of it (a timeout).
\<close>

definition doomed :: "object_meta \<Rightarrow> bool" where
  "doomed m \<longleftrightarrow> m_Finalizers m = [] \<and> \<not> IsZero (m_DeletionTimestamp m)"

locale api_server =
  fixes k :: "('w, 'o, 'e) client"
    and meta :: "'o \<Rightarrow> object_meta"
    and stored :: "'w \<Rightarrow> NamespacedName \<Rightarrow> 'o option"
  assumes stored_key: "stored w key = Some obj \<Longrightarrow> key_of (meta obj) = key"
    and get_found: "Get k w key = Inr obj \<Longrightarrow> stored w key = Some obj"
    and get_not_found: "Get k w key = Inl e \<Longrightarrow> IsNotFound k e \<Longrightarrow> stored w key = None"
    and update_response: "Update k w obj = (Inr obj', w') \<Longrightarrow> meta obj' = meta obj"
    and update_done: "Update k w obj = (Inr obj', w') \<Longrightarrow>
      stored w' = (stored w)(key_of (meta obj) := if doomed (meta obj) then None else Some obj')"
    and update_error: "Update k w obj = (Inl e, w') \<Longrightarrow> stored w' = stored w \<or>
      stored w' = (stored w)(key_of (meta obj) := if doomed (meta obj) then None else Some obj)"
    and add_finalizer: "set (AddFinalizer k fs f) = insert f (set fs)"
    and remove_finalizer: "set (RemoveFinalizer k fs f) = set fs - {f}"

locale atomic_api_server = api_server +
  assumes update_error_unchanged: "Update k w obj = (Inl e, w') \<Longrightarrow> stored w' = stored w"

subsection \<open>A concrete server\<close>

datatype mem_error = Mem_NotFound | Mem_Timeout

definition mem_stored :: "('o \<Rightarrow> object_meta) \<Rightarrow> 'o list \<Rightarrow> NamespacedName \<Rightarrow> 'o option" where
  "mem_stored meta w key = find (\<lambda>obj. key_of (meta obj) = key) w"

definition mem_put :: "('o \<Rightarrow> object_meta) \<Rightarrow> 'o \<Rightarrow> 'o list \<Rightarrow> 'o list" where
  "mem_put meta obj w = (if doomed (meta obj) then [] else [obj])
     @ filter (\<lambda>x. key_of (meta x) \<noteq> key_of (meta obj)) w"

definition mem_client :: "('o \<Rightarrow> object_meta) \<Rightarrow> ('o list, 'o, mem_error) client" where
  "mem_client meta = \<lparr>
     Get = (\<lambda>w key. case mem_stored meta w key of None \<Rightarrow> Inl Mem_NotFound | Some obj \<Rightarrow> Inr obj),
     Update = (\<lambda>w obj. if mem_stored meta w (key_of (meta obj)) = None then (Inl Mem_NotFound, w)
       else (Inr obj, mem_put meta obj w)),
     IsNotFound = (\<lambda>e. e = Mem_NotFound),
     AddFinalizer = (\<lambda>fs f. if f \<in> set fs then fs else fs @ [f]),
     RemoveFinalizer = (\<lambda>fs f. filter (\<lambda>g. g \<noteq> f) fs)\<rparr>"

text \<open>The same server behind a connection on which every update is applied and then times out.\<close>

definition timeout_client :: "('o \<Rightarrow> object_meta) \<Rightarrow> ('o list, 'o, mem_error) client" where
  "timeout_client meta = (mem_client meta)\<lparr>Update := (\<lambda>w obj. (Inl Mem_Timeout, mem_put meta obj w))\<rparr>"

lemma find_filter_key:
  "find (\<lambda>obj. key_of (meta obj) = key) (filter (\<lambda>x. key_of (meta x) \<noteq> key') w) =
     (if key = key' then None else find (\<lambda>obj. key_of (meta obj) = key) w)"
  by (induction w) auto

lemma mem_stored_put:
  "mem_stored meta (mem_put meta obj w) =
     (mem_stored meta w)(key_of (meta obj) := if doomed (meta obj) then None else Some obj)"
  by (auto simp: mem_stored_def mem_put_def find_filter_key fun_eq_iff)

lemma mem_stored_key: "mem_stored meta w key = Some obj \<Longrightarrow> key_of (meta obj) = key"
  by (auto simp: mem_stored_def find_Some_iff)

interpretation mem: atomic_api_server "mem_client meta" meta "mem_stored meta" for meta
  by unfold_locales
    (auto simp: mem_client_def mem_stored_put mem_stored_key split: if_splits option.splits)

interpretation timeout: api_server "timeout_client meta" meta "mem_stored meta" for meta
  by unfold_locales
    (auto simp: timeout_client_def mem_client_def mem_stored_put mem_stored_key
      split: if_splits option.splits)

lemma mem_api: "api_server (mem_client meta) meta (mem_stored meta)"
  by (rule mem.api_server_axioms)

lemma mem_atomic: "atomic_api_server (mem_client meta) meta (mem_stored meta)"
  by (rule mem.atomic_api_server_axioms)

text \<open>A server that has no objects.\<close>

definition absent_client :: "('w, 'o, mem_error) client" where
  "absent_client = \<lparr>Get = (\<lambda>w key. Inl Mem_NotFound), Update = (\<lambda>w obj. (Inr obj, w)),
     IsNotFound = (\<lambda>e. e = Mem_NotFound), AddFinalizer = (\<lambda>fs f. f # fs),
     RemoveFinalizer = (\<lambda>fs f. removeAll f fs)\<rparr>"

end
