(* ===== verification/Controller_Utils.thy ===== *)
theory Controller_Utils
  imports Kube
begin

section \<open>Helpers of the controllers (\<open>controllers/utils/utils.go\<close>)\<close>

fun ContainsString :: "string list \<Rightarrow> string \<Rightarrow> bool" where
  "ContainsString [] candidate = False"
| "ContainsString (s # stringArray) candidate =
     (if s = candidate then True else ContainsString stringArray candidate)"

definition DoNotRequeue :: "'e outcome" where
  "DoNotRequeue = Returned empty_Result None"

definition RequeueWithError :: "'e go_error \<Rightarrow> 'e outcome" where
  "RequeueWithError err = Returned empty_Result (Some err)"

definition RequeueAfter :: "duration \<Rightarrow> 'e outcome" where
  "RequeueAfter d = Returned \<lparr>res_Requeue = False, res_RequeueAfter = d\<rparr> None"

lemma ContainsString_iff [simp]: "ContainsString fs f \<longleftrightarrow> f \<in> set fs"
  by (induction fs) auto

text \<open>
  The work queue retries a request after an error or a panic, and later if the result asks for
  it; otherwise the request is finished until the next event.
\<close>

definition finished :: "'e outcome \<Rightarrow> bool" where
  "finished out \<longleftrightarrow> out = Returned empty_Result None"

definition requeued_in :: "'e outcome \<Rightarrow> duration option" where
  "requeued_in out = (case out of Returned r None \<Rightarrow>
     if res_RequeueAfter r > 0 then Some (res_RequeueAfter r) else None | _ \<Rightarrow> None)"

lemma finished_simps [simp]:
  "finished DoNotRequeue" "\<not> finished (RequeueWithError err)" "\<not> finished Panicking"
  by (simp_all add: finished_def DoNotRequeue_def RequeueWithError_def)

end
