(* ===== verification/Finalizer_Protocol.thy ===== *)
theory Finalizer_Protocol
  imports Controller_Utils
begin

section \<open>The finalizer protocol\<close>

text \<open>
  The group and the OAuth controller put a finalizer on the object they report about and take
  it away only once the report is withdrawn, so that an object they have reported cannot vanish
  unseen. This theory states the protocol for any such controller: a lifecycle interleaves
  reconciles with steps of everybody else, and a report is always backed by an object that
  exists and carries the finalizer.
\<close>

definition holds_finalizer :: "('o \<Rightarrow> object_meta) \<Rightarrow> ('w \<Rightarrow> NamespacedName \<Rightarrow> 'o option) \<Rightarrow> string
    \<Rightarrow> 'w \<Rightarrow> NamespacedName \<Rightarrow> bool" where
  "holds_finalizer meta stored f w key \<longleftrightarrow>
     (case stored w key of None \<Rightarrow> False | Some obj \<Rightarrow> f \<in> set (m_Finalizers (meta obj)))"

text \<open>
  The steps of others may create, change and delete objects, but the API server removes no
  object with a finalizer, and nobody else takes this finalizer away.
\<close>

inductive lifecycle :: "('w \<Rightarrow> 'w \<Rightarrow> bool) \<Rightarrow> ('w \<Rightarrow> 's \<Rightarrow> 'w \<Rightarrow> 's \<Rightarrow> bool)
    \<Rightarrow> 'w \<times> 's \<Rightarrow> 'w \<times> 's \<Rightarrow> bool" for others reconcile init where
  start: "lifecycle others reconcile init init"
| other: "lifecycle others reconcile init (w, s) \<Longrightarrow> others w w' \<Longrightarrow>
    lifecycle others reconcile init (w', s)"
| reconciled: "lifecycle others reconcile init (w, s) \<Longrightarrow> reconcile w s w' s' \<Longrightarrow>
    lifecycle others reconcile init (w', s')"

definition keeps_finalizer :: "('w \<Rightarrow> NamespacedName \<Rightarrow> bool) \<Rightarrow> ('w \<Rightarrow> 'w \<Rightarrow> bool) \<Rightarrow> bool" where
  "keeps_finalizer held others \<longleftrightarrow> (\<forall>w w' key. others w w' \<longrightarrow> held w key \<longrightarrow> held w' key)"

locale finalizer_protocol =
  fixes held :: "'w \<Rightarrow> NamespacedName \<Rightarrow> bool"
    and reported :: "'s \<Rightarrow> NamespacedName \<Rightarrow> bool"
    and wf :: "'s \<Rightarrow> bool"
    and reconcile :: "'w \<Rightarrow> 's \<Rightarrow> 'w \<Rightarrow> 's \<Rightarrow> bool"
  assumes step_wf: "wf s \<Longrightarrow> reconcile w s w' s' \<Longrightarrow> wf s'"
    and step_backed: "wf s \<Longrightarrow> (\<And>key. reported s key \<Longrightarrow> held w key) \<Longrightarrow>
      reconcile w s w' s' \<Longrightarrow> reported s' key \<Longrightarrow> held w' key"
begin

lemma lifecycle_backed:
  assumes "lifecycle others reconcile (w0, s0) (w, s)" and "keeps_finalizer held others"
    and "wf s0" and "\<And>key. \<not> reported s0 key"
  shows "wf s \<and> (\<forall>key. reported s key \<longrightarrow> held w key)"
  using assms(1)
proof (induction "(w, s)" arbitrary: w s rule: lifecycle.induct)
  case start
  then show ?case using assms(3,4) by simp
next
  case (other w s w')
  then show ?case using assms(2) by (auto simp: keeps_finalizer_def)
next
  case (reconciled w s w' s')
  then show ?case by (metis step_wf step_backed)
qed

end

end
