(* ===== verification/Aggregator_Properties.thy ===== *)
theory Aggregator_Properties
  imports Aggregator_Facts
begin

section \<open>Properties of the aggregator\<close>

text \<open>
  The guarantees of \<open>pkg/metrics/aggregator.go\<close> that the rest of the program builds on, each
  with an instance on the concrete gauge vectors \<open>map_api\<close>.
\<close>

subsection \<open>Auxiliary facts\<close>

lemma map_api_gauges: "gauge_vec map_api"
  by (rule map_vec.gauge_vec_axioms)

lemma new_collector_map_wf: "agg_wf map_api (new_collector map_api interval)"
  by (rule new_collector_wf) (rule map_api_gauges)

lemma mset_map_put:
  "keys_distinct m \<Longrightarrow> mset (map_put k v m) = add_mset (k, v) (mset (map_del k m))"
proof (induction m)
  case (Cons e m)
  obtain k' v' where e: "e = (k', v')" by (cases e)
  show ?case
  proof (cases "k' = k")
    case True
    then have "map_del k m = m"
      using Cons.prems unfolding map_del_def e by (intro delete_id) auto
    then show ?thesis using True by (simp add: e map_put_def map_del_def)
  next
    case False
    then show ?thesis using Cons by (simp add: e map_put_def map_del_def)
  qed
qed (simp add: map_put_def map_del_def)

lemma provider_total_put:
  assumes "keys_distinct m"
  shows "provider_total (map_put k ts m) t = count_list ts t + provider_total (map_del k m) t"
proof -
  have "provider_total (map_put k ts m) t = provider_total ((k, ts) # map_del k m) t"
    by (rule provider_total_perm) (simp add: mset_map_put [OF assms])
  then show ?thesis by (simp add: provider_total_def)
qed

lemma exported_providerMap [simp]: "exported pv (a\<lparr>providerMap := m\<rparr>) = exported pv a"
  by (auto simp: exported_def all_vec_id fun_eq_iff)

lemma providerMap_wf:
  "agg_wf pv a \<Longrightarrow> keys_distinct m \<Longrightarrow> agg_wf pv (a\<lparr>providerMap := m\<rparr>)"
  by (auto simp: agg_wf_def all_vec_id)

text \<open>The values of the nine constants in \<open>github.com/openshift/api\<close>, for the instances.\<close>

definition api_idp_types :: idp_types where
  "api_idp_types = \<lparr>
     IdentityProviderTypeBasicAuth = ''BasicAuth'', IdentityProviderTypeGitHub = ''GitHub'',
     IdentityProviderTypeGitLab = ''GitLab'', IdentityProviderTypeGoogle = ''Google'',
     IdentityProviderTypeHTPasswd = ''HTPasswd'', IdentityProviderTypeKeystone = ''Keystone'',
     IdentityProviderTypeLDAP = ''LDAP'', IdentityProviderTypeOpenID = ''OpenID'',
     IdentityProviderTypeRequestHeader = ''RequestHeader''\<rparr>"

lemma api_idp_types_valid: "list_all ValidString (knownIdentityProviderTypes api_idp_types)"
  by (simp add: knownIdentityProviderTypes_def api_idp_types_def byte_def)

lemma Run_append:
  "Run pv c es a = (None, Ok b) \<Longrightarrow> Run pv c (es @ es') a = Run pv c es' b"
  by (induction pv c es a rule: Run.induct) (auto split: exec.splits)

text \<open>Rounds of the loop between which the others keep the invariant.\<close>

definition rounds :: "'g gauge_api \<Rightarrow> 'g run_events \<Rightarrow> bool" where
  "rounds pv es \<longleftrightarrow> (\<forall>(others, e) \<in> set es. e = Tick \<and> (\<forall>a. agg_wf pv a \<longrightarrow> agg_wf pv (others a)))"

lemma rounds_simps [simp]:
  "rounds pv []"
  "rounds pv (es @ [(others, e)]) \<longleftrightarrow> rounds pv es \<and> e = Tick \<and> (\<forall>a. agg_wf pv a \<longrightarrow> agg_wf pv (others a))"
  by (auto simp: rounds_def)

lemma Run_rounds:
  assumes pv: "gauge_vec pv" and wf: "agg_wf pv a"
    and valid: "list_all ValidString (knownIdentityProviderTypes c)" and es: "rounds pv es"
  shows "\<exists>b. Run pv c es a = (None, Ok b) \<and> agg_wf pv b"
  using es
proof (induction es rule: rev_induct)
  case (snoc e es)
  obtain others where e: "e = (others, Tick)" "\<And>a. agg_wf pv a \<Longrightarrow> agg_wf pv (others a)"
    using snoc.prems by (cases e) auto
  obtain b where b: "Run pv c es a = (None, Ok b)" "agg_wf pv b" using snoc e(1) by auto
  obtain b' where "aggregate pv c (others b) = Ok b'" "agg_wf pv b'"
    using aggregate_reports [OF pv e(2) [OF b(2)] valid] by (rule reportsE)
  with Run_append [OF b(1)] e(1) show ?case by simp
qed (simp add: wf)

subsection \<open>Draining machines\<close>

text \<open>
  C23: Reporting the pods that keep a machine from draining never panics and makes the exported
  drain series of that machine exactly one per pod of the report, labelled with the node twice,
  whatever was reported for the machine before; the drain series of other machines and all other
  metrics stay.
\<close>

theorem drain_report_exact:
  assumes "gauge_vec pv" and "agg_wf pv a"
    and "machine_wf m \<lparr>nodeName = node, podNamespaces = pods\<rparr>"
  shows "\<exists>a'. SetFailingDrainPodsForMachine pv m pods node a = Ok a' \<and> agg_wf pv a'
    \<and> (\<forall>p ns n1 n2 m'. exported pv a' Pods_Preventing_Node_Drain [p, ns, n1, n2, m'] =
        (if m' = m
         then if map_of pods p = Some ns \<and> n1 = node \<and> n2 = node then Some 1 else None
         else exported pv a Pods_Preventing_Node_Drain [p, ns, n1, n2, m']))
    \<and> (\<forall>v. v \<noteq> Pods_Preventing_Node_Drain \<longrightarrow> exported pv a' v = exported pv a v)"
proof -
  have d: "keys_distinct (drainingMachines a)"
      "exported pv a Pods_Preventing_Node_Drain = drain_series (drainingMachines a)"
    using assms(2) by (simp_all add: agg_wf_def drain_wf_def)
  have "map_of pods p = Some ns \<longleftrightarrow> (p, ns) \<in> set pods" for p ns
    using assms(3) by (simp add: machine_wf_def)
  with SetFailingDrainPods_ok [OF assms] d show ?thesis
    by (auto simp: expo_drain_def drain_series_put)
qed

theorem drain_report_exact_witness:
  "\<exists>a'. SetFailingDrainPodsForMachine map_api ''m1'' [(''p1'', ''shop'')] ''n1''
       (new_collector map_api Minute) = Ok a'
    \<and> exported map_api a' Pods_Preventing_Node_Drain [''p1'', ''shop'', ''n1'', ''n1'', ''m1''] = Some 1"
proof -
  have "machine_wf ''m1'' \<lparr>nodeName = ''n1'', podNamespaces = [(''p1'', ''shop'')]\<rparr>"
    by (simp add: machine_wf_def byte_def)
  from drain_report_exact [OF map_api_gauges new_collector_map_wf [of Minute] this] show ?thesis by auto
qed

text \<open>
  Removing a machine withdraws every drain series of that machine and no other series.
\<close>

theorem drain_report_withdrawn:
  assumes "gauge_vec pv" and "agg_wf pv a"
  shows "\<exists>a'. RemoveMachineMetrics pv m a = Ok a' \<and> agg_wf pv a'
    \<and> (\<forall>p ns n1 n2 m'. exported pv a' Pods_Preventing_Node_Drain [p, ns, n1, n2, m'] =
        (if m' = m then None else exported pv a Pods_Preventing_Node_Drain [p, ns, n1, n2, m']))
    \<and> (\<forall>v. v \<noteq> Pods_Preventing_Node_Drain \<longrightarrow> exported pv a' v = exported pv a v)"
proof -
  have "exported pv a Pods_Preventing_Node_Drain = drain_series (drainingMachines a)"
    using assms(2) by (simp add: agg_wf_def)
  with RemoveMachineMetrics_ok [OF assms, of m] show ?thesis
    by (auto simp: expo_drain_def drain_series_del)
qed

theorem drain_report_withdrawn_witness:
  "\<exists>a'. RemoveMachineMetrics map_api ''m1'' (new_collector map_api Minute) = Ok a'
    \<and> exported map_api a' Pods_Preventing_Node_Drain [''p1'', ''shop'', ''n1'', ''n1'', ''m1''] = None"
  using drain_report_withdrawn [OF map_api_gauges new_collector_map_wf [of Minute], of "''m1''"] by auto

text \<open>
  The refresh of the drain metric after a change of the map of draining machines visits two
  Go maps, whose order is unspecified. In every order it returns and exports the same series,
  those of the new map.
\<close>

theorem drain_refresh_any_order:
  assumes "gauge_vec pv" and "agg_wf pv a" and "drain_wf ms" and "visits ms order"
  shows "\<exists>a'. resetMachineMetrics_in pv order (a\<lparr>drainingMachines := ms\<rparr>) = Ok a'
    \<and> exported pv a' = expo_drain ms (exported pv a)"
proof -
  have "\<forall>(m, i) \<in> set order. machine_wf m i"
    using visits_facts(2) [OF assms(4)] assms(3) by (simp add: drain_wf_def)
  moreover have "\<forall>v. label_names pv (vec_of v (a\<lparr>drainingMachines := ms\<rparr>)) = declared_labels v"
    using assms(2) by (simp add: agg_wf_def)
  ultimately show ?thesis
    using resetMachineMetrics_in_drains [OF assms(1), of "a\<lparr>drainingMachines := ms\<rparr>" order]
      visits_facts(1) [OF assms(4)]
    by (auto simp: drains_def expo_drain_def drain_series_one)
qed

theorem drain_refresh_any_order_witness:
  "\<exists>a'. resetMachineMetrics_in map_api
       [(''m2'', \<lparr>nodeName = ''n2'', podNamespaces = []\<rparr>),
        (''m1'', \<lparr>nodeName = ''n1'', podNamespaces = [(''q'', ''x''), (''p'', ''x'')]\<rparr>)]
       ((new_collector map_api Minute)\<lparr>drainingMachines :=
         [(''m1'', \<lparr>nodeName = ''n1'', podNamespaces = [(''p'', ''x''), (''q'', ''x'')]\<rparr>),
          (''m2'', \<lparr>nodeName = ''n2'', podNamespaces = []\<rparr>)]\<rparr>) = Ok a'
     \<and> exported map_api a' Pods_Preventing_Node_Drain [''q'', ''x'', ''n1'', ''n1'', ''m1''] = Some 1"
proof -
  let ?ms = "[(''m1'', \<lparr>nodeName = ''n1'', podNamespaces = [(''p'', ''x''), (''q'', ''x'')]\<rparr>),
          (''m2'', \<lparr>nodeName = ''n2'', podNamespaces = []\<rparr>)]"
  have "drain_wf ?ms"
    by (simp add: drain_wf_def machine_wf_def byte_def)
  moreover have "visits ?ms
      [(''m2'', \<lparr>nodeName = ''n2'', podNamespaces = []\<rparr>),
        (''m1'', \<lparr>nodeName = ''n1'', podNamespaces = [(''q'', ''x''), (''p'', ''x'')]\<rparr>)]"
    unfolding visits_def by (intro exI [of _ "rev ?ms"]) (simp add: same_entry_def)
  ultimately show ?thesis
    using drain_refresh_any_order [OF map_api_gauges new_collector_map_wf [of Minute], of ?ms]
    by (fastforce simp: expo_drain_def drain_series_def drain_keys_def)
qed

subsection \<open>Identity providers\<close>

text \<open>
  C26: One round of the aggregation loop sets, for every known type of identity provider, the
  series of that type to the number of providers of that type over all OAuth objects, in
  whatever order the map is visited (0 if there is none, correctly rounded to a float64), and
  changes no other series.
\<close>

theorem aggregate_counts:
  assumes "gauge_vec pv" and "agg_wf pv a"
    and "list_all ValidString (knownIdentityProviderTypes c)"
    and "mset order = mset (providerMap a)"
  shows "\<exists>a'. aggregate pv c (a\<lparr>providerMap := order\<rparr>) = Ok a'
    \<and> (\<forall>t \<in> set (knownIdentityProviderTypes c). exported pv a' Identity_Provider [t] =
        Some (float64 (int (count_list (concat (map snd (providerMap a))) t))))
    \<and> (\<forall>v key. v \<noteq> Identity_Provider \<or> (\<forall>t \<in> set (knownIdentityProviderTypes c). key \<noteq> [t]) \<longrightarrow>
        exported pv a' v key = exported pv a v key)"
proof -
  have "mset (map fst order) = mset (map fst (providerMap a))"
    using assms(4) by simp
  then have "keys_distinct order"
    using assms(2) mset_eq_imp_distinct_iff by (fastforce simp: agg_wf_def)
  from aggregate_reports [OF assms(1) providerMap_wf [OF assms(2) this] assms(3)]
  show ?thesis
    by (rule reportsE) (auto simp: expo_providers_def provider_total_perm [OF assms(4)]
        provider_total_def [symmetric] split: list.split)
qed

theorem aggregate_counts_witness:
  "\<exists>a'. aggregate map_api api_idp_types
       ((SetOAuthIDP ''cluster'' '''' [\<lparr>idp_Type = ''LDAP''\<rparr>, \<lparr>idp_Type = ''LDAP''\<rparr>]
          (new_collector map_api Minute))\<lparr>providerMap :=
            [(\<lparr>pk_name = ''cluster'', pk_namespace = ''''\<rparr>, [''LDAP'', ''LDAP''])]\<rparr>) = Ok a'
     \<and> exported map_api a' Identity_Provider [''LDAP''] = Some 2
     \<and> exported map_api a' Identity_Provider [''GitHub''] = Some 0"
proof -
  let ?a = "SetOAuthIDP ''cluster'' '''' [\<lparr>idp_Type = ''LDAP''\<rparr>, \<lparr>idp_Type = ''LDAP''\<rparr>]
      (new_collector map_api Minute)"
  have m: "providerMap ?a = [(\<lparr>pk_name = ''cluster'', pk_namespace = ''''\<rparr>, [''LDAP'', ''LDAP''])]"
    by (simp add: SetOAuthIDP_def new_collector_def map_put_def)
  have known: "''LDAP'' \<in> set (knownIdentityProviderTypes api_idp_types)"
      "''GitHub'' \<in> set (knownIdentityProviderTypes api_idp_types)"
    by (simp_all add: knownIdentityProviderTypes_def api_idp_types_def)
  have "mset [(\<lparr>pk_name = ''cluster'', pk_namespace = ''''\<rparr>, [''LDAP'', ''LDAP''])] = mset (providerMap ?a)"
    by (simp only: m)
  from aggregate_counts [OF map_api_gauges SetOAuthIDP_wf(1) [OF new_collector_map_wf]
      api_idp_types_valid this] known
  show ?thesis by (auto simp: m float64_exact)
qed

text \<open>
  A report of an OAuth object replaces the earlier report of the same object and adds to
  those of the others: at the next round the number of a known type is the number in the report
  plus that of the other objects. After the object is withdrawn it is that of the others.
\<close>

theorem oauth_reports_add_up:
  assumes "gauge_vec pv" and "agg_wf pv a"
    and "list_all ValidString (knownIdentityProviderTypes c)"
    and "t \<in> set (knownIdentityProviderTypes c)"
  shows "\<exists>a1 a2. aggregate pv c (SetOAuthIDP name ns ps a) = Ok a1
    \<and> aggregate pv c (DeleteOAuthIDP name ns (SetOAuthIDP name ns ps a)) = Ok a2
    \<and> exported pv a1 Identity_Provider [t] = Some (float64 (int (count_list (map idp_Type ps) t
        + provider_total (map_del \<lparr>pk_name = name, pk_namespace = ns\<rparr> (providerMap a)) t)))
    \<and> exported pv a2 Identity_Provider [t] = Some (float64 (int
        (provider_total (map_del \<lparr>pk_name = name, pk_namespace = ns\<rparr> (providerMap a)) t)))"
proof -
  let ?k = "\<lparr>pk_name = name, pk_namespace = ns\<rparr>"
  have d: "keys_distinct (providerMap a)" using assms(2) by (simp add: agg_wf_def)
  have set_wf: "agg_wf pv (SetOAuthIDP name ns ps a)"
    using assms(2) by (rule SetOAuthIDP_wf)
  have del: "map_del ?k (map_put ?k v m) = map_del ?k m" for v and m :: "(providerKey, string list) go_map"
    by (induction m) (auto simp: map_del_def map_put_def)
  have "\<exists>a1. aggregate pv c (SetOAuthIDP name ns ps a) = Ok a1
      \<and> exported pv a1 Identity_Provider [t] = Some (float64 (int (count_list (map idp_Type ps) t
        + provider_total (map_del ?k (providerMap a)) t)))"
    using aggregate_reports [OF assms(1) set_wf assms(3)] assms(4)
    by (auto simp: expo_providers_def SetOAuthIDP_def provider_total_put [OF d] elim!: reportsE)
  moreover have "\<exists>a2. aggregate pv c (DeleteOAuthIDP name ns (SetOAuthIDP name ns ps a)) = Ok a2
      \<and> exported pv a2 Identity_Provider [t] = Some (float64 (int (provider_total (map_del ?k (providerMap a)) t)))"
    using aggregate_reports [OF assms(1) DeleteOAuthIDP_wf(1) [OF set_wf] assms(3), of name ns] assms(4)
    by (auto simp: expo_providers_def SetOAuthIDP_def DeleteOAuthIDP_def del elim!: reportsE)
  ultimately show ?thesis by blast
qed

theorem oauth_reports_add_up_witness:
  "\<exists>a1 a2. aggregate map_api api_idp_types (SetOAuthIDP ''cluster'' '''' [\<lparr>idp_Type = ''LDAP''\<rparr>]
        (new_collector map_api Minute)) = Ok a1
    \<and> aggregate map_api api_idp_types (DeleteOAuthIDP ''cluster'' '''' (SetOAuthIDP ''cluster'' ''''
        [\<lparr>idp_Type = ''LDAP''\<rparr>] (new_collector map_api Minute))) = Ok a2
    \<and> exported map_api a1 Identity_Provider [''LDAP''] = Some 1
    \<and> exported map_api a2 Identity_Provider [''LDAP''] = Some 0"
proof -
  have "''LDAP'' \<in> set (knownIdentityProviderTypes api_idp_types)"
    by (simp add: knownIdentityProviderTypes_def api_idp_types_def)
  from oauth_reports_add_up [where name = "''cluster''" and ns = "''''" and ps = "[\<lparr>idp_Type = ''LDAP''\<rparr>]",
      OF map_api_gauges new_collector_map_wf [of Minute] api_idp_types_valid this]
  show ?thesis by (simp add: new_collector_def map_del_def provider_total_def)
qed

text \<open>
  C32: The aggregation loop never panics, whatever the other goroutines do to the aggregator between its rounds as long as they
  keep its invariant, and it goes on waiting as long as only ticks come. After a tick the series of the known identity
  provider types are the counts of the map as the others have left it before that tick. When the loop receives from the closed
  channel it returns: the events that would come after are left unreceived, and it changes nothing more.
\<close>

theorem aggregation_loop_ends:
  assumes "gauge_vec pv" and "agg_wf pv a"
    and "list_all ValidString (knownIdentityProviderTypes c)" and "rounds pv es"
  shows "\<exists>b. Run pv c es a = (None, Ok b) \<and> agg_wf pv b
    \<and> (\<forall>others rest. Run pv c (es @ (others, Done) # rest) a = (Some rest, Ok (others b)))
    \<and> (\<forall>before others. es = before @ [(others, Tick)] \<longrightarrow>
        (\<exists>a'. Run pv c before a = (None, Ok a') \<and> providerMap b = providerMap (others a')
          \<and> exported pv b = expo_providers c (providerMap (others a')) (exported pv (others a'))))"
proof -
  obtain b where b: "Run pv c es a = (None, Ok b)" "agg_wf pv b"
    using Run_rounds [OF assms] by blast
  have "\<exists>a'. Run pv c before a = (None, Ok a') \<and> providerMap b = providerMap (others a')
      \<and> exported pv b = expo_providers c (providerMap (others a')) (exported pv (others a'))"
    if es: "es = before @ [(others, Tick)]" for before others
  proof -
    have "rounds pv before" "\<And>a. agg_wf pv a \<Longrightarrow> agg_wf pv (others a)" using assms(4) es by simp_all
    moreover from Run_rounds [OF assms(1-3) this(1)]
    obtain a' where a': "Run pv c before a = (None, Ok a')" "agg_wf pv a'" by blast
    ultimately obtain b' where b': "aggregate pv c (others a') = Ok b'" "same_maps (others a') b'"
      "exported pv b' = expo_providers c (providerMap (others a')) (exported pv (others a'))"
      using aggregate_reports [OF assms(1) _ assms(3), of "others a'"] by (auto elim: reportsE)
    have "b' = b" using b(1) Run_append [OF a'(1)] b'(1) es by simp
    with a'(1) b'(2,3) show ?thesis by (auto simp: same_maps_def)
  qed
  with b Run_append [OF b(1)] show ?thesis by simp
qed

text \<open>Between two rounds an OAuth object with an LDAP provider is reported.\<close>

definition late_report :: "map_vec AdoptionMetricsAggregator \<Rightarrow> map_vec AdoptionMetricsAggregator" where
  "late_report = SetOAuthIDP ''cluster'' '''' [\<lparr>idp_Type = ''LDAP''\<rparr>]"

theorem aggregation_loop_ends_witness:
  "\<exists>b. Run map_api api_idp_types [(id, Tick), (late_report, Tick), (id, Done), (id, Tick)]
      (new_collector map_api Minute) = (Some [(id, Tick)], Ok b)
    \<and> exported map_api b Identity_Provider [''LDAP''] = Some 1"
proof -
  have "rounds map_api [(id, Tick), (late_report, Tick)]"
    by (auto simp: rounds_def late_report_def SetOAuthIDP_wf(1))
  from aggregation_loop_ends [OF map_api_gauges new_collector_map_wf [of Minute] api_idp_types_valid this]
  obtain b a' where b: "Run map_api api_idp_types ([(id, Tick), (late_report, Tick)] @ (id, Done) # [(id, Tick)])
        (new_collector map_api Minute) = (Some [(id, Tick)], Ok (id b))"
      and a': "Run map_api api_idp_types [(id, Tick)] (new_collector map_api Minute) = (None, Ok a')"
      "exported map_api b = expo_providers api_idp_types (providerMap (late_report a')) (exported map_api (late_report a'))"
    by (metis append_Cons append_Nil)
  have "rounds map_api [(id, Tick)]" by (simp add: rounds_def)
  from aggregation_loop_ends [OF map_api_gauges new_collector_map_wf [of Minute] api_idp_types_valid this] a'(1)
  have "providerMap a' = []" by (auto simp: new_collector_def)
  moreover have "''LDAP'' \<in> set (knownIdentityProviderTypes api_idp_types)"
    by (simp add: knownIdentityProviderTypes_def api_idp_types_def)
  ultimately have "exported map_api b Identity_Provider [''LDAP''] = Some 1"
    by (simp add: a'(2) expo_providers_def late_report_def SetOAuthIDP_def provider_total_def map_put_def float64_exact)
  with b show ?thesis by simp
qed

subsection \<open>Flags and states over time\<close>

text \<open>
  Over any history of reports of the cluster-admin flag, the limited-support flag and the CA
  flag, a scrape sees the last one as 0 or 1 under the cluster's id.
\<close>

theorem flags_show_last_report:
  assumes "gauge_vec pv" and "ValidString u" and "agg_wf pv a" and "bs \<noteq> []"
  shows "(\<exists>a'. range_exec (SetClusterAdmin pv u) bs a = Ok a' \<and> agg_wf pv a'
      \<and> exported pv a' Cluster_Admin_Enabled [u] = Some (of_bool (last bs)))
    \<and> (\<exists>a'. range_exec (SetLimitedSupport pv u) bs a = Ok a' \<and> agg_wf pv a'
      \<and> exported pv a' Limited_Support_Enabled [u] = Some (of_bool (last bs)))
    \<and> (\<exists>a'. range_exec (SetClusterProxyCAValid pv u) bs a = Ok a' \<and> agg_wf pv a'
      \<and> exported pv a' Cluster_Proxy_CA_Valid [u] = Some (of_bool (last bs)))"
  using admin_flag.flag_history [OF assms(1-3), of bs] support_flag.flag_history [OF assms(1-3), of bs]
    ca_flag.flag_history [OF assms(1-3), of bs] assms(4)
  by simp

theorem flags_show_last_report_witness:
  "\<exists>a'. range_exec (SetClusterAdmin map_api ''c1'') [True, False] (new_collector map_api Minute) = Ok a'
    \<and> exported map_api a' Cluster_Admin_Enabled [''c1''] = Some 0"
proof -
  have "ValidString ''c1''" by (simp add: byte_def)
  from flags_show_last_report [OF map_api_gauges this new_collector_map_wf [of Minute], of "[True, False]"]
  show ?thesis by auto
qed

text \<open>
  Over any history of reports of the control plane machine set and of the pull secret, whose
  series carry the instance type and the reason as a label, exactly the series of the last
  report is exported.
\<close>

theorem states_show_only_last_report:
  assumes "gauge_vec pv" and "ValidString u" and "agg_wf pv a"
    and "list_all (\<lambda>r. ValidString (fst r)) rs" and "rs \<noteq> []"
  shows "(\<exists>a'. range_exec (\<lambda>(t, b). SetCPMSEnabled pv u t b) rs a = Ok a'
      \<and> exported pv a' CPMS_Enabled = [[u, fst (last rs)] \<mapsto> of_bool (snd (last rs))])
    \<and> (\<exists>a'. range_exec (\<lambda>(r, b). SetPullSecretValid pv u b r) rs a = Ok a'
      \<and> exported pv a' Pull_Secret_Valid = [[u, fst (last rs)] \<mapsto> of_bool (snd (last rs))])"
  using cpms_state.state_history [OF assms(1,2,4,3)] pull_state.state_history [OF assms(1,2,4,3)] assms(5)
  by auto

theorem states_show_only_last_report_witness:
  "\<exists>a'. range_exec (\<lambda>(t, b). SetCPMSEnabled map_api ''c1'' t b) [(''m5.xlarge'', True), (''m6'', False)]
       (new_collector map_api Minute) = Ok a'
    \<and> exported map_api a' CPMS_Enabled = [[''c1'', ''m6''] \<mapsto> 0]"
proof -
  have "ValidString ''c1''"
    "list_all (\<lambda>r. ValidString (fst r)) [(''m5.xlarge'', True), (''m6'', False)]"
    by (simp_all add: byte_def)
  from states_show_only_last_report [OF map_api_gauges this(1) new_collector_map_wf [of Minute] this(2)]
  show ?thesis by auto
qed

end
