(* ===== verification/Group_Controller.thy ===== *)
theory Group_Controller
  imports Finalizer_Protocol Aggregator_Properties
begin

section \<open>The group controller (\<open>controllers/group\<close>)\<close>

text \<open>
  The controller watches the group \<open>cluster-admins\<close> and exports whether the cluster-admin
  role is in use. \<open>GroupReconcile\<close> follows the method \<open>Reconcile\<close>: it takes the client, the
  world, the request and the aggregator, and returns the outcome with the new world and
  aggregator.
\<close>

definition clusterAdminGroupName :: string where
  "clusterAdminGroupName = ''cluster-admins''"

definition group_finalizer :: string where
  "group_finalizer = ''osd-metrics-exporter/finalizer''"

record Group =
  group_meta :: object_meta
  Users :: "string list"

definition set_group_finalizers :: "string list \<Rightarrow> Group \<Rightarrow> Group" where
  "set_group_finalizers fs g = g\<lparr>group_meta := (group_meta g)\<lparr>m_Finalizers := fs\<rparr>\<rparr>"

definition GroupReconcile :: "('w, Group, 'e) client \<Rightarrow> 'g gauge_api \<Rightarrow> string \<Rightarrow> NamespacedName
    \<Rightarrow> 'w \<Rightarrow> 'g AdoptionMetricsAggregator \<Rightarrow> 'e outcome \<times> 'w \<times> 'g AdoptionMetricsAggregator" where
  "GroupReconcile k pv clusterId req w a =
     (case Get k w req of
       Inl err \<Rightarrow>
         if IsNotFound k err then (Returned empty_Result None, w, a)
         else (Returned empty_Result (Some (LibError err)), w, a)
     | Inr grp \<Rightarrow>
         if IsZero (m_DeletionTimestamp (group_meta grp)) then
           (case (if \<not> ContainsString (m_Finalizers (group_meta grp)) group_finalizer then
                    Update k w (set_group_finalizers
                      (AddFinalizer k (m_Finalizers (group_meta grp)) group_finalizer) grp)
                  else (Inr grp, w)) of
             (Inl err, w) \<Rightarrow> (Returned empty_Result (Some (LibError err)), w, a)
           | (Inr grp, w) \<Rightarrow>
               after_call (SetClusterAdmin pv clusterId (length (Users grp) > 0) a) w
                 (\<lambda>a. (Returned empty_Result None, w, a)))
         else
           after_call (SetClusterAdmin pv clusterId False a) w
             (\<lambda>a. if ContainsString (m_Finalizers (group_meta grp)) group_finalizer then
                 (case Update k w (set_group_finalizers
                      (RemoveFinalizer k (m_Finalizers (group_meta grp)) group_finalizer) grp) of
                   (Inl err, w) \<Rightarrow> (Returned empty_Result (Some (LibError err)), w, a)
                 | (Inr _, w) \<Rightarrow> (Returned empty_Result None, w, a))
               else (Returned empty_Result None, w, a)))"

definition GroupFilter :: Funcs where
  "GroupFilter = \<lparr>
     CreateFunc = (\<lambda>m. m_Name m = clusterAdminGroupName),
     DeleteFunc = (\<lambda>m. m_Name m = clusterAdminGroupName),
     UpdateFunc = (\<lambda>old new. m_Name new = clusterAdminGroupName),
     GenericFunc = (\<lambda>m. m_Name m = clusterAdminGroupName)\<rparr>"

lemma group_filter_exact:
  "admits GroupFilter evt \<longleftrightarrow> m_Name (event_object evt) = clusterAdminGroupName"
  by (cases evt) (auto simp: GroupFilter_def)

lemma set_group_finalizers_simps [simp]:
  "m_Finalizers (group_meta (set_group_finalizers fs g)) = fs"
  "m_DeletionTimestamp (group_meta (set_group_finalizers fs g)) = m_DeletionTimestamp (group_meta g)"
  "key_of (group_meta (set_group_finalizers fs g)) = key_of (group_meta g)"
  "Users (set_group_finalizers fs g) = Users g"
  by (simp_all add: set_group_finalizers_def key_of_def)

subsection \<open>The protocol\<close>

definition group_step :: "('w, Group, 'e) client \<Rightarrow> 'g gauge_api \<Rightarrow> string \<Rightarrow> NamespacedName
    \<Rightarrow> 'w \<Rightarrow> 'g AdoptionMetricsAggregator \<Rightarrow> 'w \<Rightarrow> 'g AdoptionMetricsAggregator \<Rightarrow> bool" where
  "group_step k pv clusterId req w a w' a' \<longleftrightarrow>
     snd (GroupReconcile k pv clusterId req w a) = (w', a')"

definition admin_reported :: "'g gauge_api \<Rightarrow> string \<Rightarrow> NamespacedName
    \<Rightarrow> 'g AdoptionMetricsAggregator \<Rightarrow> NamespacedName \<Rightarrow> bool" where
  "admin_reported pv clusterId req a key \<longleftrightarrow>
     key = req \<and> exported pv a Cluster_Admin_Enabled [clusterId] = Some 1"

locale group_context =
  api_server k group_meta stored + gauge_vec pv
  for k :: "('w, Group, 'e) client"
    and stored :: "'w \<Rightarrow> NamespacedName \<Rightarrow> Group option"
    and pv :: "'g gauge_api" +
  fixes clusterId :: string and req :: NamespacedName
  assumes cluster_id: "ValidString clusterId"
begin

lemma set_admin:
  assumes "agg_wf pv a"
  obtains a' where "SetClusterAdmin pv clusterId b a = Ok a'" "agg_wf pv a'" "same_maps a a'"
    "exported pv a' = expo_set Cluster_Admin_Enabled [clusterId] (of_bool b) (exported pv a)"
  using SetClusterAdmin_reports [OF gauge_vec_axioms cluster_id assms] by (rule reportsE)

text \<open>
  The outcomes of a reconcile: an error leaves the aggregator alone unless the group is being
  deleted, and a report of 1 is made only with the finalizer in place.
\<close>

lemma group_cases:
  assumes wf: "agg_wf pv a" and run: "GroupReconcile k pv clusterId req w a = (out, w', a')"
  shows "agg_wf pv a' \<and> same_maps a a' \<and>
   (case Get k w req of
     Inl err \<Rightarrow> out = Returned empty_Result (if IsNotFound k err then None else Some (LibError err))
       \<and> w' = w \<and> a' = a
   | Inr grp \<Rightarrow>
       if IsZero (m_DeletionTimestamp (group_meta grp)) then
         (\<exists>err. out = Returned empty_Result (Some (LibError err)) \<and> a' = a
           \<and> group_finalizer \<notin> set (m_Finalizers (group_meta grp))
           \<and> Update k w (set_group_finalizers (AddFinalizer k (m_Finalizers (group_meta grp)) group_finalizer)
               grp) = (Inl err, w')) \<or>
         (\<exists>grp'. out = Returned empty_Result None \<and> stored w' req = Some grp'
           \<and> group_finalizer \<in> set (m_Finalizers (group_meta grp'))
           \<and> exported pv a' = expo_set Cluster_Admin_Enabled [clusterId]
               (of_bool (length (Users grp') > 0)) (exported pv a))
       else exported pv a' = expo_set Cluster_Admin_Enabled [clusterId] 0 (exported pv a)
         \<and> (out = Returned empty_Result None \<or>
             (\<exists>err grp'. out = Returned empty_Result (Some (LibError err)) \<and> Update k w grp' = (Inl err, w')))
         \<and> (out = Returned empty_Result None \<longrightarrow>
             (case stored w' req of None \<Rightarrow> True
              | Some grp' \<Rightarrow> group_finalizer \<notin> set (m_Finalizers (group_meta grp')))))"
proof (cases "Get k w req")
  case (Inl err)
  then show ?thesis using run wf by (auto simp: GroupReconcile_def split: if_splits)
next
  case (Inr grp)
  let ?fs = "m_Finalizers (group_meta grp)"
  have stored: "stored w req = Some grp" and key: "key_of (group_meta grp) = req"
    using get_found [OF Inr] stored_key by auto
  show ?thesis
  proof (cases "IsZero (m_DeletionTimestamp (group_meta grp))")
    case alive: True
    obtain r w1 where upd: "(if \<not> ContainsString ?fs group_finalizer then
        Update k w (set_group_finalizers (AddFinalizer k ?fs group_finalizer) grp)
        else (Inr grp, w)) = (r, w1)" by (rule prod.exhaust)
    show ?thesis
    proof (cases r)
      case (Inl err)
      then show ?thesis using run wf alive upd \<open>Get k w req = Inr grp\<close>
        by (auto simp: GroupReconcile_def split: if_splits)
    next
      case ok: (Inr grp')
      have "stored w1 req = Some grp' \<and> group_finalizer \<in> set (m_Finalizers (group_meta grp'))"
        using upd ok stored key alive
          update_done [of w _ grp' w1] update_response [of w _ grp' w1]
        by (auto simp: doomed_def add_finalizer split: if_splits)
      moreover obtain a1 where "SetClusterAdmin pv clusterId (length (Users grp') > 0) a = Ok a1"
        "agg_wf pv a1" "same_maps a a1" "exported pv a1 = expo_set Cluster_Admin_Enabled [clusterId]
          (of_bool (length (Users grp') > 0)) (exported pv a)"
        using set_admin [OF wf] by blast
      ultimately show ?thesis using run alive upd ok \<open>Get k w req = Inr grp\<close>
        by (auto simp: GroupReconcile_def simp del: ContainsString_iff)
    qed
  next
    case deleted: False
    obtain a1 where a1: "SetClusterAdmin pv clusterId False a = Ok a1" "agg_wf pv a1" "same_maps a a1"
      "exported pv a1 = expo_set Cluster_Admin_Enabled [clusterId] 0 (exported pv a)"
      using set_admin [OF wf, of False] by auto
    show ?thesis using run Inr deleted a1 stored key
        update_done [of w _ _ w'] update_response [of w _ _ w']
      by (auto simp: GroupReconcile_def remove_finalizer split: if_splits prod.splits sum.splits)
  qed
qed

sublocale protocol: finalizer_protocol "holds_finalizer group_meta stored group_finalizer"
  "admin_reported pv clusterId req" "agg_wf pv" "group_step k pv clusterId req"
proof
  fix a w w' a' assume wf: "agg_wf pv a" and "group_step k pv clusterId req w a w' a'"
  then obtain out where "GroupReconcile k pv clusterId req w a = (out, w', a')"
    by (cases "GroupReconcile k pv clusterId req w a") (auto simp: group_step_def)
  from group_cases [OF wf this] show "agg_wf pv a'" by blast
next
  fix a w w' a' key assume wf: "agg_wf pv a"
    and backed: "\<And>key. admin_reported pv clusterId req a key \<Longrightarrow>
      holds_finalizer group_meta stored group_finalizer w key"
    and "group_step k pv clusterId req w a w' a'" and rep: "admin_reported pv clusterId req a' key"
  then obtain out where run: "GroupReconcile k pv clusterId req w a = (out, w', a')"
    by (cases "GroupReconcile k pv clusterId req w a") (auto simp: group_step_def)
  show "holds_finalizer group_meta stored group_finalizer w' key"
  proof (cases "Get k w req")
    case (Inl err)
    then show ?thesis using group_cases [OF wf run] rep backed by simp
  next
    case (Inr grp)
    then have "stored w req = Some grp" by (rule get_found)
    then show ?thesis
      using group_cases [OF wf run] rep backed [of key] Inr
      by (auto simp: admin_reported_def holds_finalizer_def expo_set_def split: if_splits)
  qed
qed

end

context group_context
begin

lemma flag_backed:
  assumes "lifecycle others (group_step k pv clusterId req) (w0, a0) (w, a)"
    and "keeps_finalizer (holds_finalizer group_meta stored group_finalizer) others"
    and "agg_wf pv a0" and "\<And>key. \<not> admin_reported pv clusterId req a0 key"
    and "admin_reported pv clusterId req a key"
  shows "holds_finalizer group_meta stored group_finalizer w key"
  using protocol.lifecycle_backed [OF assms(1-4)] assms(5) by blast

end

subsection \<open>Properties\<close>

text \<open>The contract on the in-memory server and the concrete gauges, for the one watched group.\<close>

definition admin_group_key :: NamespacedName where
  "admin_group_key = \<lparr>nn_Namespace = '''', nn_Name = clusterAdminGroupName\<rparr>"

interpretation mem_group: group_context "mem_client group_meta" "mem_stored group_meta" map_api
    "''c1''" admin_group_key
  by unfold_locales (simp add: byte_def)

lemma group_contextI:
  assumes "api_server k group_meta stored" "gauge_vec pv" "ValidString clusterId"
  shows "group_context k stored pv clusterId"
  using assms by (simp add: group_context_def group_context_axioms_def)

definition admins :: "string list \<Rightarrow> instant option \<Rightarrow> Group" where
  "admins fs deleted = \<lparr>group_meta = \<lparr>m_Name = clusterAdminGroupName, m_Namespace = '''',
     m_Finalizers = fs, m_DeletionTimestamp = deleted\<rparr>, Users = [''alice'']\<rparr>"

lemma get_admins [simp]:
  "Get (mem_client group_meta) [admins fs deleted] admin_group_key = Inr (admins fs deleted)"
  by (simp add: mem_client_def mem_stored_def admins_def key_of_def admin_group_key_def)

text \<open>
  For a group that is not being deleted, a reconcile either fails to add the finalizer, reports
  the error of that update and leaves the metrics alone, or it ends with the finalizer on the stored group and
  the cluster-admin flag telling whether the group has users, all other metrics unchanged.
\<close>

theorem group_reports_members:
  assumes "api_server k group_meta stored" and "gauge_vec pv" and "ValidString clusterId"
    and "agg_wf pv a" and "Get k w req = Inr grp" and "IsZero (m_DeletionTimestamp (group_meta grp))"
  shows "\<exists>out w' a'. GroupReconcile k pv clusterId req w a = (out, w', a') \<and> agg_wf pv a' \<and>
    ((\<exists>err. out = Returned empty_Result (Some (LibError err)) \<and> a' = a
       \<and> group_finalizer \<notin> set (m_Finalizers (group_meta grp))
       \<and> Update k w (set_group_finalizers (AddFinalizer k (m_Finalizers (group_meta grp)) group_finalizer)
           grp) = (Inl err, w')) \<or>
     (\<exists>grp'. out = Returned empty_Result None \<and> stored w' req = Some grp'
       \<and> group_finalizer \<in> set (m_Finalizers (group_meta grp'))
       \<and> exported pv a' = expo_set Cluster_Admin_Enabled [clusterId]
           (of_bool (Users grp' \<noteq> [])) (exported pv a)))"
proof -
  obtain out w' a' where run: "GroupReconcile k pv clusterId req w a = (out, w', a')"
    by (rule prod_cases3)
  show ?thesis
    using group_context.group_cases [OF group_contextI [OF assms(1-3)] assms(4) run] run assms(5,6)
    by auto
qed

theorem group_reports_members_witness:
  "\<exists>out w' a'. GroupReconcile (mem_client group_meta) map_api ''c1'' admin_group_key
      [admins [group_finalizer] None] (new_collector map_api Minute) = (out, w', a')
    \<and> out = Returned empty_Result None \<and> (\<exists>grp'. mem_stored group_meta w' admin_group_key = Some grp'
    \<and> exported map_api a' Cluster_Admin_Enabled [''c1''] = Some (of_bool (Users grp' \<noteq> [])))"
proof -
  have "IsZero (m_DeletionTimestamp (group_meta (admins [group_finalizer] None)))"
    "ValidString ''c1''"
    by (simp_all add: admins_def IsZero_def byte_def)
  from group_reports_members [OF mem_api map_api_gauges this(2) new_collector_map_wf [of Minute]
      get_admins this(1)]
  show ?thesis by (auto simp: admins_def expo_set_def)
qed

text \<open>
  For a group that is being deleted, a reconcile sets the cluster-admin flag to 0. It then
  either ends without an error, and the finalizer is gone from the group or the group is gone, or
  the update that takes the finalizer away has failed, and its error is reported.
\<close>

theorem group_deletion_withdraws:
  assumes "api_server k group_meta stored" and "gauge_vec pv" and "ValidString clusterId"
    and "agg_wf pv a" and "Get k w req = Inr grp" and "\<not> IsZero (m_DeletionTimestamp (group_meta grp))"
  shows "\<exists>out w' a'. GroupReconcile k pv clusterId req w a = (out, w', a') \<and> agg_wf pv a'
    \<and> exported pv a' = expo_set Cluster_Admin_Enabled [clusterId] 0 (exported pv a)
    \<and> (out = Returned empty_Result None
           \<and> \<not> holds_finalizer group_meta stored group_finalizer w' req
       \<or> (\<exists>err grp'. out = Returned empty_Result (Some (LibError err)) \<and> Update k w grp' = (Inl err, w')))"
proof -
  obtain out w' a' where run: "GroupReconcile k pv clusterId req w a = (out, w', a')"
    by (rule prod_cases3)
  show ?thesis
    using group_context.group_cases [OF group_contextI [OF assms(1-3)] assms(4) run] run assms(5,6)
    by (auto simp: holds_finalizer_def split: option.splits)
qed

theorem group_deletion_withdraws_witness:
  "\<exists>out w' a'. GroupReconcile (mem_client group_meta) map_api ''c1'' admin_group_key
      [admins [group_finalizer] (Some 1)] (new_collector map_api Minute) = (out, w', a')
    \<and> exported map_api a' Cluster_Admin_Enabled [''c1''] = Some 0"
proof -
  have "\<not> IsZero (m_DeletionTimestamp (group_meta (admins [group_finalizer] (Some 1))))"
    "ValidString ''c1''"
    by (simp_all add: admins_def IsZero_def byte_def)
  from group_deletion_withdraws [OF mem_api map_api_gauges this(2) new_collector_map_wf [of Minute]
      get_admins this(1)]
  show ?thesis by (auto simp: expo_set_def)
qed

text \<open>
  However reconciles interleave with changes that others make to the group, as long as nobody
  else takes the finalizer away: while the cluster-admin flag is exported as 1, the group exists
  and carries the finalizer, so it cannot disappear without the flag being withdrawn.
\<close>

theorem group_flag_backed:
  assumes "api_server k group_meta stored" and "gauge_vec pv" and "ValidString clusterId"
    and "lifecycle others (group_step k pv clusterId req) (w0, a0) (w, a)"
    and "keeps_finalizer (holds_finalizer group_meta stored group_finalizer) others"
    and "agg_wf pv a0" and "exported pv a0 Cluster_Admin_Enabled [clusterId] \<noteq> Some 1"
    and "exported pv a Cluster_Admin_Enabled [clusterId] = Some 1"
  shows "holds_finalizer group_meta stored group_finalizer w req"
  using group_context.flag_backed [OF group_contextI [OF assms(1-3)] assms(4-6), of req]
    assms(7,8)
  by (auto simp: admin_reported_def)

theorem group_flag_backed_witness:
  "let s = snd (GroupReconcile (mem_client group_meta) map_api ''c1'' admin_group_key
      [admins [group_finalizer] None] (new_collector map_api Minute)) in
    exported map_api (snd s) Cluster_Admin_Enabled [''c1''] = Some 1
    \<and> holds_finalizer group_meta (mem_stored group_meta) group_finalizer (fst s) admin_group_key"
proof -
  let ?init = "([admins [group_finalizer] None], new_collector map_api Minute)"
  let ?s = "snd (GroupReconcile (mem_client group_meta) map_api ''c1'' admin_group_key
      [admins [group_finalizer] None] (new_collector map_api Minute))"
  have u: "ValidString ''c1''" by (simp add: byte_def)
  obtain a1 where a1: "SetClusterAdmin map_api ''c1'' True (new_collector map_api Minute) = Ok a1"
      "exported map_api a1 Cluster_Admin_Enabled [''c1''] = Some 1"
    using SetClusterAdmin_reports [OF map_api_gauges u new_collector_map_wf [of Minute], of True]
    by (auto simp: expo_set_def elim!: reportsE)
  then have s: "?s = ([admins [group_finalizer] None], a1)"
    by (simp add: GroupReconcile_def) (simp add: admins_def IsZero_def)
  have "group_step (mem_client group_meta) map_api ''c1'' admin_group_key (fst ?init) (snd ?init)
      [admins [group_finalizer] None] a1"
    using s by (simp add: group_step_def)
  then have "lifecycle (=) (group_step (mem_client group_meta) map_api ''c1'' admin_group_key) ?init
      ([admins [group_finalizer] None], a1)"
    by (rule lifecycle.reconciled [rotated]) (simp add: lifecycle.start)
  moreover have "keeps_finalizer (holds_finalizer group_meta (mem_stored group_meta) group_finalizer) (=)"
    by (simp add: keeps_finalizer_def)
  moreover have "exported map_api (new_collector map_api Minute) Cluster_Admin_Enabled [''c1''] \<noteq> Some 1"
    using new_collector_wf(2) [OF map_api_gauges, of Minute] by simp
  ultimately have "holds_finalizer group_meta (mem_stored group_meta) group_finalizer
      [admins [group_finalizer] None] admin_group_key"
    using group_flag_backed [OF mem_api map_api_gauges u _ _ new_collector_map_wf [of Minute]] a1(2)
    unfolding s by blast
  then show ?thesis using a1(2) by (simp add: s)
qed

end
