(* ===== verification/OAuth_Controller.thy ===== *)
theory OAuth_Controller
  imports Finalizer_Protocol Aggregator_Properties
begin

section \<open>The OAuth controller (\<open>controllers/oauth\<close>)\<close>

text \<open>
  The controller hands the identity providers of every OAuth object to the aggregator and
  withdraws them when the object is deleted. Unlike the group controller it takes its finalizer
  away before it withdraws the report.
\<close>

definition oauth_finalizer :: string where
  "oauth_finalizer = ''finalizers.osd.metrics.exporter.openshift.io''"

record OAuth =
  oauth_meta :: object_meta
  spec_IdentityProviders :: "IdentityProvider list"

definition set_oauth_finalizers :: "string list \<Rightarrow> OAuth \<Rightarrow> OAuth" where
  "set_oauth_finalizers fs obj = obj\<lparr>oauth_meta := (oauth_meta obj)\<lparr>m_Finalizers := fs\<rparr>\<rparr>"

definition OAuthReconcile :: "('w, OAuth, 'e) client \<Rightarrow> NamespacedName
    \<Rightarrow> 'w \<Rightarrow> 'g AdoptionMetricsAggregator \<Rightarrow> 'e outcome \<times> 'w \<times> 'g AdoptionMetricsAggregator" where
  "OAuthReconcile k req w a =
     (case Get k w req of
       Inl err \<Rightarrow>
         if IsNotFound k err then (Returned empty_Result None, w, a)
         else (Returned empty_Result (Some (LibError err)), w, a)
     | Inr obj \<Rightarrow>
         if IsZero (m_DeletionTimestamp (oauth_meta obj)) then
           (case (if \<not> ContainsString (m_Finalizers (oauth_meta obj)) oauth_finalizer then
                    Update k w (set_oauth_finalizers
                      (AddFinalizer k (m_Finalizers (oauth_meta obj)) oauth_finalizer) obj)
                  else (Inr obj, w)) of
             (Inl err, w) \<Rightarrow> (Returned empty_Result (Some (LibError err)), w, a)
           | (Inr obj, w) \<Rightarrow>
               (Returned empty_Result None, w,
                SetOAuthIDP (m_Name (oauth_meta obj)) (m_Namespace (oauth_meta obj))
                  (spec_IdentityProviders obj) a))
         else
           (case (if ContainsString (m_Finalizers (oauth_meta obj)) oauth_finalizer then
                    Update k w (set_oauth_finalizers
                      (RemoveFinalizer k (m_Finalizers (oauth_meta obj)) oauth_finalizer) obj)
                  else (Inr obj, w)) of
             (Inl err, w) \<Rightarrow> (Returned empty_Result (Some (LibError err)), w, a)
           | (Inr obj, w) \<Rightarrow>
               (Returned empty_Result None, w,
                DeleteOAuthIDP (m_Name (oauth_meta obj)) (m_Namespace (oauth_meta obj)) a)))"

lemma set_oauth_finalizers_simps [simp]:
  "m_Finalizers (oauth_meta (set_oauth_finalizers fs obj)) = fs"
  "m_DeletionTimestamp (oauth_meta (set_oauth_finalizers fs obj)) = m_DeletionTimestamp (oauth_meta obj)"
  "key_of (oauth_meta (set_oauth_finalizers fs obj)) = key_of (oauth_meta obj)"
  "spec_IdentityProviders (set_oauth_finalizers fs obj) = spec_IdentityProviders obj"
  by (simp_all add: set_oauth_finalizers_def key_of_def)

subsection \<open>The protocol\<close>

definition oauth_step :: "('w, OAuth, 'e) client
    \<Rightarrow> 'w \<Rightarrow> 'g AdoptionMetricsAggregator \<Rightarrow> 'w \<Rightarrow> 'g AdoptionMetricsAggregator \<Rightarrow> bool" where
  "oauth_step k w a w' a' \<longleftrightarrow> (\<exists>req. snd (OAuthReconcile k req w a) = (w', a'))"

definition provider_key :: "NamespacedName \<Rightarrow> providerKey" where
  "provider_key key = \<lparr>pk_name = nn_Name key, pk_namespace = nn_Namespace key\<rparr>"

definition idp_reported :: "'g AdoptionMetricsAggregator \<Rightarrow> NamespacedName \<Rightarrow> bool" where
  "idp_reported a key \<longleftrightarrow> map_of (providerMap a) (provider_key key) \<noteq> None"

lemma provider_key_eq [simp]: "provider_key key = provider_key key' \<longleftrightarrow> key = key'"
  by (auto simp: provider_key_def)

lemma providerMap_SetOAuthIDP:
  "map_of (providerMap (SetOAuthIDP (m_Name m) (m_Namespace m) ps a)) =
     (map_of (providerMap a))(provider_key (key_of m) \<mapsto> map idp_Type ps)"
  by (simp add: SetOAuthIDP_def provider_key_def key_of_def)

lemma providerMap_DeleteOAuthIDP:
  "map_of (providerMap (DeleteOAuthIDP (m_Name m) (m_Namespace m) a)) =
     (map_of (providerMap a))(provider_key (key_of m) := None)"
  by (simp add: DeleteOAuthIDP_def provider_key_def key_of_def)

locale oauth_context =
  api_server k oauth_meta stored + gauge_vec pv
  for k :: "('w, OAuth, 'e) client"
    and stored :: "'w \<Rightarrow> NamespacedName \<Rightarrow> OAuth option"
    and pv :: "'g gauge_api"
begin

lemma oauth_cases:
  assumes wf: "agg_wf pv a" and run: "OAuthReconcile k req w a = (out, w', a')"
  shows "agg_wf pv a' \<and> exported pv a' = exported pv a \<and> drainingMachines a' = drainingMachines a \<and>
   (case Get k w req of
     Inl err \<Rightarrow> out = Returned empty_Result (if IsNotFound k err then None else Some (LibError err))
       \<and> w' = w \<and> a' = a
   | Inr obj \<Rightarrow>
       (\<exists>err obj'. out = Returned empty_Result (Some (LibError err)) \<and> a' = a
         \<and> Update k w obj' = (Inl err, w')
         \<and> (IsZero (m_DeletionTimestamp (oauth_meta obj)) \<longleftrightarrow>
              oauth_finalizer \<notin> set (m_Finalizers (oauth_meta obj)))) \<or>
       out = Returned empty_Result None
         \<and> (\<forall>key. key \<noteq> req \<longrightarrow> stored w' key = stored w key)
         \<and> (if IsZero (m_DeletionTimestamp (oauth_meta obj)) then
             \<exists>obj'. stored w' req = Some obj'
               \<and> oauth_finalizer \<in> set (m_Finalizers (oauth_meta obj'))
               \<and> map_of (providerMap a') = (map_of (providerMap a))
                   (provider_key req \<mapsto> map idp_Type (spec_IdentityProviders obj'))
            else map_of (providerMap a') = (map_of (providerMap a))(provider_key req := None)
              \<and> \<not> holds_finalizer oauth_meta stored oauth_finalizer w' req))"
proof (cases "Get k w req")
  case (Inl err)
  then show ?thesis using run wf by (auto simp: OAuthReconcile_def split: if_splits)
next
  case (Inr obj)
  let ?fs = "m_Finalizers (oauth_meta obj)"
  have stored: "stored w req = Some obj" and key: "key_of (oauth_meta obj) = req"
    using get_found [OF Inr] stored_key by auto
  show ?thesis
  proof (cases "IsZero (m_DeletionTimestamp (oauth_meta obj))")
    case alive: True
    obtain r w1 where upd: "(if \<not> ContainsString ?fs oauth_finalizer then
        Update k w (set_oauth_finalizers (AddFinalizer k ?fs oauth_finalizer) obj)
        else (Inr obj, w)) = (r, w1)" by (rule prod.exhaust)
    show ?thesis
    proof (cases r)
      case (Inl err)
      then show ?thesis using run wf alive upd Inr key
        by (auto simp: OAuthReconcile_def split: if_splits) 
    next
      case ok: (Inr obj')
      have "stored w1 req = Some obj' \<and> oauth_finalizer \<in> set (m_Finalizers (oauth_meta obj'))
          \<and> key_of (oauth_meta obj') = req \<and> (\<forall>key. key \<noteq> req \<longrightarrow> stored w1 key = stored w key)"
        using upd ok stored key alive
          update_done [of w _ obj' w1] update_response [of w _ obj' w1]
        by (auto simp: doomed_def add_finalizer split: if_splits)
      then show ?thesis using run alive upd ok wf Inr
          providerMap_SetOAuthIDP [of "oauth_meta obj'" "spec_IdentityProviders obj'" a]
        by (auto simp: OAuthReconcile_def SetOAuthIDP_wf simp del: ContainsString_iff)
          (simp add: SetOAuthIDP_def)
    qed
  next
    case deleted: False
    obtain r w1 where upd: "(if ContainsString ?fs oauth_finalizer then
        Update k w (set_oauth_finalizers (RemoveFinalizer k ?fs oauth_finalizer) obj)
        else (Inr obj, w)) = (r, w1)" by (rule prod.exhaust)
    show ?thesis
    proof (cases r)
      case (Inl err)
      then show ?thesis using run wf deleted upd Inr key
        by (auto simp: OAuthReconcile_def split: if_splits) 
    next
      case ok: (Inr obj')
      have "\<not> holds_finalizer oauth_meta stored oauth_finalizer w1 req
          \<and> key_of (oauth_meta obj') = req \<and> (\<forall>key. key \<noteq> req \<longrightarrow> stored w1 key = stored w key)"
        using upd ok stored key deleted
          update_done [of w _ obj' w1] update_response [of w _ obj' w1]
        by (auto simp: holds_finalizer_def remove_finalizer split: if_splits)
      then show ?thesis using run deleted upd ok wf Inr
          providerMap_DeleteOAuthIDP [of "oauth_meta obj'" a]
        by (auto simp: OAuthReconcile_def DeleteOAuthIDP_wf simp del: ContainsString_iff)
          (simp add: DeleteOAuthIDP_def)
    qed
  qed
qed

end

text \<open>
  The protocol holds if an update that returns an error has not been applied. Without that
  assumption it fails for this controller, as the last property of this theory shows.
\<close>

locale oauth_atomic_context =
  oauth_context k stored pv + atomic_api_server k oauth_meta stored
  for k :: "('w, OAuth, 'e) client"
    and stored :: "'w \<Rightarrow> NamespacedName \<Rightarrow> OAuth option"
    and pv :: "'g gauge_api"
begin

lemma oauth_backed_step:
  assumes wf: "agg_wf pv a" and run: "OAuthReconcile k req w a = (out, w', a')"
    and backed: "idp_reported a key \<Longrightarrow> holds_finalizer oauth_meta stored oauth_finalizer w key"
    and rep: "idp_reported a' key"
  shows "holds_finalizer oauth_meta stored oauth_finalizer w' key"
proof (cases "Get k w req")
  case (Inl err)
  then show ?thesis using oauth_cases [OF wf run] rep backed by simp
next
  case (Inr obj)
  consider (failed) obj' err where "a' = a" "Update k w obj' = (Inl err, w')"
    | (alive) obj' where "\<forall>key. key \<noteq> req \<longrightarrow> stored w' key = stored w key" "stored w' req = Some obj'"
        "oauth_finalizer \<in> set (m_Finalizers (oauth_meta obj'))"
        "map_of (providerMap a') = (map_of (providerMap a))
           (provider_key req \<mapsto> map idp_Type (spec_IdentityProviders obj'))"
    | (deleted) "\<forall>key. key \<noteq> req \<longrightarrow> stored w' key = stored w key"
        "map_of (providerMap a') = (map_of (providerMap a))(provider_key req := None)"
    using oauth_cases [OF wf run] Inr by (auto split: if_splits)
  then show ?thesis
  proof cases
    case failed
    then have "stored w' = stored w" by (metis update_error_unchanged)
    then show ?thesis using backed rep failed by (simp add: holds_finalizer_def)
  next
    case alive
    then show ?thesis using backed rep
      by (cases "key = req") (auto simp: holds_finalizer_def idp_reported_def)
  next
    case deleted
    then show ?thesis using backed rep
      by (cases "key = req") (auto simp: holds_finalizer_def idp_reported_def)
  qed
qed

sublocale protocol: finalizer_protocol "holds_finalizer oauth_meta stored oauth_finalizer"
  idp_reported "agg_wf pv" "oauth_step k"
proof
  fix a w w' a' assume "agg_wf pv a" "oauth_step k w a w' a'"
  then obtain req out where "OAuthReconcile k req w a = (out, w', a')"
    by (auto simp: oauth_step_def prod_eq_iff)
  from oauth_cases [OF \<open>agg_wf pv a\<close> this] show "agg_wf pv a'" by blast
next
  fix a w w' a' key assume "agg_wf pv a"
    and "\<And>key. idp_reported a key \<Longrightarrow> holds_finalizer oauth_meta stored oauth_finalizer w key"
    and "oauth_step k w a w' a'" and "idp_reported a' key"
  then show "holds_finalizer oauth_meta stored oauth_finalizer w' key"
    using oauth_backed_step [of a _ w _ w' a' key]
    by (auto simp: oauth_step_def prod_eq_iff)
qed

end

context oauth_atomic_context
begin

lemma report_backed:
  assumes "lifecycle others (oauth_step k) (w0, a0) (w, a)"
    and "keeps_finalizer (holds_finalizer oauth_meta stored oauth_finalizer) others"
    and "agg_wf pv a0" and "\<And>key. \<not> idp_reported a0 key" and "idp_reported a key"
  shows "holds_finalizer oauth_meta stored oauth_finalizer w key"
  using protocol.lifecycle_backed [OF assms(1-4)] assms(5) by blast

end

subsection \<open>Properties\<close>

interpretation mem_oauth: oauth_atomic_context "mem_client oauth_meta" "mem_stored oauth_meta" map_api
  by unfold_locales

interpretation timeout_oauth: oauth_context "timeout_client oauth_meta" "mem_stored oauth_meta" map_api
  by unfold_locales

lemma oauth_contextI:
  "api_server k oauth_meta stored \<Longrightarrow> gauge_vec pv \<Longrightarrow> oauth_context k stored pv"
  by (simp add: oauth_context_def)

lemma oauth_atomic_contextI:
  "atomic_api_server k oauth_meta stored \<Longrightarrow> gauge_vec pv \<Longrightarrow> oauth_atomic_context k stored pv"
  by (simp add: oauth_atomic_context_def oauth_contextI atomic_api_server_def)

definition oauth_key :: NamespacedName where
  "oauth_key = \<lparr>nn_Namespace = '''', nn_Name = ''cluster''\<rparr>"

definition ldap_oauth :: "string list \<Rightarrow> instant option \<Rightarrow> OAuth" where
  "ldap_oauth fs deleted = \<lparr>oauth_meta = \<lparr>m_Name = ''cluster'', m_Namespace = '''',
     m_Finalizers = fs, m_DeletionTimestamp = deleted\<rparr>,
     spec_IdentityProviders = [\<lparr>idp_Type = ''LDAP''\<rparr>]\<rparr>"

lemma key_ldap_oauth [simp]: "key_of (oauth_meta (ldap_oauth fs deleted)) = oauth_key"
  by (simp add: ldap_oauth_def key_of_def oauth_key_def)

lemma get_ldap_oauth [simp]:
  "Get (mem_client oauth_meta) [ldap_oauth fs deleted] oauth_key = Inr (ldap_oauth fs deleted)"
  by (simp add: mem_client_def mem_stored_def)

text \<open>
  For an OAuth object that is not being deleted, a reconcile either reports the error of
  a failed update and leaves the aggregator alone, or it ends with the finalizer on the stored object
  and exactly the types of its identity providers, in order, entered under its name and
  namespace; the entries of other objects and the exported series stay.
\<close>

theorem oauth_enters_providers:
  assumes "api_server k oauth_meta stored" and "gauge_vec pv" and "agg_wf pv a"
    and "Get k w req = Inr obj" and "IsZero (m_DeletionTimestamp (oauth_meta obj))"
  shows "\<exists>out w' a'. OAuthReconcile k req w a = (out, w', a') \<and> agg_wf pv a'
    \<and> exported pv a' = exported pv a \<and>
    ((\<exists>err obj'. out = Returned empty_Result (Some (LibError err)) \<and> a' = a
       \<and> Update k w obj' = (Inl err, w')) \<or>
     (\<exists>obj'. out = Returned empty_Result None \<and> stored w' req = Some obj'
       \<and> oauth_finalizer \<in> set (m_Finalizers (oauth_meta obj'))
       \<and> map_of (providerMap a') = (map_of (providerMap a))
           (provider_key req \<mapsto> map idp_Type (spec_IdentityProviders obj'))))"
proof -
  obtain out w' a' where run: "OAuthReconcile k req w a = (out, w', a')"
    by (rule prod_cases3)
  show ?thesis
    using oauth_context.oauth_cases [OF oauth_contextI [OF assms(1,2)] assms(3) run] run assms(4,5)
    by auto
qed

theorem oauth_enters_providers_witness:
  "\<exists>out w' a'. OAuthReconcile (mem_client oauth_meta) oauth_key [ldap_oauth [] None]
      (new_collector map_api Minute) = (out, w', a')
    \<and> ((\<exists>err. out = Returned empty_Result (Some (LibError err))) \<or>
       (\<exists>obj'. mem_stored oauth_meta w' oauth_key = Some obj'
         \<and> oauth_finalizer \<in> set (m_Finalizers (oauth_meta obj'))))"
proof -
  have "IsZero (m_DeletionTimestamp (oauth_meta (ldap_oauth [] None)))"
    by (simp add: ldap_oauth_def IsZero_def)
  from oauth_enters_providers [OF mem_api map_api_gauges new_collector_map_wf [of Minute]
      get_ldap_oauth this]
  show ?thesis by blast
qed

text \<open>
  For an OAuth object that is being deleted, a reconcile that reports no error withdraws its
  entry, and the stored object no longer carries the finalizer; otherwise the
  update has failed, its error is reported and the aggregator is left alone.
\<close>

theorem oauth_deletion_withdraws:
  assumes "api_server k oauth_meta stored" and "gauge_vec pv" and "agg_wf pv a"
    and "Get k w req = Inr obj" and "\<not> IsZero (m_DeletionTimestamp (oauth_meta obj))"
  shows "\<exists>out w' a'. OAuthReconcile k req w a = (out, w', a') \<and> agg_wf pv a'
    \<and> exported pv a' = exported pv a \<and>
    ((\<exists>err obj'. out = Returned empty_Result (Some (LibError err)) \<and> a' = a
       \<and> Update k w obj' = (Inl err, w')) \<or>
     (out = Returned empty_Result None
       \<and> map_of (providerMap a') = (map_of (providerMap a))(provider_key req := None)
       \<and> \<not> holds_finalizer oauth_meta stored oauth_finalizer w' req))"
proof -
  obtain out w' a' where run: "OAuthReconcile k req w a = (out, w', a')"
    by (rule prod_cases3)
  show ?thesis
    using oauth_context.oauth_cases [OF oauth_contextI [OF assms(1,2)] assms(3) run] run assms(4,5)
    by auto
qed

theorem oauth_deletion_withdraws_witness:
  "\<exists>out w' a'. OAuthReconcile (mem_client oauth_meta) oauth_key [ldap_oauth [oauth_finalizer] (Some 1)]
      (new_collector map_api Minute) = (out, w', a')
    \<and> ((\<exists>err. out = Returned empty_Result (Some (LibError err))) \<or>
       map_of (providerMap a') (provider_key oauth_key) = None)"
proof -
  have "\<not> IsZero (m_DeletionTimestamp (oauth_meta (ldap_oauth [oauth_finalizer] (Some 1))))"
    by (simp add: ldap_oauth_def IsZero_def)
  from oauth_deletion_withdraws [OF mem_api map_api_gauges new_collector_map_wf [of Minute]
      get_ldap_oauth this]
  show ?thesis by fastforce
qed

text \<open>
  If an update that returns an error has not been applied, the finalizer protocol holds for
  any number of OAuth objects and any interleaving of reconciles with the changes of others that
  keep the finalizer: an object whose providers are entered exists and carries the finalizer.
\<close>

theorem oauth_entries_backed:
  assumes "atomic_api_server k oauth_meta stored" and "gauge_vec pv"
    and "lifecycle others (oauth_step k) (w0, a0) (w, a)"
    and "keeps_finalizer (holds_finalizer oauth_meta stored oauth_finalizer) others"
    and "agg_wf pv a0" and "providerMap a0 = []"
    and "map_of (providerMap a) (provider_key key) = Some types"
  shows "holds_finalizer oauth_meta stored oauth_finalizer w key"
  using oauth_atomic_context.report_backed [OF oauth_atomic_contextI [OF assms(1,2)] assms(3-5), of key]
    assms(6,7)
  by (simp add: idp_reported_def)

theorem oauth_entries_backed_witness:
  "let s = snd (OAuthReconcile (mem_client oauth_meta) oauth_key [ldap_oauth [] None]
      (new_collector map_api Minute)) in
    map_of (providerMap (snd s)) (provider_key oauth_key) = Some [''LDAP'']
    \<and> holds_finalizer oauth_meta (mem_stored oauth_meta) oauth_finalizer (fst s) oauth_key"
proof -
  let ?w = "[ldap_oauth [] None]" and ?a = "new_collector map_api Minute"
  let ?s = "snd (OAuthReconcile (mem_client oauth_meta) oauth_key ?w ?a)"
  have step: "oauth_step (mem_client oauth_meta) ?w ?a (fst ?s) (snd ?s)"
    unfolding oauth_step_def by (intro exI [of _ oauth_key]) simp
  from step have "lifecycle (=) (oauth_step (mem_client oauth_meta)) (?w, ?a) (fst ?s, snd ?s)"
    by (rule lifecycle.reconciled [rotated]) (rule lifecycle.start)
  note life = this
  have keeps: "keeps_finalizer (holds_finalizer oauth_meta (mem_stored oauth_meta) oauth_finalizer) (=)"
    by (simp add: keeps_finalizer_def)
  have empty: "providerMap ?a = []" by (simp add: new_collector_def)
  have p: "map_of (providerMap (snd ?s)) (provider_key oauth_key) = Some [''LDAP'']"
    by (simp add: OAuthReconcile_def mem_client_def mem_stored_def)
      (simp add: ldap_oauth_def IsZero_def set_oauth_finalizers_def key_of_def oauth_key_def
        SetOAuthIDP_def provider_key_def)
  from oauth_entries_backed [OF mem_atomic map_api_gauges life keeps new_collector_map_wf empty p] p
  show ?thesis by (simp add: Let_def)
qed

text \<open>
  C34: If an update can be applied and still return an error, the finalizer protocol fails for this
  controller. The reconciler takes its finalizer away before it withdraws the
  entry; if that update is applied but its response is lost, the API server removes the object,
  the retry finds no object and ends without an error, and the entry of the object that no
  longer exists stays, to be counted in every later round.
\<close>

theorem oauth_report_outlives_object:
  assumes "m_Finalizers (oauth_meta obj) = [oauth_finalizer]"
    and "\<not> IsZero (m_DeletionTimestamp (oauth_meta obj))"
    and "key_of (oauth_meta obj) = req"
  shows "OAuthReconcile (timeout_client oauth_meta) req [obj] a =
      (Returned empty_Result (Some (LibError Mem_Timeout)), [], a)
    \<and> mem_stored oauth_meta [] req = None
    \<and> OAuthReconcile (timeout_client oauth_meta) req [] a = (Returned empty_Result None, [], a)"
  using assms
  by (simp add: OAuthReconcile_def timeout_client_def mem_client_def mem_stored_def mem_put_def doomed_def)

theorem oauth_report_outlives_object_witness:
  "OAuthReconcile (timeout_client oauth_meta) oauth_key [ldap_oauth [oauth_finalizer] (Some 1)]
      (SetOAuthIDP ''cluster'' '''' [\<lparr>idp_Type = ''LDAP''\<rparr>] (new_collector map_api Minute)) =
      (Returned empty_Result (Some (LibError Mem_Timeout)), [],
       SetOAuthIDP ''cluster'' '''' [\<lparr>idp_Type = ''LDAP''\<rparr>] (new_collector map_api Minute))"
proof -
  have "m_Finalizers (oauth_meta (ldap_oauth [oauth_finalizer] (Some 1))) = [oauth_finalizer]"
    "\<not> IsZero (m_DeletionTimestamp (oauth_meta (ldap_oauth [oauth_finalizer] (Some 1))))"
    by (simp_all add: ldap_oauth_def IsZero_def)
  from oauth_report_outlives_object [OF this key_ldap_oauth] show ?thesis by blast
qed

end
