(* ===== verification/ClusterRole_Controller.thy ===== *)
theory ClusterRole_Controller
  imports Finalizer_Protocol
begin

section \<open>The cluster role controller (\<open>controllers/clusterrole\<close>)\<close>

text \<open>
  A deprecated controller: it only takes the finalizer that earlier versions put on the cluster
  role \<open>cluster-admin\<close> away.
\<close>

definition clusterrole_finalizer :: string where
  "clusterrole_finalizer = ''osd-metrics-exporter/finalizer''"

definition clusterAdminName :: string where
  "clusterAdminName = ''cluster-admin''"

record ClusterRole =
  role_meta :: object_meta

definition set_role_finalizers :: "string list \<Rightarrow> ClusterRole \<Rightarrow> ClusterRole" where
  "set_role_finalizers fs obj = obj\<lparr>role_meta := (role_meta obj)\<lparr>m_Finalizers := fs\<rparr>\<rparr>"

definition ClusterRoleReconcile :: "('w, ClusterRole, 'e) client \<Rightarrow> NamespacedName
    \<Rightarrow> 'w \<Rightarrow> 'e outcome \<times> 'w" where
  "ClusterRoleReconcile k req w =
     (case Get k w req of
       Inl err \<Rightarrow>
         if IsNotFound k err then (Returned empty_Result None, w)
         else (Returned empty_Result (Some (LibError err)), w)
     | Inr obj \<Rightarrow>
         if m_Name (role_meta obj) \<noteq> clusterAdminName then
           (Returned empty_Result
              (Some (Errorf (''received unknown cluster role: '' @ m_Name (role_meta obj)))), w)
         else if ContainsString (m_Finalizers (role_meta obj)) clusterrole_finalizer then
           (case Update k w (set_role_finalizers
                (RemoveFinalizer k (m_Finalizers (role_meta obj)) clusterrole_finalizer) obj) of
             (Inl err, w) \<Rightarrow> (Returned empty_Result (Some (LibError err)), w)
           | (Inr _, w) \<Rightarrow> (Returned empty_Result None, w))
         else (Returned empty_Result None, w))"

definition ClusterRoleFilter :: Funcs where
  "ClusterRoleFilter = \<lparr>
     CreateFunc = (\<lambda>m. m_Name m = clusterAdminName),
     DeleteFunc = (\<lambda>m. m_Name m = clusterAdminName),
     UpdateFunc = (\<lambda>old new. m_Name new = clusterAdminName),
     GenericFunc = (\<lambda>m. m_Name m = clusterAdminName)\<rparr>"

lemma clusterrole_filter_exact:
  "admits ClusterRoleFilter evt \<longleftrightarrow> m_Name (event_object evt) = clusterAdminName"
  by (cases evt) (auto simp: ClusterRoleFilter_def)

lemma set_role_finalizers_simps [simp]:
  "m_Finalizers (role_meta (set_role_finalizers fs obj)) = fs"
  "m_DeletionTimestamp (role_meta (set_role_finalizers fs obj)) = m_DeletionTimestamp (role_meta obj)"
  "key_of (role_meta (set_role_finalizers fs obj)) = key_of (role_meta obj)"
  by (simp_all add: set_role_finalizers_def key_of_def)

text \<open>
  What a reconcile does, by the answer of the API server; after a reconcile that returns no error
  the role does not carry the finalizer, and its other finalizers are as before.
\<close>

lemma clusterrole_cases:
  assumes api: "api_server k role_meta stored"
    and run: "ClusterRoleReconcile k req w = (out, w')"
  shows "case Get k w req of
      Inl err \<Rightarrow> w' = w \<and> out = Returned empty_Result (if IsNotFound k err then None else Some (LibError err))
    | Inr obj \<Rightarrow>
        if m_Name (role_meta obj) \<noteq> clusterAdminName
        then w' = w \<and> (\<exists>msg. out = Returned empty_Result (Some (Errorf msg)))
        else (\<exists>err obj'. out = Returned empty_Result (Some (LibError err)) \<and> Update k w obj' = (Inl err, w')) \<or>
          out = Returned empty_Result None
          \<and> (\<forall>key. key \<noteq> req \<longrightarrow> stored w' key = stored w key)
          \<and> (case stored w' req of
               None \<Rightarrow> \<not> IsZero (m_DeletionTimestamp (role_meta obj))
                 \<and> set (m_Finalizers (role_meta obj)) = {clusterrole_finalizer}
             | Some obj' \<Rightarrow> set (m_Finalizers (role_meta obj')) =
                 set (m_Finalizers (role_meta obj)) - {clusterrole_finalizer})"
proof (cases "Get k w req")
  case (Inl err)
  then show ?thesis using run by (auto simp: ClusterRoleReconcile_def split: if_splits)
next
  case (Inr obj)
  have stored: "stored w req = Some obj" and key: "key_of (role_meta obj) = req"
    using api_server.get_found [OF api Inr] api_server.stored_key [OF api] by auto
  have last: "set fs \<subseteq> {f}" if "RemoveFinalizer k fs f = []" for fs f
    using api_server.remove_finalizer [OF api, of fs f] that by auto
  show ?thesis
    using run Inr stored key api_server.update_done [OF api, of w _ _ w']
      api_server.update_response [OF api, of w _ _ w'] api_server.remove_finalizer [OF api]
    by (auto simp: ClusterRoleReconcile_def doomed_def dest!: last
        split: if_splits prod.splits sum.splits)
qed

subsection \<open>Properties\<close>

definition admin_role :: ClusterRole where
  "admin_role = \<lparr>role_meta = \<lparr>m_Name = clusterAdminName, m_Namespace = '''',
     m_Finalizers = [clusterrole_finalizer, ''other''], m_DeletionTimestamp = None\<rparr>\<rparr>"

text \<open>
  For the role cluster-admin, a reconcile either reports a failed update or takes the finalizer
  of earlier versions off the stored role, keeps its other finalizers and touches no other role; the role
  goes away only if it was being deleted and this was its last finalizer. For any other role the
  reconcile changes nothing and reports an error.
\<close>

theorem clusterrole_finalizer_removed:
  assumes "api_server k role_meta stored" and "Get k w req = Inr obj"
  shows "\<exists>out w'. ClusterRoleReconcile k req w = (out, w') \<and>
    (if m_Name (role_meta obj) \<noteq> clusterAdminName
     then w' = w \<and> (\<exists>msg. out = Returned empty_Result (Some (Errorf msg)))
     else (\<exists>err obj'. out = Returned empty_Result (Some (LibError err)) \<and> Update k w obj' = (Inl err, w')) \<or>
       out = Returned empty_Result None
       \<and> (\<forall>key. key \<noteq> req \<longrightarrow> stored w' key = stored w key)
       \<and> (case stored w' req of
            None \<Rightarrow> \<not> IsZero (m_DeletionTimestamp (role_meta obj))
              \<and> set (m_Finalizers (role_meta obj)) = {clusterrole_finalizer}
          | Some obj' \<Rightarrow> set (m_Finalizers (role_meta obj')) =
              set (m_Finalizers (role_meta obj)) - {clusterrole_finalizer}))"
proof -
  obtain out w' where run: "ClusterRoleReconcile k req w = (out, w')" by (rule prod.exhaust)
  show ?thesis using clusterrole_cases [OF assms(1) run] assms(2) run by simp
qed

theorem clusterrole_finalizer_removed_witness:
  "\<exists>w'. ClusterRoleReconcile (mem_client role_meta) (key_of (role_meta admin_role)) [admin_role] =
      (Returned empty_Result None, w')
    \<and> (\<forall>obj'. mem_stored role_meta w' (key_of (role_meta admin_role)) = Some obj' \<longrightarrow>
         set (m_Finalizers (role_meta obj')) = {''other''})"
proof -
  have get: "Get (mem_client role_meta) [admin_role] (key_of (role_meta admin_role)) = Inr admin_role"
    by (simp add: mem_client_def mem_stored_def)
  have run: "fst (ClusterRoleReconcile (mem_client role_meta) (key_of (role_meta admin_role)) [admin_role])
      = Returned empty_Result None"
    by (simp add: ClusterRoleReconcile_def mem_client_def mem_stored_def) (simp add: admin_role_def)
  then obtain w' where w': "ClusterRoleReconcile (mem_client role_meta) (key_of (role_meta admin_role))
      [admin_role] = (Returned empty_Result None, w')"
    by (metis prod.collapse)
  have "m_Name (role_meta admin_role) = clusterAdminName"
    "set (m_Finalizers (role_meta admin_role)) - {clusterrole_finalizer} = {''other''}"
    by (auto simp: admin_role_def clusterrole_finalizer_def)
  with clusterrole_finalizer_removed [OF mem_api get] w'
  have "case mem_stored role_meta w' (key_of (role_meta admin_role)) of
      None \<Rightarrow> True | Some obj' \<Rightarrow> set (m_Finalizers (role_meta obj')) = {''other''}"
    by (simp split: option.splits)
  then show ?thesis using w' by (auto split: option.splits)
qed

end
