(* ===== verification/LimitedSupport_Controller.thy ===== *)
theory LimitedSupport_Controller
  imports Controller_Utils Aggregator_Properties
begin

section \<open>The limited support controller (\<open>controllers/limited_support\<close>)\<close>

text \<open>
  Limited support is in force while the config map \<open>openshift-osd-metrics/limited-support\<close>
  exists; its contents do not matter, so the type of config maps is a type variable.
\<close>

definition limitedSupportConfigMapName :: string where
  "limitedSupportConfigMapName = ''limited-support''"

definition limitedSupportConfigMapNamespace :: string where
  "limitedSupportConfigMapNamespace = ''openshift-osd-metrics''"

definition limitedSupportName :: string where "limitedSupportName = ''controller_limited_support''"

definition limited_support_key :: NamespacedName where
  "limited_support_key = \<lparr>nn_Namespace = limitedSupportConfigMapNamespace,
     nn_Name = limitedSupportConfigMapName\<rparr>"

definition LimitedSupportReconcile :: "('w, 'cm, 'e) client \<Rightarrow> 'g gauge_api \<Rightarrow> string \<Rightarrow> NamespacedName
    \<Rightarrow> 'w \<Rightarrow> 'g AdoptionMetricsAggregator \<Rightarrow> 'e outcome \<times> 'w \<times> 'g AdoptionMetricsAggregator" where
  "LimitedSupportReconcile k pv clusterId req w a =
     (case Get k w limited_support_key of
       Inl err \<Rightarrow>
         if IsNotFound k err then
           after_call (SetLimitedSupport pv clusterId False a) w
             (\<lambda>a. (Returned empty_Result None, w, a))
         else (Returned empty_Result (Some (LibError err)), w, a)
     | Inr cfgMap \<Rightarrow>
         after_call (SetLimitedSupport pv clusterId True a) w
           (\<lambda>a. (Returned empty_Result None, w, a)))"

definition LimitedSupportFilter :: Funcs where
  "LimitedSupportFilter = \<lparr>
     CreateFunc = (\<lambda>m. m_Name m = limitedSupportConfigMapName
       \<and> m_Namespace m = limitedSupportConfigMapNamespace),
     DeleteFunc = (\<lambda>m. m_Name m = limitedSupportConfigMapName
       \<and> m_Namespace m = limitedSupportConfigMapNamespace),
     UpdateFunc = (\<lambda>old new. m_Name new = limitedSupportConfigMapName
       \<and> m_Namespace new = limitedSupportConfigMapNamespace),
     GenericFunc = (\<lambda>m. m_Name m = limitedSupportConfigMapName
       \<and> m_Namespace m = limitedSupportConfigMapNamespace)\<rparr>"

lemma limited_support_cases:
  assumes "gauge_vec pv" "ValidString clusterId" "agg_wf pv a"
  shows "\<exists>out a'. LimitedSupportReconcile k pv clusterId req w a = (out, w, a') \<and> agg_wf pv a'
    \<and> same_maps a a' \<and>
    (case Get k w limited_support_key of
      Inr _ \<Rightarrow> out = Returned empty_Result None
        \<and> exported pv a' = expo_set Limited_Support_Enabled [clusterId] 1 (exported pv a)
    | Inl err \<Rightarrow>
        if IsNotFound k err then out = Returned empty_Result None
          \<and> exported pv a' = expo_set Limited_Support_Enabled [clusterId] 0 (exported pv a)
        else out = Returned empty_Result (Some (LibError err)) \<and> a' = a)"
  using SetLimitedSupport_reports [OF assms, of True] SetLimitedSupport_reports [OF assms, of False]
    assms(3)
  by (auto simp: LimitedSupportReconcile_def split: sum.splits elim!: reportsE)

subsection \<open>Properties\<close>

text \<open>
  A reconcile sets the limited-support flag to whether the config map exists, finishes
  without an error and changes no other metric; if the API server cannot tell, it reports the
  error and changes nothing. It never panics.
\<close>

theorem limited_support_follows_config_map:
  assumes "gauge_vec pv" and "ValidString clusterId" and "agg_wf pv a"
  shows "\<exists>out a'. LimitedSupportReconcile k pv clusterId req w a = (out, w, a') \<and> agg_wf pv a' \<and>
    (case Get k w limited_support_key of
      Inr _ \<Rightarrow> out = Returned empty_Result None
        \<and> exported pv a' = expo_set Limited_Support_Enabled [clusterId] 1 (exported pv a)
    | Inl err \<Rightarrow>
        if IsNotFound k err then out = Returned empty_Result None
          \<and> exported pv a' = expo_set Limited_Support_Enabled [clusterId] 0 (exported pv a)
        else out = Returned empty_Result (Some (LibError err)) \<and> a' = a)"
  using limited_support_cases [OF assms, of k req w] by blast

theorem limited_support_follows_config_map_witness:
  "\<exists>a'. LimitedSupportReconcile (mem_client id) map_api ''c1'' limited_support_key
      [\<lparr>m_Name = limitedSupportConfigMapName, m_Namespace = limitedSupportConfigMapNamespace,
        m_Finalizers = [], m_DeletionTimestamp = None\<rparr>] (new_collector map_api Minute) =
      (Returned empty_Result None,
       [\<lparr>m_Name = limitedSupportConfigMapName, m_Namespace = limitedSupportConfigMapNamespace,
        m_Finalizers = [], m_DeletionTimestamp = None\<rparr>], a')
    \<and> exported map_api a' Limited_Support_Enabled [''c1''] = Some 1"
proof -
  have "ValidString ''c1''" by (simp add: byte_def)
  from limited_support_follows_config_map [OF map_api_gauges this new_collector_map_wf [of Minute],
      where k = "mem_client id" and req = limited_support_key and w = "[\<lparr>m_Name = limitedSupportConfigMapName,
        m_Namespace = limitedSupportConfigMapNamespace, m_Finalizers = [], m_DeletionTimestamp = None\<rparr>]"]
  show ?thesis
    by (auto simp: mem_client_def mem_stored_def key_of_def limited_support_key_def expo_set_def)
qed

text \<open>The work queue hears of exactly the events of the object that the reconciler reads.\<close>

lemma limited_support_filter_exact:
  "admits LimitedSupportFilter evt \<longleftrightarrow> key_of (event_object evt) = limited_support_key"
  by (cases evt) (auto simp: LimitedSupportFilter_def key_of_def limited_support_key_def)

end
