(* ===== verification/Proxy_Controller.thy ===== *)
theory Proxy_Controller
  imports Controller_Utils Aggregator_Properties
begin

section \<open>The proxy controller (\<open>controllers/proxy\<close>)\<close>

text \<open>
  The controller exports the cluster id and the state of the cluster-wide proxy. The labels of
  the proxy series tell which of the HTTP proxy, the HTTPS proxy and the trusted CA are set.
\<close>

record Proxy =
  status_HTTPProxy :: string
  status_HTTPSProxy :: string
  spec_TrustedCA_Name :: string

definition ProxyReconcile :: "('w, Proxy, 'e) client \<Rightarrow> 'g gauge_api \<Rightarrow> string \<Rightarrow> NamespacedName
    \<Rightarrow> 'w \<Rightarrow> 'g AdoptionMetricsAggregator \<Rightarrow> 'e outcome \<times> 'w \<times> 'g AdoptionMetricsAggregator" where
  "ProxyReconcile k pv clusterId req w a =
     after_call (SetClusterID pv clusterId a) w
       (\<lambda>a. case Get k w req of
         Inl err \<Rightarrow>
           if IsNotFound k err then (Returned empty_Result None, w, a)
           else (Returned empty_Result (Some (LibError err)), w, a)
       | Inr obj \<Rightarrow>
           (let (proxyHTTP, proxyEnabled) =
                  (if status_HTTPProxy obj \<noteq> '''' then (''1'', 1) else (''0'', 0));
                (proxyHTTPS, proxyEnabled) =
                  (if status_HTTPSProxy obj \<noteq> '''' then (''1'', 1) else (''0'', proxyEnabled));
                proxyTrustedCA = (if spec_TrustedCA_Name obj \<noteq> '''' then ''1'' else ''0'')
            in after_call
                 (SetClusterProxy pv clusterId proxyHTTP proxyHTTPS proxyTrustedCA proxyEnabled a) w
                 (\<lambda>a. (Returned empty_Result None, w, a))))"

text \<open>The series a proxy stands for.\<close>

definition flag_label :: "bool \<Rightarrow> string" where
  "flag_label b = (if b then ''1'' else ''0'')"

definition proxy_key :: "string \<Rightarrow> Proxy \<Rightarrow> string list" where
  "proxy_key clusterId obj =
     [clusterId, flag_label (status_HTTPProxy obj \<noteq> ''''), flag_label (status_HTTPSProxy obj \<noteq> ''''),
      flag_label (spec_TrustedCA_Name obj \<noteq> '''')]"

definition proxy_value :: "Proxy \<Rightarrow> int" where
  "proxy_value obj = of_bool (status_HTTPProxy obj \<noteq> '''' \<or> status_HTTPSProxy obj \<noteq> '''')"

lemma flag_label_valid: "ValidString (flag_label b)"
  by (auto simp: flag_label_def byte_def)

lemma proxy_cases:
  assumes pv: "gauge_vec pv" and u: "ValidString clusterId" and wf: "agg_wf pv a"
  shows "\<exists>out a'. ProxyReconcile k pv clusterId req w a = (out, w, a') \<and> agg_wf pv a'
    \<and> same_maps a a' \<and>
    (case Get k w req of
      Inl err \<Rightarrow> out = Returned empty_Result (if IsNotFound k err then None else Some (LibError err))
        \<and> exported pv a' = expo_set Cluster_ID [clusterId] 1 (exported pv a)
    | Inr obj \<Rightarrow> out = Returned empty_Result None
        \<and> exported pv a' = expo_set Cluster_Proxy (proxy_key clusterId obj) (proxy_value obj)
            (expo_set Cluster_ID [clusterId] 1 (exported pv a)))"
proof -
  obtain a1 where a1: "SetClusterID pv clusterId a = Ok a1" "agg_wf pv a1" "same_maps a a1"
      "exported pv a1 = expo_set Cluster_ID [clusterId] 1 (exported pv a)"
    using SetClusterID_reports [OF pv u wf] by (rule reportsE)
  show ?thesis
  proof (cases "Get k w req")
    case (Inl err)
    then show ?thesis using a1 by (auto simp: ProxyReconcile_def)
  next
    case (Inr obj)
    let ?h = "status_HTTPProxy obj \<noteq> ''''" and ?s = "status_HTTPSProxy obj \<noteq> ''''"
      and ?c = "spec_TrustedCA_Name obj \<noteq> ''''"
    have valid: "list_all ValidString [clusterId, flag_label ?h, flag_label ?s, flag_label ?c]"
      using u by (simp add: flag_label_valid)
    obtain a2 where a2: "SetClusterProxy pv clusterId (flag_label ?h) (flag_label ?s) (flag_label ?c)
          (proxy_value obj) a1 = Ok a2" "agg_wf pv a2" "same_maps a1 a2"
        "exported pv a2 = expo_set Cluster_Proxy (proxy_key clusterId obj) (float64 (proxy_value obj))
          (exported pv a1)"
      using SetClusterProxy_reports [OF pv valid a1(2), of "proxy_value obj"]
      unfolding proxy_key_def by (rule reportsE)
    have "float64 (proxy_value obj) = proxy_value obj"
      by (simp add: proxy_value_def)
    moreover have "ProxyReconcile k pv clusterId req w a =
        after_call (SetClusterProxy pv clusterId (flag_label ?h) (flag_label ?s) (flag_label ?c)
          (proxy_value obj) a1) w (\<lambda>a. (Returned empty_Result None, w, a))"
      using a1(1) Inr by (simp add: ProxyReconcile_def flag_label_def proxy_value_def)
    ultimately show ?thesis
      using Inr a1 a2 same_maps_trans [OF a1(3) a2(3)] by simp
  qed
qed

subsection \<open>Properties\<close>

text \<open>
  A reconcile always exports the cluster id. If the proxy object exists it exports one
  series whose labels tell which of the HTTP proxy, the HTTPS proxy and the trusted CA are set,
  with value 1 exactly if one of the two proxies is set; if not, or on an error, it changes no
  other metric. It never panics.
\<close>

theorem proxy_reports:
  assumes "gauge_vec pv" and "ValidString clusterId" and "agg_wf pv a"
  shows "\<exists>out a'. ProxyReconcile k pv clusterId req w a = (out, w, a') \<and> agg_wf pv a' \<and>
    (case Get k w req of
      Inl err \<Rightarrow> out = Returned empty_Result (if IsNotFound k err then None else Some (LibError err))
        \<and> exported pv a' = expo_set Cluster_ID [clusterId] 1 (exported pv a)
    | Inr obj \<Rightarrow> out = Returned empty_Result None
        \<and> exported pv a' = expo_set Cluster_Proxy
            [clusterId, if status_HTTPProxy obj \<noteq> '''' then ''1'' else ''0'',
             if status_HTTPSProxy obj \<noteq> '''' then ''1'' else ''0'',
             if spec_TrustedCA_Name obj \<noteq> '''' then ''1'' else ''0'']
            (of_bool (status_HTTPProxy obj \<noteq> '''' \<or> status_HTTPSProxy obj \<noteq> ''''))
            (expo_set Cluster_ID [clusterId] 1 (exported pv a)))"
  using proxy_cases [OF assms, of k req w]
  unfolding proxy_key_def flag_label_def proxy_value_def by blast

definition proxy_object_key :: NamespacedName where
  "proxy_object_key = \<lparr>nn_Namespace = '''', nn_Name = ''cluster''\<rparr>"

definition fixed_client :: "Proxy \<Rightarrow> (unit, Proxy, unit) client" where
  "fixed_client obj = \<lparr>Get = (\<lambda>w key. Inr obj), Update = (\<lambda>w obj. (Inr obj, w)),
     IsNotFound = (\<lambda>e. True), AddFinalizer = (\<lambda>fs f. f # fs), RemoveFinalizer = (\<lambda>fs f. removeAll f fs)\<rparr>"

theorem proxy_reports_witness:
  "\<exists>a'. ProxyReconcile (fixed_client \<lparr>status_HTTPProxy = '''', status_HTTPSProxy = ''https://p'',
        spec_TrustedCA_Name = ''''\<rparr>) map_api ''c1'' proxy_object_key () (new_collector map_api Minute) =
        (Returned empty_Result None, (), a')
     \<and> exported map_api a' Cluster_Proxy [''c1'', ''0'', ''1'', ''0''] = Some 1"
proof -
  have "ValidString ''c1''" by (simp add: byte_def)
  from proxy_reports [OF map_api_gauges this new_collector_map_wf [of Minute],
      where k = "fixed_client \<lparr>status_HTTPProxy = '''', status_HTTPSProxy = ''https://p'',
        spec_TrustedCA_Name = ''''\<rparr>" and req = proxy_object_key and w = "()"]
  show ?thesis by (auto simp: fixed_client_def expo_set_def)
qed

text \<open>
  C36: When the proxy changes, the series of the old configuration stays beside the new one, with
  its old value: after reconciles of two configurations that differ in their labels, both series
  are exported.
\<close>

theorem proxy_old_series_stays:
  assumes "gauge_vec pv" and "ValidString clusterId" and "agg_wf pv a"
    and "Get k w req = Inr old" and "Get k w' req = Inr new"
    and "proxy_key clusterId old \<noteq> proxy_key clusterId new"
  shows "\<exists>a1 a2. ProxyReconcile k pv clusterId req w a = (Returned empty_Result None, w, a1)
    \<and> ProxyReconcile k pv clusterId req w' a1 = (Returned empty_Result None, w', a2)
    \<and> exported pv a2 Cluster_Proxy (proxy_key clusterId old) = Some (proxy_value old)
    \<and> exported pv a2 Cluster_Proxy (proxy_key clusterId new) = Some (proxy_value new)"
proof -
  obtain a1 where a1: "ProxyReconcile k pv clusterId req w a = (Returned empty_Result None, w, a1)"
      "agg_wf pv a1" "exported pv a1 = expo_set Cluster_Proxy (proxy_key clusterId old) (proxy_value old)
        (expo_set Cluster_ID [clusterId] 1 (exported pv a))"
    using proxy_cases [OF assms(1-3), of k req w] assms(4) by auto
  obtain a2 where a2: "ProxyReconcile k pv clusterId req w' a1 = (Returned empty_Result None, w', a2)"
      "exported pv a2 = expo_set Cluster_Proxy (proxy_key clusterId new) (proxy_value new)
        (expo_set Cluster_ID [clusterId] 1 (exported pv a1))"
    using proxy_cases [OF assms(1,2) a1(2), of k req w'] assms(5) by auto
  show ?thesis using a1 a2 assms(6) by (auto simp: expo_set_def)
qed

definition switched_client :: "(bool, Proxy, unit) client" where
  "switched_client = \<lparr>
     Get = (\<lambda>w key. Inr \<lparr>status_HTTPProxy = if w then ''http://p'' else '''',
       status_HTTPSProxy = '''', spec_TrustedCA_Name = ''''\<rparr>),
     Update = (\<lambda>w obj. (Inr obj, w)), IsNotFound = (\<lambda>e. True),
     AddFinalizer = (\<lambda>fs f. f # fs), RemoveFinalizer = (\<lambda>fs f. removeAll f fs)\<rparr>"

theorem proxy_old_series_stays_witness:
  "\<exists>a1 a2. ProxyReconcile switched_client map_api ''c1'' proxy_object_key True (new_collector map_api Minute) =
      (Returned empty_Result None, True, a1)
    \<and> ProxyReconcile switched_client map_api ''c1'' proxy_object_key False a1 = (Returned empty_Result None, False, a2)
    \<and> exported map_api a2 Cluster_Proxy [''c1'', ''1'', ''0'', ''0''] = Some 1
    \<and> exported map_api a2 Cluster_Proxy [''c1'', ''0'', ''0'', ''0''] = Some 0"
proof -
  have u: "ValidString ''c1''" by (simp add: byte_def)
  let ?on = "\<lparr>status_HTTPProxy = ''http://p'', status_HTTPSProxy = '''', spec_TrustedCA_Name = ''''\<rparr>"
  let ?off = "\<lparr>status_HTTPProxy = '''', status_HTTPSProxy = '''', spec_TrustedCA_Name = ''''\<rparr>"
  have get: "Get switched_client True proxy_object_key = Inr ?on" "Get switched_client False proxy_object_key = Inr ?off"
    by (simp_all add: switched_client_def)
  have "proxy_key ''c1'' ?on \<noteq> proxy_key ''c1'' ?off"
    by (simp add: proxy_key_def flag_label_def)
  from proxy_old_series_stays [OF map_api_gauges u new_collector_map_wf [of Minute] get this]
  show ?thesis by (simp add: proxy_key_def flag_label_def proxy_value_def)
qed

end
