(* ===== verification/ConfigMap_Controller.thy ===== *)
theory ConfigMap_Controller
  imports Controller_Utils Aggregator_Properties
begin

section \<open>The trusted CA controller (\<open>controllers/configmap\<close>)\<close>

text \<open>
  The controller exports the expiry of every certificate of the user CA bundle, and whether the
  bundle parses. Parsing the bundle is a function of the cluster network operator; it and the
  two names that the program takes from there are parameters, as is the text of an error.
\<close>

definition userCABundleConfigMapName :: string where
  "userCABundleConfigMapName = ''user-ca-bundle''"

text \<open>What the loop reads of an \<open>x509.Certificate\<close>: \<open>Subject.String()\<close> and \<open>NotAfter\<close>.\<close>

record Certificate =
  cert_Subject :: string
  cert_NotAfter :: instant

record ('cm, 'e) cluster_network_operator =
  ADDL_TRUST_BUNDLE_CONFIGMAP_NS :: string
  TRUSTED_CA_BUNDLE_CONFIGMAP_KEY :: string
  TrustBundleConfigMap :: "'cm \<Rightarrow> string \<Rightarrow> 'e + Certificate list"
  Error_text :: "'e \<Rightarrow> string"

definition ca_bundle_key :: "('cm, 'e) cluster_network_operator \<Rightarrow> NamespacedName" where
  "ca_bundle_key cno = \<lparr>nn_Namespace = ADDL_TRUST_BUNDLE_CONFIGMAP_NS cno,
     nn_Name = userCABundleConfigMapName\<rparr>"

definition report_certificate :: "'g gauge_api \<Rightarrow> string \<Rightarrow> Certificate
    \<Rightarrow> 'g AdoptionMetricsAggregator \<Rightarrow> 'g AdoptionMetricsAggregator exec" where
  "report_certificate pv clusterId cert a =
     exec_bind
       (SetClusterProxyCAExpiry pv clusterId (cert_Subject cert) (Unix (cert_NotAfter cert)) a)
       (SetClusterProxyCAValid pv clusterId True)"

definition ConfigMapReconcile :: "('w, 'cm, 'e) client \<Rightarrow> ('cm, 'e) cluster_network_operator
    \<Rightarrow> 'g gauge_api \<Rightarrow> string \<Rightarrow> NamespacedName
    \<Rightarrow> 'w \<Rightarrow> 'g AdoptionMetricsAggregator \<Rightarrow> 'e outcome \<times> 'w \<times> 'g AdoptionMetricsAggregator" where
  "ConfigMapReconcile k cno pv clusterId req w a =
     (let a = ResetClusterProxyCAExpiry pv a;
          a = ResetClusterProxyCAValid pv a in
      case Get k w (ca_bundle_key cno) of
        Inl err \<Rightarrow>
          if IsNotFound k err then (Returned empty_Result None, w, a)
          else (Returned empty_Result (Some (LibError err)), w, a)
      | Inr cfgMap \<Rightarrow>
          (case TrustBundleConfigMap cno cfgMap (TRUSTED_CA_BUNDLE_CONFIGMAP_KEY cno) of
            Inl err \<Rightarrow>
              if strings_Contains (Error_text cno err) ''failed parsing certificate'' then
                after_call (SetClusterProxyCAValid pv clusterId False a) w
                  (\<lambda>a. (Returned empty_Result None, w, a))
              else (Returned empty_Result (Some (LibError err)), w, a)
          | Inr certBundle \<Rightarrow>
              if length certBundle = 0 then (Returned empty_Result None, w, a)
              else after_call (range_exec (report_certificate pv clusterId) certBundle a) w
                (\<lambda>a. (Returned empty_Result None, w, a))))"

definition ConfigMapFilter :: "('cm, 'e) cluster_network_operator \<Rightarrow> Funcs" where
  "ConfigMapFilter cno = \<lparr>
     CreateFunc = (\<lambda>m. m_Name m = userCABundleConfigMapName
       \<and> m_Namespace m = ADDL_TRUST_BUNDLE_CONFIGMAP_NS cno),
     DeleteFunc = (\<lambda>m. m_Name m = userCABundleConfigMapName
       \<and> m_Namespace m = ADDL_TRUST_BUNDLE_CONFIGMAP_NS cno),
     UpdateFunc = (\<lambda>old new. m_Name new = userCABundleConfigMapName
       \<and> m_Namespace new = ADDL_TRUST_BUNDLE_CONFIGMAP_NS cno),
     GenericFunc = (\<lambda>m. m_Name m = userCABundleConfigMapName
       \<and> m_Namespace m = ADDL_TRUST_BUNDLE_CONFIGMAP_NS cno)\<rparr>"

lemma configmap_filter_exact:
  "admits (ConfigMapFilter cno) evt \<longleftrightarrow> key_of (event_object evt) = ca_bundle_key cno"
  by (cases evt) (auto simp: ConfigMapFilter_def key_of_def ca_bundle_key_def)

subsection \<open>The series of a bundle\<close>

text \<open>Certificates with the same subject share a series; the last one in the bundle wins.\<close>

definition expiry_series :: "string \<Rightarrow> Certificate list \<Rightarrow> string list \<Rightarrow> int option" where
  "expiry_series clusterId certs =
     map_of (rev (map (\<lambda>c. ([clusterId, cert_Subject c], float64 (Unix (cert_NotAfter c)))) certs))"

definition expo_ca :: "(string list \<Rightarrow> int option) \<Rightarrow> (string list \<Rightarrow> int option) \<Rightarrow> exposition \<Rightarrow> exposition" where
  "expo_ca expiry valid e = e(Cluster_Proxy_CA_Expiry := expiry, Cluster_Proxy_CA_Valid := valid)"

declare expo_ca_def [expo_simps]

lemma expiry_series_snoc:
  "expiry_series u (certs @ [c]) =
     (expiry_series u certs)([u, cert_Subject c] \<mapsto> float64 (Unix (cert_NotAfter c)))"
  by (simp add: expiry_series_def)

lemma certificate_loop:
  assumes pv: "gauge_vec pv" and u: "ValidString clusterId" and wf: "agg_wf pv a"
    and subjects: "list_all (\<lambda>c. ValidString (cert_Subject c)) certs"
    and empty: "exported pv a = expo_ca Map.empty Map.empty e"
  shows "\<exists>a'. range_exec (report_certificate pv clusterId) certs a = Ok a' \<and> agg_wf pv a' \<and> same_maps a a'
    \<and> exported pv a' = expo_ca (expiry_series clusterId certs)
        (if certs = [] then Map.empty else [[clusterId] \<mapsto> 1]) e"
proof (rule range_exec_invariant [where I = "\<lambda>seen s. agg_wf pv s \<and> same_maps a s
      \<and> exported pv s = expo_ca (expiry_series clusterId seen)
          (if seen = [] then Map.empty else [[clusterId] \<mapsto> 1]) e"])
  fix c seen s assume c: "c \<in> set certs" and I: "agg_wf pv s \<and> same_maps a s
      \<and> exported pv s = expo_ca (expiry_series clusterId seen)
          (if seen = [] then Map.empty else [[clusterId] \<mapsto> 1]) e"
  have subj: "ValidString (cert_Subject c)" using c subjects by (simp add: list_all_iff)
  have "reports pv (report_certificate pv clusterId c s)
      (expo_set Cluster_Proxy_CA_Valid [clusterId] 1 \<circ>
       expo_set Cluster_Proxy_CA_Expiry [clusterId, cert_Subject c] (float64 (Unix (cert_NotAfter c)))) s"
    unfolding report_certificate_def
    using SetClusterProxyCAExpiry_reports [OF pv u subj] SetClusterProxyCAValid_reports [OF pv u, of _ True] I
    by (intro reports_bind) auto
  then show "\<exists>s'. report_certificate pv clusterId c s = Ok s' \<and> agg_wf pv s' \<and> same_maps a s'
      \<and> exported pv s' = expo_ca (expiry_series clusterId (seen @ [c]))
          (if seen @ [c] = [] then Map.empty else [[clusterId] \<mapsto> 1]) e"
    using I by (auto simp: expo_ca_def expo_set_def expiry_series_snoc fun_eq_iff
        elim!: reportsE intro: same_maps_trans)
next
  show "agg_wf pv a \<and> same_maps a a \<and> exported pv a = expo_ca (expiry_series clusterId [])
      (if [] = [] then Map.empty else [[clusterId] \<mapsto> 1]) e"
    using wf empty by (simp add: expiry_series_def)
qed

lemma configmap_cases:
  assumes pv: "gauge_vec pv" and u: "ValidString clusterId" and wf: "agg_wf pv a"
    and subjects: "\<And>cm certs. TrustBundleConfigMap cno cm (TRUSTED_CA_BUNDLE_CONFIGMAP_KEY cno) = Inr certs \<Longrightarrow>
      list_all (\<lambda>c. ValidString (cert_Subject c)) certs"
  shows "\<exists>out a' expiry valid. ConfigMapReconcile k cno pv clusterId req w a = (out, w, a')
    \<and> agg_wf pv a' \<and> same_maps a a' \<and> exported pv a' = expo_ca expiry valid (exported pv a) \<and>
    (case Get k w (ca_bundle_key cno) of
      Inl err \<Rightarrow> out = Returned empty_Result (if IsNotFound k err then None else Some (LibError err))
        \<and> expiry = Map.empty \<and> valid = Map.empty
    | Inr cfgMap \<Rightarrow>
        (case TrustBundleConfigMap cno cfgMap (TRUSTED_CA_BUNDLE_CONFIGMAP_KEY cno) of
          Inl err \<Rightarrow> expiry = Map.empty \<and>
            (if strings_Contains (Error_text cno err) ''failed parsing certificate''
             then out = Returned empty_Result None \<and> valid = [[clusterId] \<mapsto> 0]
             else out = Returned empty_Result (Some (LibError err)) \<and> valid = Map.empty)
        | Inr certs \<Rightarrow> out = Returned empty_Result None \<and> expiry = expiry_series clusterId certs
            \<and> valid = (if certs = [] then Map.empty else [[clusterId] \<mapsto> 1])))"
proof -
  let ?r = "ResetClusterProxyCAValid pv (ResetClusterProxyCAExpiry pv a)"
  let ?e = "exported pv a"
  have r: "agg_wf pv ?r" "same_maps a ?r" "exported pv ?r = expo_ca Map.empty Map.empty ?e"
    using ResetClusterProxyCAExpiry_reports [OF pv wf]
      ResetClusterProxyCAValid_reports [OF pv, of "ResetClusterProxyCAExpiry pv a"]
    by (auto simp: expo_ca_def expo_clear_def elim!: reportsE intro: same_maps_trans)
  show ?thesis
  proof (cases "Get k w (ca_bundle_key cno)")
    case (Inl err)
    then show ?thesis using r by (auto simp: ConfigMapReconcile_def Let_def)
  next
    case cm: (Inr cfgMap)
    show ?thesis
    proof (cases "TrustBundleConfigMap cno cfgMap (TRUSTED_CA_BUNDLE_CONFIGMAP_KEY cno)")
      case (Inl err)
      obtain a1 where "SetClusterProxyCAValid pv clusterId False ?r = Ok a1" "agg_wf pv a1"
          "same_maps ?r a1" "exported pv a1 = expo_set Cluster_Proxy_CA_Valid [clusterId] 0 (exported pv ?r)"
        using SetClusterProxyCAValid_reports [OF pv u r(1), of False] by (auto elim: reportsE)
      then show ?thesis using cm Inl r same_maps_trans [OF r(2), of a1]
        by (auto simp: ConfigMapReconcile_def Let_def expo_ca_def expo_set_def)
    next
      case (Inr certs)
      from certificate_loop [OF pv u r(1) subjects [OF Inr] r(3)]
      show ?thesis using cm Inr r same_maps_trans [OF r(2)]
        by (auto simp: ConfigMapReconcile_def Let_def)
    qed
  qed
qed

subsection \<open>Properties\<close>

text \<open>\<open>Subject.String()\<close> builds its result from runes, so it is valid UTF-8.\<close>

definition valid_subjects :: "('cm, 'e) cluster_network_operator \<Rightarrow> bool" where
  "valid_subjects cno \<longleftrightarrow> (\<forall>cm certs.
     TrustBundleConfigMap cno cm (TRUSTED_CA_BUNDLE_CONFIGMAP_KEY cno) = Inr certs \<longrightarrow>
     list_all (\<lambda>c. ValidString (cert_Subject c)) certs)"

lemma configmap_report:
  assumes "gauge_vec pv" and "ValidString clusterId" and "agg_wf pv a" and "valid_subjects cno"
  shows "\<exists>out a' expiry valid. ConfigMapReconcile k cno pv clusterId req w a = (out, w, a')
    \<and> agg_wf pv a' \<and> same_maps a a' \<and> exported pv a' = expo_ca expiry valid (exported pv a) \<and>
    (case Get k w (ca_bundle_key cno) of
      Inl err \<Rightarrow> out = Returned empty_Result (if IsNotFound k err then None else Some (LibError err))
        \<and> expiry = Map.empty \<and> valid = Map.empty
    | Inr cfgMap \<Rightarrow>
        (case TrustBundleConfigMap cno cfgMap (TRUSTED_CA_BUNDLE_CONFIGMAP_KEY cno) of
          Inl err \<Rightarrow> expiry = Map.empty \<and>
            (if strings_Contains (Error_text cno err) ''failed parsing certificate''
             then out = Returned empty_Result None \<and> valid = [[clusterId] \<mapsto> 0]
             else out = Returned empty_Result (Some (LibError err)) \<and> valid = Map.empty)
        | Inr certs \<Rightarrow> out = Returned empty_Result None \<and> expiry = expiry_series clusterId certs
            \<and> valid = (if certs = [] then Map.empty else [[clusterId] \<mapsto> 1])))"
proof (rule configmap_cases [OF assms(1-3)])
  show "list_all (\<lambda>c. ValidString (cert_Subject c)) certs"
    if "TrustBundleConfigMap cno cm (TRUSTED_CA_BUNDLE_CONFIGMAP_KEY cno) = Inr certs" for cm certs
    using assms(4) that by (simp add: valid_subjects_def)
qed

definition bundle_request :: NamespacedName where
  "bundle_request = \<lparr>nn_Namespace = ''openshift-config'', nn_Name = userCABundleConfigMapName\<rparr>"

definition one_cert_operator :: "(Certificate list, mem_error) cluster_network_operator" where
  "one_cert_operator = \<lparr>ADDL_TRUST_BUNDLE_CONFIGMAP_NS = ''openshift-config'',
     TRUSTED_CA_BUNDLE_CONFIGMAP_KEY = ''ca-bundle.crt'',
     TrustBundleConfigMap = (\<lambda>cm key. if list_all (\<lambda>c. ValidString (cert_Subject c)) cm then Inr cm else Inl Mem_Timeout),
     Error_text = (\<lambda>e. ''failed'')\<rparr>"

definition bundle_client :: "(Certificate list, Certificate list, mem_error) client" where
  "bundle_client = \<lparr>Get = (\<lambda>w key. Inr w), Update = (\<lambda>w obj. (Inr obj, w)), IsNotFound = (\<lambda>e. False),
     AddFinalizer = (\<lambda>fs f. f # fs), RemoveFinalizer = (\<lambda>fs f. removeAll f fs)\<rparr>"

lemma one_cert_valid: "valid_subjects one_cert_operator"
  by (simp add: valid_subjects_def one_cert_operator_def)

text \<open>
  C29: Whatever was exported before, after a reconcile the CA metrics are those of the bundle that
  is there now: one expiry per subject, the last certificate deciding, and a valid flag of 1 for
  a bundle with certificates; a flag of 0 and no expiry if a certificate does not parse; nothing
  if there is no config map, no certificate or another error, which alone is reported. All other
  metrics stay and no call panics.
\<close>

theorem ca_metrics_follow_bundle:
  assumes "gauge_vec pv" and "ValidString clusterId" and "agg_wf pv a" and "valid_subjects cno"
  shows "\<exists>out a' expiry valid. ConfigMapReconcile k cno pv clusterId req w a = (out, w, a')
    \<and> agg_wf pv a' \<and> exported pv a' = expo_ca expiry valid (exported pv a) \<and>
    (case Get k w (ca_bundle_key cno) of
      Inl err \<Rightarrow> out = Returned empty_Result (if IsNotFound k err then None else Some (LibError err))
        \<and> expiry = Map.empty \<and> valid = Map.empty
    | Inr cfgMap \<Rightarrow>
        (case TrustBundleConfigMap cno cfgMap (TRUSTED_CA_BUNDLE_CONFIGMAP_KEY cno) of
          Inl err \<Rightarrow> expiry = Map.empty \<and>
            (if strings_Contains (Error_text cno err) ''failed parsing certificate''
             then out = Returned empty_Result None \<and> valid = [[clusterId] \<mapsto> 0]
             else out = Returned empty_Result (Some (LibError err)) \<and> valid = Map.empty)
        | Inr certs \<Rightarrow> out = Returned empty_Result None \<and> expiry = expiry_series clusterId certs
            \<and> valid = (if certs = [] then Map.empty else [[clusterId] \<mapsto> 1])))"
  using configmap_report [OF assms, of k req w] by blast

theorem ca_metrics_follow_bundle_witness:
  "\<exists>a'. ConfigMapReconcile bundle_client one_cert_operator map_api ''c1'' bundle_request []
      (new_collector map_api Minute) = (Returned empty_Result None, [], a')
    \<and> exported map_api a' Cluster_Proxy_CA_Valid = Map.empty"
proof -
  have "ValidString ''c1''" by (simp add: byte_def)
  from ca_metrics_follow_bundle [OF map_api_gauges this new_collector_map_wf [of Minute] one_cert_valid,
      of bundle_client bundle_request "[]"]
  show ?thesis by (auto simp: bundle_client_def one_cert_operator_def expo_ca_def)
qed

text \<open>A certificate that is alone with its subject decides its series.\<close>

lemma expiry_series_unshared:
  assumes "c \<in> set certs" and "\<forall>c' \<in> set certs. cert_Subject c' = cert_Subject c \<longrightarrow> c' = c"
  shows "expiry_series cid certs [cid, cert_Subject c] = Some (float64 (Unix (cert_NotAfter c)))"
proof -
  let ?es = "rev (map (\<lambda>c. ([cid, cert_Subject c], float64 (Unix (cert_NotAfter c)))) certs)"
  have "[cid, cert_Subject c] \<in> fst ` set ?es" using assms(1) by force
  then obtain x where x: "map_of ?es [cid, cert_Subject c] = Some x"
    by (cases "map_of ?es [cid, cert_Subject c]") (auto simp: map_of_eq_None_iff)
  from map_of_SomeD [OF this] assms(2) have "x = float64 (Unix (cert_NotAfter c))" by auto
  with x show ?thesis by (simp add: expiry_series_def)
qed

text \<open>
  C31: The expiry of every certificate that shares its subject with no other certificate of the bundle is exported to the
  second, rounded down, without a loss of precision, for all dates within 285 million years of
  1970, whatever else the bundle holds; the bundle is then marked valid.
\<close>

theorem ca_expiry_exact:
  assumes "gauge_vec pv" and "ValidString clusterId" and "agg_wf pv a" and "valid_subjects cno"
    and "Get k w (ca_bundle_key cno) = Inr cm"
    and "TrustBundleConfigMap cno cm (TRUSTED_CA_BUNDLE_CONFIGMAP_KEY cno) = Inr certs"
    and "c \<in> set certs" and "\<forall>c' \<in> set certs. cert_Subject c' = cert_Subject c \<longrightarrow> c' = c"
    and "\<bar>Unix (cert_NotAfter c)\<bar> < 2 ^ 53"
  shows "\<exists>a'. ConfigMapReconcile k cno pv clusterId req w a = (Returned empty_Result None, w, a')
    \<and> exported pv a' Cluster_Proxy_CA_Expiry [clusterId, cert_Subject c] = Some (Unix (cert_NotAfter c))
    \<and> exported pv a' Cluster_Proxy_CA_Valid [clusterId] = Some 1"
proof -
  have "expiry_series clusterId certs [clusterId, cert_Subject c] = Some (float64 (Unix (cert_NotAfter c)))"
    by (rule expiry_series_unshared [OF assms(7,8)])
  then show ?thesis
    using configmap_report [OF assms(1-4), of k req w] assms(5-7,9)
    by (auto simp: expo_ca_def float64_exact)
qed

text \<open>The bundle of the example also holds two certificates that share another subject.\<close>

theorem ca_expiry_exact_witness:
  "\<exists>certs a'. map cert_Subject certs = [''CN=old'', ''CN=ca'', ''CN=old'']
    \<and> ConfigMapReconcile bundle_client one_cert_operator map_api ''c1'' bundle_request certs
      (new_collector map_api Minute) = (Returned empty_Result None, certs, a')
    \<and> exported map_api a' Cluster_Proxy_CA_Expiry [''c1'', ''CN=ca''] = Some 1"
proof -
  let ?c = "\<lparr>cert_Subject = ''CN=ca'', cert_NotAfter = 62135596801 * 10 ^ 9\<rparr>"
  let ?certs = "[\<lparr>cert_Subject = ''CN=old'', cert_NotAfter = 0\<rparr>, ?c, \<lparr>cert_Subject = ''CN=old'', cert_NotAfter = 1\<rparr>]"
  have u: "ValidString ''c1''" by (simp add: byte_def)
  have get: "Get bundle_client ?certs (ca_bundle_key one_cert_operator) = Inr ?certs"
    by (simp add: bundle_client_def)
  have parsed: "TrustBundleConfigMap one_cert_operator ?certs
      (TRUSTED_CA_BUNDLE_CONFIGMAP_KEY one_cert_operator) = Inr ?certs"
    by (simp add: one_cert_operator_def byte_def)
  have unix: "Unix (cert_NotAfter ?c) = 1" by (simp add: Unix_def)
  from ca_expiry_exact [OF map_api_gauges u new_collector_map_wf [of Minute] one_cert_valid get parsed,
      of ?c bundle_request] unix
  show ?thesis by (intro exI [of _ ?certs]) auto
qed

end
