(* ===== verification/CPMS_Controller.thy ===== *)
theory CPMS_Controller
  imports Controller_Utils Aggregator_Properties
begin

section \<open>The control plane machine set controller (\<open>controllers/cpms\<close>)\<close>

text \<open>
  The controller exports whether the control plane machine set is active, labelled with the
  instance type it asks for. Pointers of the API types are options, and reading through a nil
  pointer panics. Decoding the provider-specific machine configuration runs code of the API
  types of \<open>github.com/openshift/api\<close>, so the two decoders are parameters; their result is
  the instance type.
\<close>

definition cpmsNamespace :: string where "cpmsNamespace = ''openshift-machine-api''"
definition cpmsName :: string where "cpmsName = ''cluster''"

definition cpms_key :: NamespacedName where
  "cpms_key = \<lparr>nn_Namespace = cpmsNamespace, nn_Name = cpmsName\<rparr>"

text \<open>\<open>Template.OpenShiftMachineV1Beta1Machine\<close>: \<open>Spec.ProviderSpec.Value.Raw\<close> and \<open>FailureDomains.Platform\<close>.\<close>

record OpenShiftMachineTemplate =
  providerSpec_Value :: "string option"
  failureDomains :: "string option"

record ControlPlaneMachineSet =
  cpms_State :: string
  template_MachineType :: string
  template_Machine :: "OpenShiftMachineTemplate option"

record 'e machine_decoders =
  unmarshal_AWSMachineProviderConfig :: "string \<Rightarrow> 'e + string"
  unmarshal_GCPMachineProviderSpec :: "string \<Rightarrow> 'e + string"

definition quote_char :: string where "quote_char = [CHR 0x27]"
definition newline :: string where "newline = [CHR 0x0A]"

definition machine_type_error :: "string \<Rightarrow> string" where
  "machine_type_error t = ''unexpected machine type in Spec.Template.MachineType'' @ newline
     @ ''Want: '' @ quote_char @ ''machines_v1beta1_machine_openshift_io'' @ quote_char
     @ '', got: '' @ t"

definition platform_error :: "string \<Rightarrow> string" where
  "platform_error platform = ''unsupported MachineProvider: '' @ platform
     @ ''. Supported cloud providers are '' @ quote_char @ ''AWS'' @ quote_char @ '' and ''
     @ quote_char @ ''GCP'' @ quote_char"

definition report_cpms :: "'g gauge_api \<Rightarrow> string \<Rightarrow> ControlPlaneMachineSet \<Rightarrow> string
    \<Rightarrow> 'w \<Rightarrow> 'g AdoptionMetricsAggregator \<Rightarrow> 'e outcome \<times> 'w \<times> 'g AdoptionMetricsAggregator" where
  "report_cpms pv clusterId obj instance_type w a =
     (if cpms_State obj = ''Active'' then
        after_call (SetCPMSEnabled pv clusterId instance_type True a) w (\<lambda>a. (DoNotRequeue, w, a))
      else
        after_call (SetCPMSEnabled pv clusterId instance_type False a) w (\<lambda>a. (DoNotRequeue, w, a)))"

definition CPMSReconcile :: "('w, ControlPlaneMachineSet, 'e) client \<Rightarrow> 'e machine_decoders
    \<Rightarrow> 'g gauge_api \<Rightarrow> string \<Rightarrow> NamespacedName
    \<Rightarrow> 'w \<Rightarrow> 'g AdoptionMetricsAggregator \<Rightarrow> 'e outcome \<times> 'w \<times> 'g AdoptionMetricsAggregator" where
  "CPMSReconcile k dec pv clusterId req w a =
     (case Get k w cpms_key of
       Inl err \<Rightarrow>
         if IsNotFound k err then (DoNotRequeue, w, a)
         else (RequeueWithError (LibError err), w, a)
     | Inr obj \<Rightarrow>
         if template_MachineType obj \<noteq> ''machines_v1beta1_machine_openshift_io'' then
           (RequeueWithError (Errorf (machine_type_error (template_MachineType obj))), w, a)
         else
           (case template_Machine obj of
             None \<Rightarrow> (Panicking, w, a)
           | Some machine \<Rightarrow>
               (case providerSpec_Value machine of
                 None \<Rightarrow> (Panicking, w, a)
               | Some specRaw \<Rightarrow>
                   (case failureDomains machine of
                     None \<Rightarrow> (Panicking, w, a)
                   | Some platform \<Rightarrow>
                       if platform = ''AWS'' then
                         (case unmarshal_AWSMachineProviderConfig dec specRaw of
                           Inl err \<Rightarrow> (RequeueWithError (LibError err), w, a)
                         | Inr instance_type \<Rightarrow> report_cpms pv clusterId obj instance_type w a)
                       else if platform = ''GCP'' then
                         (case unmarshal_GCPMachineProviderSpec dec specRaw of
                           Inl err \<Rightarrow> (RequeueWithError (LibError err), w, a)
                         | Inr instance_type \<Rightarrow> report_cpms pv clusterId obj instance_type w a)
                       else (RequeueWithError (Errorf (platform_error platform)), w, a)))))"

subsection \<open>The instance type of a machine set\<close>

text \<open>The abstract view: what a machine set asks for, an error, or nothing that can be read.\<close>

datatype 'e instance_type = Known string | Rejected "'e go_error" | Nil_pointer

definition instance_type_of :: "'e machine_decoders \<Rightarrow> ControlPlaneMachineSet \<Rightarrow> 'e instance_type" where
  "instance_type_of dec obj =
     (if template_MachineType obj \<noteq> ''machines_v1beta1_machine_openshift_io''
      then Rejected (Errorf (machine_type_error (template_MachineType obj)))
      else case (Option.bind (template_Machine obj) providerSpec_Value,
          Option.bind (template_Machine obj) failureDomains) of
        (Some raw, Some platform) \<Rightarrow>
          if platform = ''AWS'' \<or> platform = ''GCP'' then
            (case (if platform = ''AWS'' then unmarshal_AWSMachineProviderConfig dec raw
                   else unmarshal_GCPMachineProviderSpec dec raw) of
              Inl err \<Rightarrow> Rejected (LibError err) | Inr t \<Rightarrow> Known t)
          else Rejected (Errorf (platform_error platform))
      | _ \<Rightarrow> Nil_pointer)"

lemma CPMSReconcile_by_instance_type:
  "CPMSReconcile k dec pv clusterId req w a =
     (case Get k w cpms_key of
       Inl err \<Rightarrow> (if IsNotFound k err then DoNotRequeue else RequeueWithError (LibError err), w, a)
     | Inr obj \<Rightarrow>
        (case instance_type_of dec obj of
          Known t \<Rightarrow> report_cpms pv clusterId obj t w a
        | Rejected err \<Rightarrow> (RequeueWithError err, w, a)
        | Nil_pointer \<Rightarrow> (Panicking, w, a)))"
  by (auto simp: CPMSReconcile_def instance_type_of_def split: sum.splits option.splits)

lemma report_cpms_ok:
  assumes "gauge_vec pv" "ValidString clusterId" "ValidString t" "agg_wf pv a"
  shows "\<exists>a'. report_cpms pv clusterId obj t w a = (DoNotRequeue, w, a') \<and> agg_wf pv a' \<and> same_maps a a'
    \<and> exported pv a' = expo_only CPMS_Enabled [clusterId, t] (of_bool (cpms_State obj = ''Active''))
        (exported pv a)"
  using SetCPMSEnabled_reports [OF assms, of "cpms_State obj = ''Active''"]
  by (auto simp: report_cpms_def elim!: reportsE)

subsection \<open>Properties\<close>

text \<open>Decoding JSON yields valid UTF-8 only: the decoder replaces what is not.\<close>

definition valid_instance_types :: "'e machine_decoders \<Rightarrow> bool" where
  "valid_instance_types dec \<longleftrightarrow> (\<forall>obj t. instance_type_of dec obj = Known t \<longrightarrow> ValidString t)"

lemma cpms_report:
  assumes "gauge_vec pv" and "ValidString clusterId" and "agg_wf pv a"
    and "valid_instance_types dec"
  shows "\<exists>out a'. CPMSReconcile k dec pv clusterId req w a = (out, w, a') \<and> agg_wf pv a'
    \<and> same_maps a a' \<and>
    (case Get k w cpms_key of
      Inl err \<Rightarrow> a' = a \<and> out = (if IsNotFound k err then DoNotRequeue else RequeueWithError (LibError err))
    | Inr obj \<Rightarrow>
        (case instance_type_of dec obj of
          Known t \<Rightarrow> out = DoNotRequeue \<and> exported pv a' =
            expo_only CPMS_Enabled [clusterId, t] (of_bool (cpms_State obj = ''Active'')) (exported pv a)
        | Rejected err \<Rightarrow> a' = a \<and> out = RequeueWithError err
        | Nil_pointer \<Rightarrow> a' = a \<and> out = Panicking))"
proof (cases "Get k w cpms_key")
  case (Inl err)
  then show ?thesis using assms(3) by (simp add: CPMSReconcile_by_instance_type)
next
  case obj: (Inr obj)
  show ?thesis
  proof (cases "instance_type_of dec obj")
    case (Known t)
    then have "ValidString t" using assms(4) by (simp add: valid_instance_types_def)
    from report_cpms_ok [OF assms(1,2) this assms(3), of obj w] show ?thesis
      using obj Known by (auto simp: CPMSReconcile_by_instance_type)
  qed (use obj assms(3) in \<open>simp_all add: CPMSReconcile_by_instance_type\<close>)
qed

text \<open>Decoders that take the whole text as the instance type, if it is ASCII.\<close>

definition text_decoders :: "mem_error machine_decoders" where
  "text_decoders = \<lparr>
     unmarshal_AWSMachineProviderConfig = (\<lambda>raw. if ascii raw then Inr raw else Inl Mem_Timeout),
     unmarshal_GCPMachineProviderSpec = (\<lambda>raw. if ascii raw then Inr raw else Inl Mem_Timeout)\<rparr>"

definition machine_set_client :: "ControlPlaneMachineSet \<Rightarrow> (unit, ControlPlaneMachineSet, mem_error) client" where
  "machine_set_client obj = \<lparr>Get = (\<lambda>w key. Inr obj), Update = (\<lambda>w obj. (Inr obj, w)),
     IsNotFound = (\<lambda>e. False), AddFinalizer = (\<lambda>fs f. f # fs), RemoveFinalizer = (\<lambda>fs f. removeAll f fs)\<rparr>"

definition aws_machine_set :: "string option \<Rightarrow> ControlPlaneMachineSet" where
  "aws_machine_set domains = \<lparr>cpms_State = ''Active'',
     template_MachineType = ''machines_v1beta1_machine_openshift_io'',
     template_Machine = Some \<lparr>providerSpec_Value = Some ''m5.xlarge'', failureDomains = domains\<rparr>\<rparr>"

lemma text_decoders_valid: "valid_instance_types text_decoders"
  by (auto simp: valid_instance_types_def instance_type_of_def text_decoders_def ascii_ValidString
      split: option.splits sum.splits if_splits)

text \<open>
  If the machine set exists and its instance type can be read, a reconcile ends without an
  error and exports exactly one series for it, labelled with that instance type, 1 if the set is
  active and 0 if not. An unknown machine type, an unsupported platform and a configuration that
  does not decode are errors, to be retried, and change no metric; so does a missing machine set,
  without an error.
\<close>

theorem cpms_follows_machine_set:
  assumes "gauge_vec pv" and "ValidString clusterId" and "agg_wf pv a"
    and "valid_instance_types dec"
  shows "\<exists>out a'. CPMSReconcile k dec pv clusterId req w a = (out, w, a') \<and> agg_wf pv a' \<and>
    (case Get k w cpms_key of
      Inl err \<Rightarrow> a' = a \<and> out = (if IsNotFound k err then DoNotRequeue else RequeueWithError (LibError err))
    | Inr obj \<Rightarrow>
        (case instance_type_of dec obj of
          Known t \<Rightarrow> out = DoNotRequeue \<and> exported pv a' =
            expo_only CPMS_Enabled [clusterId, t] (of_bool (cpms_State obj = ''Active'')) (exported pv a)
        | Rejected err \<Rightarrow> a' = a \<and> out = RequeueWithError err
        | Nil_pointer \<Rightarrow> a' = a \<and> out = Panicking))"
  using cpms_report [OF assms, where k = k and req = req and w = w] by blast

theorem cpms_follows_machine_set_witness:
  "\<exists>a'. CPMSReconcile (machine_set_client (aws_machine_set (Some ''AWS''))) text_decoders map_api
      ''c1'' cpms_key () (new_collector map_api Minute) = (DoNotRequeue, (), a')
    \<and> exported map_api a' CPMS_Enabled = [[''c1'', ''m5.xlarge''] \<mapsto> 1]"
proof -
  have u: "ValidString ''c1''" by (simp add: byte_def)
  have "instance_type_of text_decoders (aws_machine_set (Some ''AWS'')) = Known ''m5.xlarge''"
    by (simp add: instance_type_of_def aws_machine_set_def text_decoders_def ascii_def byte_def)
  moreover have "Get (machine_set_client (aws_machine_set (Some ''AWS''))) () cpms_key =
      Inr (aws_machine_set (Some ''AWS''))" "cpms_State (aws_machine_set (Some ''AWS'')) = ''Active''"
    by (simp_all add: machine_set_client_def aws_machine_set_def)
  ultimately show ?thesis
    using cpms_follows_machine_set [OF map_api_gauges u new_collector_map_wf [of Minute] text_decoders_valid,
      of "machine_set_client (aws_machine_set (Some ''AWS''))" cpms_key "()"]
    by (auto simp: expo_only_def)
qed

text \<open>
  C39: The failure domains of a machine set are optional in the API, but the reconciler reads them
  without a check: for every machine set of the right machine type without failure domains the
  reconcile panics, whatever the rest of the set says, and no metric is updated.
\<close>

theorem cpms_panics_without_failure_domains:
  assumes "Get k w cpms_key = Inr obj"
    and "template_MachineType obj = ''machines_v1beta1_machine_openshift_io''"
    and "template_Machine obj = Some machine" and "failureDomains machine = None"
  shows "CPMSReconcile k dec pv clusterId req w a = (Panicking, w, a)"
  using assms by (simp add: CPMSReconcile_def split: option.split)

theorem cpms_panics_without_failure_domains_witness:
  "CPMSReconcile (machine_set_client (aws_machine_set None)) text_decoders map_api ''c1'' cpms_key ()
     (new_collector map_api Minute) = (Panicking, (), new_collector map_api Minute)"
  by (rule cpms_panics_without_failure_domains [where obj = "aws_machine_set None"
        and machine = "\<lparr>providerSpec_Value = Some ''m5.xlarge'', failureDomains = None\<rparr>"])
    (simp_all add: machine_set_client_def aws_machine_set_def)

end
