(* ===== verification/Go_Json.thy ===== *)
theory Go_Json
  imports Go_Utf8
begin

section \<open>Package encoding/json\<close>

text \<open>
  \<open>json.Unmarshal\<close> first checks that the whole input is one JSON value and then stores it
  into the destination. Here the input is split into tokens, and a machine with an explicit
  stack (as the scanner of the package has one) builds the value. Strings are decoded as the
  package decodes them: escapes, surrogate pairs, and the replacement character for invalid
  UTF-8. The package allows 10000 nested arrays and objects.
\<close>

datatype json =
    JNull
  | JBool bool
  | JNum string
  | JStr string
  | JArr "json list"
  | JObj "(string \<times> json) list"

datatype token =
    LBrace | RBrace | LBrack | RBrack | Comma | Colon
  | TStr string | TNum string | TTrue | TFalse | TNull

subsection \<open>Strings\<close>

definition json_quote :: char where "json_quote = CHR 0x22"
definition backslash :: char where "backslash = CHR 0x5C"

text \<open>The number of bytes of the UTF-8 sequence at the front, 0 if there is no valid one.\<close>

definition rune_size :: "string \<Rightarrow> nat" where
  "rune_size s = (case s of [] \<Rightarrow> 0 | c # t \<Rightarrow>
     if byte c < 128 then 1
     else if 194 \<le> byte c \<and> byte c \<le> 223 \<and> length t \<ge> 1 \<and> ValidString (take 2 s) then 2
     else if 224 \<le> byte c \<and> byte c \<le> 239 \<and> length t \<ge> 2 \<and> ValidString (take 3 s) then 3
     else if 240 \<le> byte c \<and> byte c \<le> 244 \<and> length t \<ge> 3 \<and> ValidString (take 4 s) then 4
     else 0)"

definition char_at :: "nat \<Rightarrow> char" where
  "char_at n = char_of n"

text \<open>\<open>utf8.EncodeRune\<close>; surrogates and numbers above U+10FFFF encode as U+FFFD.\<close>

definition replacement :: string where
  "replacement = [CHR 0xEF, CHR 0xBF, CHR 0xBD]"

definition encode_rune :: "nat \<Rightarrow> string" where
  "encode_rune r =
     (if r < 128 then [char_at r]
      else if r < 2048 then [char_at (192 + r div 64), char_at (128 + r mod 64)]
      else if (55296 \<le> r \<and> r \<le> 57343) \<or> r > 1114111 then replacement
      else if r < 65536 then
        [char_at (224 + r div 4096), char_at (128 + r div 64 mod 64), char_at (128 + r mod 64)]
      else [char_at (240 + r div 262144), char_at (128 + r div 4096 mod 64),
            char_at (128 + r div 64 mod 64), char_at (128 + r mod 64)])"

definition hex_digit :: "char \<Rightarrow> nat option" where
  "hex_digit c = (let b = byte c in
     if 48 \<le> b \<and> b \<le> 57 then Some (b - 48)
     else if 97 \<le> b \<and> b \<le> 102 then Some (b - 87)
     else if 65 \<le> b \<and> b \<le> 70 then Some (b - 55) else None)"

definition hex4 :: "string \<Rightarrow> nat option" where
  "hex4 s = (case map hex_digit (take 4 s) of
     [Some a, Some b, Some c, Some d] \<Rightarrow> Some (4096 * a + 256 * b + 16 * c + d) | _ \<Rightarrow> None)"

definition high_surrogate :: "nat \<Rightarrow> bool" where
  "high_surrogate r \<longleftrightarrow> 55296 \<le> r \<and> r < 56320"

definition low_surrogate :: "nat \<Rightarrow> bool" where
  "low_surrogate r \<longleftrightarrow> 56320 \<le> r \<and> r < 57344"

text \<open>A code after a backslash and \<open>u\<close>: the bytes it stands for and the number of bytes read.\<close>

definition unicode_escape :: "nat \<Rightarrow> string \<Rightarrow> string \<times> nat" where
  "unicode_escape r after =
     (if high_surrogate r \<and> take 2 after = [backslash, CHR ''u''] then
        (case hex4 (drop 2 after) of
          Some r2 \<Rightarrow> if low_surrogate r2
            then (encode_rune (65536 + (r - 55296) * 1024 + (r2 - 56320)), 6) else (replacement, 0)
        | None \<Rightarrow> (replacement, 0))
      else (encode_rune r, 0))"

definition simple_escape :: "char \<Rightarrow> char option" where
  "simple_escape c =
     (if c = json_quote \<or> c = backslash \<or> c = CHR ''/'' then Some c
      else if c = CHR ''b'' then Some (CHR 0x08) else if c = CHR ''f'' then Some (CHR 0x0C)
      else if c = CHR ''n'' then Some (CHR 0x0A) else if c = CHR ''r'' then Some (CHR 0x0D)
      else if c = CHR ''t'' then Some (CHR 0x09) else None)"

text \<open>The text of a string after its opening quote, decoded, and the input after the closing one.\<close>

function lex_string :: "string \<Rightarrow> (string \<times> string) option" where
  "lex_string [] = None"
| "lex_string (c # s) =
     (if c = json_quote then Some ([], s)
      else if c = backslash then
        (case s of
          [] \<Rightarrow> None
        | e # t \<Rightarrow>
            if e = CHR ''u'' then
              (case hex4 t of
                None \<Rightarrow> None
              | Some r \<Rightarrow>
                  map_option (\<lambda>(u, rest). (fst (unicode_escape r (drop 4 t)) @ u, rest))
                    (lex_string (drop (4 + snd (unicode_escape r (drop 4 t))) t)))
            else
              (case simple_escape e of
                None \<Rightarrow> None
              | Some d \<Rightarrow> map_option (\<lambda>(u, rest). (d # u, rest)) (lex_string t)))
      else if byte c < 32 then None
      else if rune_size (c # s) = 0 then
        map_option (\<lambda>(u, rest). (replacement @ u, rest)) (lex_string s)
      else
        map_option (\<lambda>(u, rest). (take (rune_size (c # s)) (c # s) @ u, rest))
          (lex_string (drop (rune_size (c # s) - 1) s)))"
  by pat_completeness auto
termination
  by (relation "measure length") auto

declare lex_string.simps [simp del]

subsection \<open>Numbers\<close>

definition is_digit :: "char \<Rightarrow> bool" where
  "is_digit c \<longleftrightarrow> 48 \<le> byte c \<and> byte c \<le> 57"

text \<open>Digits of which there must be at least one.\<close>

definition lex_digits :: "string \<Rightarrow> (string \<times> string) option" where
  "lex_digits s = (if takeWhile is_digit s = [] then None
     else Some (takeWhile is_digit s, dropWhile is_digit s))"

definition lex_int :: "string \<Rightarrow> (string \<times> string) option" where
  "lex_int s = (case s of c # t \<Rightarrow> if c = CHR ''0'' then Some ([c], t) else lex_digits s | [] \<Rightarrow> None)"

definition lex_frac :: "string \<Rightarrow> (string \<times> string) option" where
  "lex_frac s = (case s of c # t \<Rightarrow>
       if c = CHR ''.'' then map_option (\<lambda>(d, r). (c # d, r)) (lex_digits t) else Some ([], s)
     | [] \<Rightarrow> Some ([], []))"

definition lex_exp :: "string \<Rightarrow> (string \<times> string) option" where
  "lex_exp s = (case s of c # t \<Rightarrow>
       if c = CHR ''e'' \<or> c = CHR ''E'' then
         (case t of
           sg # u \<Rightarrow> if sg = CHR ''+'' \<or> sg = CHR ''-''
             then map_option (\<lambda>(d, r). (c # sg # d, r)) (lex_digits u)
             else map_option (\<lambda>(d, r). (c # d, r)) (lex_digits t)
         | [] \<Rightarrow> None)
       else Some ([], s)
     | [] \<Rightarrow> Some ([], []))"

definition lex_number :: "string \<Rightarrow> (string \<times> string) option" where
  "lex_number s =
     (let (sign, t) = (case s of c # t \<Rightarrow> if c = CHR ''-'' then ([c], t) else ([], s) | [] \<Rightarrow> ([], s)) in
      Option.bind (lex_int t) (\<lambda>(i, t1). Option.bind (lex_frac t1) (\<lambda>(f, t2).
        map_option (\<lambda>(e, t3). (sign @ i @ f @ e, t3)) (lex_exp t2))))"

subsection \<open>Tokens\<close>

definition is_space :: "char \<Rightarrow> bool" where
  "is_space c \<longleftrightarrow> byte c = 32 \<or> byte c = 9 \<or> byte c = 10 \<or> byte c = 13"

definition punctuation :: "char \<Rightarrow> token option" where
  "punctuation c =
     (if c = CHR ''{'' then Some LBrace else if c = CHR ''}'' then Some RBrace
      else if c = CHR ''['' then Some LBrack else if c = CHR '']'' then Some RBrack
      else if c = CHR '','' then Some Comma else if c = CHR '':'' then Some Colon else None)"

definition keyword :: "string \<Rightarrow> (token \<times> string) option" where
  "keyword s =
     (if prefix ''true'' s then Some (TTrue, drop 4 s)
      else if prefix ''false'' s then Some (TFalse, drop 5 s)
      else if prefix ''null'' s then Some (TNull, drop 4 s) else None)"

definition lex_scalar :: "string \<Rightarrow> (token \<times> string) option" where
  "lex_scalar s = (case s of
       c # t \<Rightarrow> if c = json_quote then map_option (\<lambda>(u, r). (TStr u, r)) (lex_string t)
         else if keyword s \<noteq> None then keyword s
         else map_option (\<lambda>(n, r). (TNum n, r)) (lex_number s)
     | [] \<Rightarrow> None)"

function lex_tokens :: "string \<Rightarrow> token list option" where
  "lex_tokens [] = Some []"
| "lex_tokens (c # s) =
     (if is_space c then lex_tokens s
      else case punctuation c of
        Some t \<Rightarrow> map_option ((#) t) (lex_tokens s)
      | None \<Rightarrow>
          (case lex_scalar (c # s) of
            Some (t, rest) \<Rightarrow>
              if length rest \<le> length s then map_option ((#) t) (lex_tokens rest) else None
          | None \<Rightarrow> None))"
  by pat_completeness auto
termination
  by (relation "measure length") auto

declare lex_tokens.simps [simp del]

subsection \<open>Values\<close>

text \<open>
  The stack holds the arrays and objects that are open: the elements read so far, and for an
  object also the key whose value is awaited.
\<close>

datatype frame = InArr "json list" | InObj "(string \<times> json) list" string

datatype expect = Value | ValueOrEnd | Key | KeyOrEnd | KeyColon | Separator | Finished json

type_synonym pstate = "expect \<times> frame list"

definition max_depth :: nat where "max_depth = 10000"

fun deliver :: "json \<Rightarrow> frame list \<Rightarrow> pstate" where
  "deliver v [] = (Finished v, [])"
| "deliver v (InArr vs # st) = (Separator, InArr (vs @ [v]) # st)"
| "deliver v (InObj ms k # st) = (Separator, InObj (ms @ [(k, v)]) k # st)"

definition open_frame :: "expect \<Rightarrow> frame \<Rightarrow> frame list \<Rightarrow> pstate option" where
  "open_frame e f st = (if length st < max_depth then Some (e, f # st) else None)"

fun begin_value :: "token \<Rightarrow> frame list \<Rightarrow> pstate option" where
  "begin_value LBrace st = open_frame KeyOrEnd (InObj [] []) st"
| "begin_value LBrack st = open_frame ValueOrEnd (InArr []) st"
| "begin_value (TStr s) st = Some (deliver (JStr s) st)"
| "begin_value (TNum n) st = Some (deliver (JNum n) st)"
| "begin_value TTrue st = Some (deliver (JBool True) st)"
| "begin_value TFalse st = Some (deliver (JBool False) st)"
| "begin_value TNull st = Some (deliver JNull st)"
| "begin_value _ st = None"

fun parse_step :: "token \<Rightarrow> pstate \<Rightarrow> pstate option" where
  "parse_step t (Value, st) = begin_value t st"
| "parse_step RBrack (ValueOrEnd, InArr vs # st) = Some (deliver (JArr vs) st)"
| "parse_step t (ValueOrEnd, st) = begin_value t st"
| "parse_step (TStr k) (Key, InObj ms _ # st) = Some (KeyColon, InObj ms k # st)"
| "parse_step (TStr k) (KeyOrEnd, InObj ms _ # st) = Some (KeyColon, InObj ms k # st)"
| "parse_step RBrace (KeyOrEnd, InObj ms _ # st) = Some (deliver (JObj ms) st)"
| "parse_step Colon (KeyColon, st) = Some (Value, st)"
| "parse_step Comma (Separator, InArr vs # st) = Some (Value, InArr vs # st)"
| "parse_step Comma (Separator, InObj ms k # st) = Some (Key, InObj ms k # st)"
| "parse_step RBrack (Separator, InArr vs # st) = Some (deliver (JArr vs) st)"
| "parse_step RBrace (Separator, InObj ms _ # st) = Some (deliver (JObj ms) st)"
| "parse_step _ _ = None"

fun parse_tokens :: "token list \<Rightarrow> pstate \<Rightarrow> pstate option" where
  "parse_tokens [] ps = Some ps"
| "parse_tokens (t # ts) ps = Option.bind (parse_step t ps) (parse_tokens ts)"

definition parse_json :: "string \<Rightarrow> json option" where
  "parse_json s = Option.bind (lex_tokens s) (\<lambda>ts.
     case parse_tokens ts (Value, []) of Some (Finished v, _) \<Rightarrow> Some v | _ \<Rightarrow> None)"

subsection \<open>Field names\<close>

text \<open>
  A key of an object goes to the struct field of the same name up to case folding. The only
  runes outside ASCII that fold to an ASCII letter are U+017F (to S) and U+212A (to K).
\<close>

fun fold_name :: "string \<Rightarrow> string" where
  "fold_name [] = []"
| "fold_name (c # s) =
     (if 97 \<le> byte c \<and> byte c \<le> 122 then char_at (byte c - 32) # fold_name s
      else if c = CHR 0xC5 then
        (case s of d # t \<Rightarrow> if d = CHR 0xBF then CHR ''S'' # fold_name t else c # fold_name s
         | [] \<Rightarrow> [c])
      else if c = CHR 0xE2 then
        (case s of d # e # t \<Rightarrow> if d = CHR 0x84 \<and> e = CHR 0xAA then CHR ''K'' # fold_name t
           else c # fold_name s
         | _ \<Rightarrow> c # fold_name s)
      else c # fold_name s)"

text \<open>\<open>name\<close> is the name of the field in the struct tag.\<close>

definition names_field :: "string \<Rightarrow> string \<Rightarrow> bool" where
  "names_field name key \<longleftrightarrow> key = name \<or> fold_name key = fold_name name"

end
