(* ===== verification/Json_Roundtrip.thy ===== *)
theory Json_Roundtrip
  imports Go_Json
begin

section \<open>Parsing what was printed\<close>

text \<open>
  A printer for JSON values and the proof that \<open>parse_json\<close> reads back what it prints, for
  values without numbers whose strings need no escapes and that are not nested too deeply.
\<close>

fun sep_tokens :: "token list list \<Rightarrow> token list" where
  "sep_tokens [] = []"
| "sep_tokens [x] = x"
| "sep_tokens (x # y # xs) = x @ Comma # sep_tokens (y # xs)"

fun json_tokens :: "json \<Rightarrow> token list" where
  "json_tokens JNull = [TNull]"
| "json_tokens (JBool b) = [if b then TTrue else TFalse]"
| "json_tokens (JNum n) = [TNum n]"
| "json_tokens (JStr s) = [TStr s]"
| "json_tokens (JArr vs) = LBrack # sep_tokens (map json_tokens vs) @ [RBrack]"
| "json_tokens (JObj ms) =
     LBrace # sep_tokens (map (\<lambda>m. TStr (fst m) # Colon # json_tokens (snd m)) ms) @ [RBrace]"

text \<open>At most that many arrays and objects are open at a time.\<close>

fun nested_within :: "nat \<Rightarrow> json \<Rightarrow> bool" where
  "nested_within n (JArr vs) = (0 < n \<and> (\<forall>v \<in> set vs. nested_within (n - 1) v))"
| "nested_within n (JObj ms) = (0 < n \<and> (\<forall>m \<in> set ms. nested_within (n - 1) (snd m)))"
| "nested_within n _ = True"

subsection \<open>The parser on the tokens of a value\<close>

abbreviation parses_back :: "json \<Rightarrow> bool" where
  "parses_back j \<equiv> \<forall>st ts. nested_within (max_depth - length st) j \<longrightarrow>
     parse_tokens (json_tokens j @ ts) (Value, st) = parse_tokens ts (deliver j st)"

lemma json_tokens_first: "\<exists>t ts. json_tokens j = t # ts \<and> t \<noteq> RBrack"
  by (cases j) auto

lemma parse_step_ValueOrEnd:
  "t \<noteq> RBrack \<Longrightarrow> parse_step t (ValueOrEnd, st) = parse_step t (Value, st)"
  by (cases t) auto

lemma parse_tokens_ValueOrEnd:
  "parse_tokens (json_tokens j @ ts) (ValueOrEnd, st) = parse_tokens (json_tokens j @ ts) (Value, st)"
  using json_tokens_first [of j] by (auto simp: parse_step_ValueOrEnd)

lemma parse_elements:
  assumes "vs \<noteq> []" and "\<forall>v \<in> set vs. parses_back v"
    and "\<forall>v \<in> set vs. nested_within (max_depth - Suc (length st)) v"
  shows "parse_tokens (sep_tokens (map json_tokens vs) @ ts) (Value, InArr acc # st)
     = parse_tokens ts (Separator, InArr (acc @ vs) # st)"
  using assms
proof (induction vs arbitrary: acc rule: induct_list012)
  case (3 v w vs)
  then show ?case using "3.IH"(2) [of "acc @ [v]"] by simp
qed simp_all

lemma parse_members:
  assumes "ms \<noteq> []" and "\<forall>m \<in> set ms. parses_back (snd m)"
    and "\<forall>m \<in> set ms. nested_within (max_depth - Suc (length st)) (snd m)"
    and "e = Key \<or> e = KeyOrEnd"
  shows "\<exists>k'. parse_tokens (sep_tokens (map (\<lambda>m. TStr (fst m) # Colon # json_tokens (snd m)) ms) @ ts)
       (e, InObj acc k # st)
     = parse_tokens ts (Separator, InObj (acc @ ms) k' # st)"
  using assms
proof (induction ms arbitrary: acc k e rule: induct_list012)
  case (2 m)
  then show ?case by (auto intro: exI [of _ "fst m"])
next
  case (3 m n ms)
  then show ?case using "3.IH"(2) [of Key "acc @ [m]" "fst m"] by auto
qed simp

lemma parse_value: "parses_back j"
proof (induction j)
  case (JArr vs)
  show ?case
  proof (intro allI impI)
    fix st :: "frame list" and ts
    assume n: "nested_within (max_depth - length st) (JArr vs)"
    then have n': "length st < max_depth"
      "\<forall>v \<in> set vs. nested_within (max_depth - Suc (length st)) v" by auto
    show "parse_tokens (json_tokens (JArr vs) @ ts) (Value, st) = parse_tokens ts (deliver (JArr vs) st)"
    proof (cases vs)
      case Nil
      then show ?thesis using n' by (simp add: open_frame_def)
    next
      case (Cons v vs')
      have "\<exists>rest. sep_tokens (map json_tokens vs) = json_tokens v @ rest"
        using Cons by (cases vs') auto
      then have "parse_tokens (sep_tokens (map json_tokens vs) @ RBrack # ts) (ValueOrEnd, InArr [] # st)
          = parse_tokens (sep_tokens (map json_tokens vs) @ RBrack # ts) (Value, InArr [] # st)"
        by (auto simp: parse_tokens_ValueOrEnd)
      also have "\<dots> = parse_tokens (RBrack # ts) (Separator, InArr ([] @ vs) # st)"
        by (rule parse_elements) (use JArr n' Cons in auto)
      finally show ?thesis using n' by (simp add: open_frame_def)
    qed
  qed
next
  case (JObj ms)
  show ?case
  proof (intro allI impI)
    fix st :: "frame list" and ts
    assume n: "nested_within (max_depth - length st) (JObj ms)"
    then have n': "length st < max_depth"
      "\<forall>m \<in> set ms. nested_within (max_depth - Suc (length st)) (snd m)" by auto
    have members: "\<forall>m \<in> set ms. parses_back (snd m)"
    proof
      fix m assume "m \<in> set ms"
      then show "parses_back (snd m)" using JObj [of m "snd m"] by (simp add: snds.intros)
    qed
    show "parse_tokens (json_tokens (JObj ms) @ ts) (Value, st) = parse_tokens ts (deliver (JObj ms) st)"
    proof (cases "ms = []")
      case True
      then show ?thesis using n' by (simp add: open_frame_def)
    next
      case False
      from parse_members [OF False members n'(2), of KeyOrEnd "RBrace # ts" "[]" "[]"]
      show ?thesis using n' by (auto simp: open_frame_def)
    qed
  qed
qed auto

subsection \<open>The lexer on printed tokens\<close>

definition plain_char :: "char \<Rightarrow> bool" where
  "plain_char c \<longleftrightarrow> 32 \<le> byte c \<and> byte c < 127 \<and> c \<noteq> json_quote \<and> c \<noteq> backslash"

fun token_text :: "token \<Rightarrow> string" where
  "token_text LBrace = ''{''"
| "token_text RBrace = ''}''"
| "token_text LBrack = ''[''"
| "token_text RBrack = '']''"
| "token_text Comma = '',''"
| "token_text Colon = '':''"
| "token_text (TStr s) = json_quote # s @ [json_quote]"
| "token_text (TNum n) = n"
| "token_text TTrue = ''true''"
| "token_text TFalse = ''false''"
| "token_text TNull = ''null''"

fun plain_token :: "token \<Rightarrow> bool" where
  "plain_token (TStr s) = list_all plain_char s"
| "plain_token (TNum _) = False"
| "plain_token _ = True"

definition json_text :: "json \<Rightarrow> string" where
  "json_text j = concat (map token_text (json_tokens j))"

lemma lex_plain_string:
  "list_all plain_char s \<Longrightarrow> lex_string (s @ json_quote # rest) = Some (s, rest)"
proof (induction s)
  case Nil
  then show ?case by (simp add: lex_string.simps)
next
  case (Cons c s)
  then have "rune_size (c # s @ json_quote # rest) = 1" "c \<noteq> json_quote" "c \<noteq> backslash" "\<not> byte c < 32"
    by (auto simp: rune_size_def plain_char_def)
  then show ?case using Cons by (simp add: lex_string.simps)
qed

lemma quote_no_space: "\<not> is_space json_quote"
  by (simp add: is_space_def json_quote_def byte_def)

lemma quote_no_punctuation: "punctuation json_quote = None"
  by (simp add: punctuation_def json_quote_def)

lemma lex_string_token:
  "list_all plain_char s \<Longrightarrow>
     lex_tokens (json_quote # s @ json_quote # rest) = map_option ((#) (TStr s)) (lex_tokens rest)"
  by (simp add: lex_tokens.simps(2) [of json_quote] lex_scalar_def lex_plain_string quote_no_space
      quote_no_punctuation)

lemma lex_plain_token:
  assumes "plain_token t"
  shows "lex_tokens (token_text t @ rest) = map_option ((#) t) (lex_tokens rest)"
proof (cases "\<exists>s. t = TStr s")
  case True
  then show ?thesis using assms by (auto simp: lex_string_token)
next
  case False
  then show ?thesis using assms
    by (cases t) (simp_all add: lex_tokens.simps is_space_def punctuation_def lex_scalar_def
        keyword_def json_quote_def byte_def)
qed

lemma lex_plain_tokens:
  "list_all plain_token ts \<Longrightarrow> lex_tokens (concat (map token_text ts)) = Some ts"
  by (induction ts) (simp_all add: lex_plain_token lex_tokens.simps)

lemma parse_printed:
  assumes "nested_within max_depth j" and "list_all plain_token (json_tokens j)"
  shows "parse_json (json_text j) = Some j"
  using assms parse_value [of j, rule_format, of "[]" "[]"]
  by (simp add: parse_json_def json_text_def lex_plain_tokens)

end
