(* ===== verification/PullSecret_Controller.thy ===== *)
theory PullSecret_Controller
  imports Json_Roundtrip Controller_Utils Aggregator_Properties
begin

section \<open>The pull secret controller (\<open>controllers/pullsecret\<close>)\<close>

text \<open>
  The controller validates the cluster pull secret: its data is a JSON document with an entry
  per registry, and four registries need a credential. The reason for the verdict is a label of
  the exported series.
\<close>

definition pullSecretName :: string where "pullSecretName = ''pull-secret''"
definition pullSecretNamespace :: string where "pullSecretNamespace = ''openshift-config''"
definition dockerConfigJSONKey :: string where "dockerConfigJSONKey = ''.dockerconfigjson''"

definition ReasonValid :: string where "ReasonValid = ''Valid''"
definition ReasonNotFound :: string where "ReasonNotFound = ''SecretNotFound''"
definition ReasonMissingKey :: string where "ReasonMissingKey = ''MissingKey''"
definition ReasonMalformedJSON :: string where "ReasonMalformedJSON = ''MalformedJSON''"
definition ReasonEmptyAuths :: string where "ReasonEmptyAuths = ''EmptyAuths''"
definition ReasonMissingRegistry :: string where "ReasonMissingRegistry = ''MissingRegistry''"
definition ReasonEmptyCredential :: string where "ReasonEmptyCredential = ''EmptyCredential''"

lemmas reason_defs = ReasonValid_def ReasonNotFound_def ReasonMissingKey_def ReasonMalformedJSON_def
  ReasonEmptyAuths_def ReasonMissingRegistry_def ReasonEmptyCredential_def

definition expectedRegistries :: "string list" where
  "expectedRegistries =
     [''cloud.openshift.com'', ''quay.io'', ''registry.redhat.io'', ''registry.connect.redhat.com'']"

definition pull_secret_key :: NamespacedName where
  "pull_secret_key = \<lparr>nn_Namespace = pullSecretNamespace, nn_Name = pullSecretName\<rparr>"

record Secret =
  secret_Data :: "(string, string) go_map"

record dockerConfigAuth =
  Auth :: string

text \<open>A nil map is \<open>None\<close>.\<close>

record dockerConfigJSON =
  Auths :: "(string, dockerConfigAuth) go_map option"

subsection \<open>Decoding\<close>

text \<open>
  \<open>json.Unmarshal\<close> into the two structs. Members are stored in their order; \<open>null\<close> leaves
  a struct or a string as it is and makes a map nil; a value of another type than the
  destination is an error (\<open>None\<close>), and so is text that is not JSON. Decoding an object into a
  map adds its members to the map, each decoded into a new struct.
\<close>

fun store_members :: "(string \<times> json \<Rightarrow> 's \<Rightarrow> 's option) \<Rightarrow> (string \<times> json) list \<Rightarrow> 's \<Rightarrow> 's option" where
  "store_members f [] s = Some s"
| "store_members f (m # ms) s = Option.bind (f m s) (store_members f ms)"

definition store_auth_member :: "string \<times> json \<Rightarrow> dockerConfigAuth \<Rightarrow> dockerConfigAuth option" where
  "store_auth_member m d =
     (if \<not> names_field ''auth'' (fst m) then Some d
      else case snd m of JStr s \<Rightarrow> Some (d\<lparr>Auth := s\<rparr>) | JNull \<Rightarrow> Some d | _ \<Rightarrow> None)"

fun decode_auth :: "json \<Rightarrow> dockerConfigAuth option" where
  "decode_auth (JObj ms) = store_members store_auth_member ms \<lparr>Auth = ''''\<rparr>"
| "decode_auth JNull = Some \<lparr>Auth = ''''\<rparr>"
| "decode_auth _ = None"

definition store_entry :: "string \<times> json \<Rightarrow> (string, dockerConfigAuth) go_map
    \<Rightarrow> (string, dockerConfigAuth) go_map option" where
  "store_entry m auths = map_option (\<lambda>d. map_put (fst m) d auths) (decode_auth (snd m))"

definition store_config_member :: "string \<times> json \<Rightarrow> dockerConfigJSON \<Rightarrow> dockerConfigJSON option" where
  "store_config_member m config =
     (if \<not> names_field ''auths'' (fst m) then Some config
      else case snd m of
        JObj ms \<Rightarrow> map_option (\<lambda>auths. config\<lparr>Auths := Some auths\<rparr>)
          (store_members store_entry ms (case Auths config of None \<Rightarrow> [] | Some auths \<Rightarrow> auths))
      | JNull \<Rightarrow> Some (config\<lparr>Auths := None\<rparr>)
      | _ \<Rightarrow> None)"

fun decode_config :: "json \<Rightarrow> dockerConfigJSON option" where
  "decode_config (JObj ms) = store_members store_config_member ms \<lparr>Auths = None\<rparr>"
| "decode_config JNull = Some \<lparr>Auths = None\<rparr>"
| "decode_config _ = None"

definition Unmarshal_config :: "string \<Rightarrow> dockerConfigJSON option" where
  "Unmarshal_config data = Option.bind (parse_json data) decode_config"

subsection \<open>Validation and reconcile\<close>

fun check_registries :: "string list \<Rightarrow> (string, dockerConfigAuth) go_map \<Rightarrow> bool \<times> string" where
  "check_registries [] auths = (True, '''')"
| "check_registries (registry # registries) auths =
     (case map_of auths registry of
       None \<Rightarrow> (False, ReasonMissingRegistry)
     | Some auth \<Rightarrow>
         if Auth auth = '''' then (False, ReasonEmptyCredential)
         else check_registries registries auths)"

definition validatePullSecret :: "Secret \<Rightarrow> bool \<times> string" where
  "validatePullSecret secret =
     (case map_of (secret_Data secret) dockerConfigJSONKey of
       None \<Rightarrow> (False, ReasonMissingKey)
     | Some data \<Rightarrow>
         (case Unmarshal_config data of
           None \<Rightarrow> (False, ReasonMalformedJSON)
         | Some config \<Rightarrow>
             (case Auths config of
               None \<Rightarrow> (False, ReasonEmptyAuths)
             | Some auths \<Rightarrow>
                 if length auths = 0 then (False, ReasonEmptyAuths)
                 else check_registries expectedRegistries auths)))"

definition PullSecretReconcile :: "('w, Secret, 'e) client \<Rightarrow> 'g gauge_api \<Rightarrow> string \<Rightarrow> NamespacedName
    \<Rightarrow> 'w \<Rightarrow> 'g AdoptionMetricsAggregator \<Rightarrow> 'e outcome \<times> 'w \<times> 'g AdoptionMetricsAggregator" where
  "PullSecretReconcile k pv clusterId req w a =
     (case Get k w pull_secret_key of
       Inl err \<Rightarrow>
         if IsNotFound k err then
           after_call (SetPullSecretValid pv clusterId False ReasonNotFound a) w
             (\<lambda>a. (Returned empty_Result None, w, a))
         else (Returned empty_Result (Some (LibError err)), w, a)
     | Inr secret \<Rightarrow>
         (let (valid, reason) = validatePullSecret secret in
          if \<not> valid then
            after_call (SetPullSecretValid pv clusterId False reason a) w
              (\<lambda>a. (Returned empty_Result None, w, a))
          else
            after_call (SetPullSecretValid pv clusterId True ReasonValid a) w
              (\<lambda>a. (Returned empty_Result None, w, a))))"

definition PullSecretFilter :: Funcs where
  "PullSecretFilter = \<lparr>
     CreateFunc = (\<lambda>m. m_Name m = pullSecretName \<and> m_Namespace m = pullSecretNamespace),
     DeleteFunc = (\<lambda>m. m_Name m = pullSecretName \<and> m_Namespace m = pullSecretNamespace),
     UpdateFunc = (\<lambda>old new. m_Name new = pullSecretName \<and> m_Namespace new = pullSecretNamespace),
     GenericFunc = (\<lambda>m. m_Name m = pullSecretName \<and> m_Namespace m = pullSecretNamespace)\<rparr>"

subsection \<open>The verdict on a table of credentials\<close>

text \<open>
  The abstract view of the configuration is a map from registries to credentials; the first
  expected registry that has none, or an empty one, decides.
\<close>

definition credential :: "(string, dockerConfigAuth) go_map \<Rightarrow> string \<Rightarrow> string option" where
  "credential auths registry = map_option Auth (map_of auths registry)"

definition table_reason :: "(string \<Rightarrow> string option) \<Rightarrow> string" where
  "table_reason cred =
     (case find (\<lambda>r. cred r = None \<or> cred r = Some '''') expectedRegistries of
       None \<Rightarrow> ReasonValid
     | Some r \<Rightarrow> if cred r = None then ReasonMissingRegistry else ReasonEmptyCredential)"

definition secret_reason :: "Secret option \<Rightarrow> string" where
  "secret_reason secret =
     (case secret of
       None \<Rightarrow> ReasonNotFound
     | Some secret \<Rightarrow>
        (case map_of (secret_Data secret) dockerConfigJSONKey of
          None \<Rightarrow> ReasonMissingKey
        | Some data \<Rightarrow>
           (case Unmarshal_config data of
             None \<Rightarrow> ReasonMalformedJSON
           | Some config \<Rightarrow>
               if Auths config = None \<or> Auths config = Some [] then ReasonEmptyAuths
               else table_reason (credential (the (Auths config))))))"

lemma check_registries_find:
  "check_registries rs auths =
     (case find (\<lambda>r. credential auths r = None \<or> credential auths r = Some '''') rs of
       None \<Rightarrow> (True, '''')
     | Some r \<Rightarrow> (False,
         if credential auths r = None then ReasonMissingRegistry else ReasonEmptyCredential))"
  by (induction rs) (auto simp: credential_def split: option.split)

lemma table_reason_Valid:
  "table_reason cred = ReasonValid \<longleftrightarrow>
     (\<forall>r \<in> set expectedRegistries. \<exists>c. cred r = Some c \<and> c \<noteq> '''')"
proof (cases "find (\<lambda>r. cred r = None \<or> cred r = Some '''') expectedRegistries")
  case None
  then have "table_reason cred = ReasonValid" by (simp add: table_reason_def)
  moreover from None have "\<forall>r \<in> set expectedRegistries. \<exists>c. cred r = Some c \<and> c \<noteq> ''''"
    by (auto simp: find_None_iff)
  ultimately show ?thesis by blast
next
  case (Some r)
  then have "r \<in> set expectedRegistries" "cred r = None \<or> cred r = Some ''''"
    by (auto simp: find_Some_iff in_set_conv_nth)
  moreover from this Some have "table_reason cred \<noteq> ReasonValid"
    by (auto simp: table_reason_def reason_defs)
  ultimately show ?thesis by (auto intro!: bexI [of _ r])
qed

lemma validate_by_reason:
  "validatePullSecret secret =
     (secret_reason (Some secret) = ReasonValid,
      if secret_reason (Some secret) = ReasonValid then '''' else secret_reason (Some secret))"
  by (simp add: validatePullSecret_def secret_reason_def check_registries_find table_reason_def reason_defs
      split: option.splits)

lemma secret_reason_valid: "ValidString (secret_reason secret)"
  by (rule ascii_ValidString)
    (auto simp: secret_reason_def table_reason_def reason_defs ascii_def byte_def split: option.splits)

lemma pull_secret_cases:
  assumes pv: "gauge_vec pv" and u: "ValidString clusterId" and wf: "agg_wf pv a"
  shows "\<exists>out a'. PullSecretReconcile k pv clusterId req w a = (out, w, a') \<and> agg_wf pv a'
    \<and> same_maps a a' \<and>
    (case Get k w pull_secret_key of
      Inl err \<Rightarrow>
        if IsNotFound k err then out = Returned empty_Result None
          \<and> exported pv a' = expo_only Pull_Secret_Valid [clusterId, secret_reason None] 0 (exported pv a)
        else out = Returned empty_Result (Some (LibError err)) \<and> a' = a
    | Inr secret \<Rightarrow> out = Returned empty_Result None
        \<and> exported pv a' = expo_only Pull_Secret_Valid [clusterId, secret_reason (Some secret)]
            (of_bool (secret_reason (Some secret) = ReasonValid)) (exported pv a))"
proof -
  have report: "\<exists>a'. SetPullSecretValid pv clusterId (secret_reason s = ReasonValid) (secret_reason s) a = Ok a'
      \<and> agg_wf pv a' \<and> same_maps a a' \<and> exported pv a' = expo_only Pull_Secret_Valid
          [clusterId, secret_reason s] (of_bool (secret_reason s = ReasonValid)) (exported pv a)" for s
    using SetPullSecretValid_reports [OF pv u secret_reason_valid [of s] wf, of "secret_reason s = ReasonValid"]
    by (auto elim: reportsE)
  show ?thesis
  proof (cases "Get k w pull_secret_key")
    case (Inl err)
    have "secret_reason None = ReasonNotFound" "ReasonNotFound \<noteq> ReasonValid"
      by (simp_all add: secret_reason_def reason_defs)
    with report [of None] Inl wf show ?thesis by (auto simp: PullSecretReconcile_def)
  next
    case (Inr secret)
    with report [of "Some secret"] show ?thesis
      by (cases "secret_reason (Some secret) = ReasonValid")
        (auto simp: PullSecretReconcile_def validate_by_reason)
  qed
qed

subsection \<open>Documents\<close>

text \<open>The document that \<open>oc create secret docker-registry\<close> writes, for a list of credentials.\<close>

definition config_json :: "(string \<times> string) list \<Rightarrow> json" where
  "config_json creds =
     JObj [(''auths'', JObj (map (\<lambda>(r, c). (r, JObj [(''auth'', JStr c)])) creds))]"

definition plain_creds :: "(string \<times> string) list \<Rightarrow> bool" where
  "plain_creds creds \<longleftrightarrow> (\<forall>(r, c) \<in> set creds. list_all plain_char r \<and> list_all plain_char c)"

lemma names_field_refl [simp]: "names_field name name"
  by (simp add: names_field_def)

lemma decode_creds:
  "store_members store_entry (map (\<lambda>(r, c). (r, JObj [(''auth'', JStr c)])) creds) auths =
     Some (fold (\<lambda>(r, c). map_put r \<lparr>Auth = c\<rparr>) creds auths)"
  by (induction creds arbitrary: auths) (auto simp: store_entry_def store_auth_member_def)

lemma map_of_fold_creds:
  "map_of (fold (\<lambda>(r, c). map_put r \<lparr>Auth = c\<rparr>) creds auths) r =
     (case map_of (rev creds) r of None \<Rightarrow> map_of auths r | Some c \<Rightarrow> Some \<lparr>Auth = c\<rparr>)"
  by (induction creds arbitrary: auths) (auto simp: map_add_def split: option.splits)

lemma sep_tokens_plain: "(\<forall>x \<in> set xs. list_all plain_token x) \<Longrightarrow> list_all plain_token (sep_tokens xs)"
  by (induction xs rule: sep_tokens.induct) auto

lemma config_json_plain:
  assumes "plain_creds creds"
  shows "nested_within max_depth (config_json creds)" "list_all plain_token (json_tokens (config_json creds))"
proof -
  show "nested_within max_depth (config_json creds)"
    by (auto simp: config_json_def max_depth_def)
  have fields: "list_all plain_char ''auth''" "list_all plain_char ''auths''"
    by (simp_all add: plain_char_def byte_def json_quote_def backslash_def)
  have "list_all plain_token (sep_tokens (map (\<lambda>m. TStr (fst m) # Colon # json_tokens (snd m))
      (map (\<lambda>(r, c). (r, JObj [(''auth'', JStr c)])) creds)))"
    using assms fields(1) by (intro sep_tokens_plain) (auto simp: plain_creds_def)
  then show "list_all plain_token (json_tokens (config_json creds))"
    using fields(2) by (simp add: config_json_def)
qed

lemma Unmarshal_config_json:
  assumes "plain_creds creds"
  shows "Unmarshal_config (json_text (config_json creds)) =
    Some \<lparr>Auths = Some (fold (\<lambda>(r, c). map_put r \<lparr>Auth = c\<rparr>) creds [])\<rparr>"
proof -
  have "parse_json (json_text (config_json creds)) = Some (config_json creds)"
    by (intro parse_printed config_json_plain assms)
  then show ?thesis
    by (simp add: Unmarshal_config_def config_json_def store_config_member_def decode_creds)
qed

lemma credential_fold_creds:
  "credential (fold (\<lambda>(r, c). map_put r \<lparr>Auth = c\<rparr>) creds []) = map_of (rev creds)"
  by (rule ext) (simp add: credential_def map_of_fold_creds split: option.split)

subsection \<open>Properties\<close>

lemma fold_creds_nonempty:
  fixes creds :: "(string \<times> string) list"
  shows "creds \<noteq> [] \<Longrightarrow> fold (\<lambda>(r, c). map_put r \<lparr>Auth = c\<rparr>) creds [] \<noteq> []"
proof
  assume c: "creds \<noteq> []" and e: "fold (\<lambda>(r, c). map_put r \<lparr>Auth = c\<rparr>) creds [] = []"
  from e have "credential (fold (\<lambda>(r, c). map_put r \<lparr>Auth = c\<rparr>) creds []) = (\<lambda>_. None)"
    by (simp add: credential_def fun_eq_iff)
  then have "map_of (rev creds) = Map.empty" by (simp add: credential_fold_creds)
  with c show False by simp
qed

lemma secret_reason_Valid:
  "secret_reason (Some secret) = ReasonValid \<longleftrightarrow>
    (\<exists>data config auths. map_of (secret_Data secret) dockerConfigJSONKey = Some data
      \<and> Unmarshal_config data = Some config \<and> Auths config = Some auths
      \<and> (\<forall>r \<in> set expectedRegistries. \<exists>d. map_of auths r = Some d \<and> Auth d \<noteq> ''''))"
proof -
  have ne: "ReasonMissingKey \<noteq> ReasonValid" "ReasonMalformedJSON \<noteq> ReasonValid" "ReasonEmptyAuths \<noteq> ReasonValid"
    by (simp_all add: reason_defs)
  have "''quay.io'' \<in> set expectedRegistries" by (simp add: expectedRegistries_def)
  then have empty: "\<exists>r. r \<in> set expectedRegistries" by blast
  have "table_reason (credential auths) = ReasonValid \<longleftrightarrow>
      (\<forall>r \<in> set expectedRegistries. \<exists>d. map_of auths r = Some d \<and> Auth d \<noteq> '''')" for auths
    unfolding table_reason_Valid by (auto simp: credential_def)
  then show ?thesis
    using ne empty by (auto simp: secret_reason_def split: option.splits)
qed

definition four_creds :: "(string \<times> string) list" where
  "four_creds = map (\<lambda>r. (r, ''dTpw'')) expectedRegistries"

lemma four_creds_plain: "plain_creds four_creds"
  by (simp add: four_creds_def expectedRegistries_def plain_creds_def plain_char_def byte_def
      json_quote_def backslash_def)

definition secret_client :: "Secret option \<Rightarrow> (unit, Secret, mem_error) client" where
  "secret_client secret = \<lparr>
     Get = (\<lambda>w key. case secret of None \<Rightarrow> Inl Mem_NotFound | Some s \<Rightarrow> Inr s),
     Update = (\<lambda>w obj. (Inr obj, w)), IsNotFound = (\<lambda>e. e = Mem_NotFound),
     AddFinalizer = (\<lambda>fs f. f # fs), RemoveFinalizer = (\<lambda>fs f. removeAll f fs)\<rparr>"

text \<open>
  The pull secret is judged valid exactly if its document decodes and holds a non-empty
  credential for each of the four expected registries. A negative verdict always carries a reason
  other than the one for validity.
\<close>

theorem pull_secret_valid_iff:
  "(fst (validatePullSecret secret) \<longleftrightarrow>
     (\<exists>data config auths. map_of (secret_Data secret) dockerConfigJSONKey = Some data
       \<and> Unmarshal_config data = Some config \<and> Auths config = Some auths
       \<and> (\<forall>r \<in> set expectedRegistries. \<exists>d. map_of auths r = Some d \<and> Auth d \<noteq> '''')))
   \<and> (fst (validatePullSecret secret) \<or> snd (validatePullSecret secret) \<noteq> ReasonValid)"
  unfolding secret_reason_Valid [symmetric] by (simp add: validate_by_reason)

theorem pull_secret_valid_iff_witness:
  "fst (validatePullSecret \<lparr>secret_Data = []\<rparr>) = False"
  using pull_secret_valid_iff [of "\<lparr>secret_Data = []\<rparr>"] by simp

text \<open>
  C28: A reconcile exports exactly one pull secret series, with the reason of the verdict as its
  label and the value 1 if and only if the reason says valid, replacing whatever was exported
  before; if the API server cannot tell whether the secret exists it reports the error and
  changes nothing. It never panics.
\<close>

theorem pull_secret_metric:
  assumes "gauge_vec pv" and "ValidString clusterId" and "agg_wf pv a"
  shows "\<exists>out a'. PullSecretReconcile k pv clusterId req w a = (out, w, a') \<and> agg_wf pv a' \<and>
    (case Get k w pull_secret_key of
      Inl err \<Rightarrow>
        if IsNotFound k err then out = Returned empty_Result None
          \<and> exported pv a' = expo_only Pull_Secret_Valid [clusterId, secret_reason None] 0 (exported pv a)
        else out = Returned empty_Result (Some (LibError err)) \<and> a' = a
    | Inr secret \<Rightarrow> out = Returned empty_Result None
        \<and> exported pv a' = expo_only Pull_Secret_Valid [clusterId, secret_reason (Some secret)]
            (of_bool (secret_reason (Some secret) = ReasonValid)) (exported pv a))"
  using pull_secret_cases [OF assms, of k req w] by blast

theorem pull_secret_metric_witness:
  "\<exists>a'. PullSecretReconcile (secret_client None) map_api ''c1'' pull_secret_key ()
      (new_collector map_api Minute) = (Returned empty_Result None, (), a')
    \<and> exported map_api a' Pull_Secret_Valid = [[''c1'', ''SecretNotFound''] \<mapsto> 0]"
proof -
  have "ValidString ''c1''" by (simp add: byte_def)
  from pull_secret_metric [OF map_api_gauges this new_collector_map_wf [of Minute],
      of "secret_client None" pull_secret_key "()"]
  show ?thesis
    by (auto simp: secret_client_def expo_only_def secret_reason_def ReasonNotFound_def)
qed

text \<open>
  C27: Writing a table of credentials as a Docker configuration and validating it gives the verdict
  of the table: no entry at all is reported as empty, and otherwise the first expected registry
  without an entry, or with an empty credential, decides; a later entry for a registry replaces
  an earlier one. This runs the whole JSON decoder, for names and credentials of printable ASCII
  that need no escapes.
\<close>

theorem pull_secret_document:
  assumes "plain_creds creds"
  shows "validatePullSecret \<lparr>secret_Data = [(dockerConfigJSONKey, json_text (config_json creds))]\<rparr> =
    (let reason = if creds = [] then ReasonEmptyAuths else table_reason (map_of (rev creds)) in
     (reason = ReasonValid, if reason = ReasonValid then '''' else reason))"
proof -
  let ?s = "\<lparr>secret_Data = [(dockerConfigJSONKey, json_text (config_json creds))]\<rparr>"
  have "secret_reason (Some ?s) =
      (if creds = [] then ReasonEmptyAuths else table_reason (map_of (rev creds)))"
    using fold_creds_nonempty [of creds]
    by (simp add: secret_reason_def Unmarshal_config_json [OF assms] credential_fold_creds)
  then show ?thesis by (simp add: validate_by_reason Let_def)
qed

theorem pull_secret_document_witness:
  "validatePullSecret \<lparr>secret_Data = [(dockerConfigJSONKey, json_text (config_json four_creds))]\<rparr> = (True, '''')"
proof -
  have "table_reason (map_of (rev four_creds)) = ReasonValid" "four_creds \<noteq> []"
    by (simp_all add: table_reason_Valid four_creds_def expectedRegistries_def)
  with pull_secret_document [OF four_creds_plain] show ?thesis by simp
qed

text \<open>The work queue hears of exactly the events of the object that the reconciler reads.\<close>

lemma pull_secret_filter_exact:
  "admits PullSecretFilter evt \<longleftrightarrow> key_of (event_object evt) = pull_secret_key"
  by (cases evt) (auto simp: PullSecretFilter_def key_of_def pull_secret_key_def)

end
