(* ===== verification/Go_Regexp.thy ===== *)
theory Go_Regexp
  imports Go_Prelude
begin

section \<open>Package regexp, for the patterns of the program\<close>

text \<open>
  The two patterns of the program are sequences of literal bytes, of starred classes and of
  captured classes with \<open>+\<close>. The matcher is the leftmost-first one of package \<open>regexp\<close>: a
  repetition is tried from its longest match down, and the first overall match counts. The
  classes and literals are ASCII, and a byte below 128 is a whole rune wherever it stands, so
  matching bytes is matching runes.
\<close>

datatype re_item =
    Byte char
  | Star "char \<Rightarrow> bool"
  | Capture "char \<Rightarrow> bool"

fun first_some :: "'a option list \<Rightarrow> 'a option" where
  "first_some [] = None"
| "first_some (None # xs) = first_some xs"
| "first_some (Some x # xs) = Some x"

text \<open>The lengths a class repetition may take at the front of a string, longest first.\<close>

definition greedy :: "nat \<Rightarrow> (char \<Rightarrow> bool) \<Rightarrow> string \<Rightarrow> nat list" where
  "greedy least P s = rev [least ..< Suc (length (takeWhile P s))]"

text \<open>A match at the front of a string: the captured texts and the rest of the string.\<close>

fun match_here :: "re_item list \<Rightarrow> string \<Rightarrow> (string list \<times> string) option" where
  "match_here [] s = Some ([], s)"
| "match_here (Byte c # r) s =
     (case s of [] \<Rightarrow> None | x # t \<Rightarrow> if x = c then match_here r t else None)"
| "match_here (Star P # r) s =
     first_some (map (\<lambda>n. match_here r (drop n s)) (greedy 0 P s))"
| "match_here (Capture P # r) s =
     first_some (map (\<lambda>n. map_option (\<lambda>(caps, t). (take n s # caps, t)) (match_here r (drop n s)))
       (greedy 1 P s))"

fun MatchString :: "re_item list \<Rightarrow> string \<Rightarrow> bool" where
  "MatchString re [] \<longleftrightarrow> match_here re [] \<noteq> None"
| "MatchString re (c # s) \<longleftrightarrow> match_here re (c # s) \<noteq> None \<or> MatchString re s"

text \<open>
  \<open>FindAllStringSubmatch\<close> for a pattern that does not match the empty string: the text and the
  captures of the successive matches, each searched for after the end of the one before.
\<close>

function FindAllStringSubmatch :: "re_item list \<Rightarrow> string \<Rightarrow> string list list" where
  "FindAllStringSubmatch re [] = []"
| "FindAllStringSubmatch re (c # s) =
     (case match_here re (c # s) of
       Some (caps, t) \<Rightarrow>
         if length t \<le> length s
         then (take (length (c # s) - length t) (c # s) # caps) # FindAllStringSubmatch re t
         else FindAllStringSubmatch re s
     | None \<Rightarrow> FindAllStringSubmatch re s)"
  by pat_completeness auto
termination
  by (relation "measure (\<lambda>(_, s). length s)") auto

subsection \<open>Literals and captures\<close>

lemma match_here_literal:
  "match_here (map Byte lit @ r) s =
     (if prefix lit s then match_here r (drop (length lit) s) else None)"
  by (induction lit arbitrary: s) (auto split: list.split)

lemma first_some_eq_None_iff: "first_some xs = None \<longleftrightarrow> (\<forall>x \<in> set xs. x = None)"
  by (induction xs rule: first_some.induct) auto

lemma first_some_Nones: "\<forall>x \<in> set xs. x = None \<Longrightarrow> first_some (x # xs) = x"
  by (cases x) (auto simp: first_some_eq_None_iff)

text \<open>
  A capture followed by a byte outside its class takes exactly the longest run of the class:
  after a shorter run the next byte is still in the class.
\<close>

lemma match_here_capture:
  assumes "\<not> P d"
  shows "match_here (Capture P # Byte d # r) s =
    (case dropWhile P s of
      [] \<Rightarrow> None
    | x # t \<Rightarrow> if x = d \<and> takeWhile P s \<noteq> []
        then map_option (\<lambda>(caps, u). (takeWhile P s # caps, u)) (match_here r t) else None)"
proof -
  let ?n = "length (takeWhile P s)"
  let ?att = "\<lambda>n. map_option (\<lambda>(caps, t). (take n s # caps, t)) (match_here (Byte d # r) (drop n s))"
  have short: "?att n = None" if "n < ?n" for n
  proof -
    have "drop n s = s ! n # drop (Suc n) s"
      using that length_takeWhile_le [of P s] by (simp add: Cons_nth_drop_Suc)
    moreover have "P (s ! n)" using that by (metis nth_mem set_takeWhileD takeWhile_nth)
    ultimately show ?thesis using assms by auto
  qed
  have full: "take ?n s = takeWhile P s" "drop ?n s = dropWhile P s"
    by (metis append_eq_conv_conj takeWhile_dropWhile_id)+
  show ?thesis
  proof (cases "?n = 0")
    case True
    then show ?thesis by (simp add: greedy_def split: list.split)
  next
    case False
    then have "greedy 1 P s = ?n # rev [1 ..< ?n]"
      by (simp add: greedy_def Suc_le_eq)
    then have "match_here (Capture P # Byte d # r) s = first_some (?att ?n # map ?att (rev [1 ..< ?n]))"
      by simp
    also have "\<dots> = ?att ?n"
      using short by (intro first_some_Nones) auto
    finally show ?thesis
      using False full by (cases "dropWhile P s") (simp_all del: dropWhile_eq_Nil_conv)
  qed
qed

text \<open>The same facts as decompositions of the string that is matched.\<close>

lemma match_literal_iff:
  "match_here (map Byte lit @ r) s = Some x \<longleftrightarrow> (\<exists>t. s = lit @ t \<and> match_here r t = Some x)"
  by (auto simp: match_here_literal prefix_def)

lemma match_capture_iff:
  assumes "\<not> P d"
  shows "match_here (Capture P # Byte d # r) s = Some (caps, u) \<longleftrightarrow>
    (\<exists>p t caps'. s = p @ d # t \<and> p \<noteq> [] \<and> list_all P p \<and> caps = p # caps' \<and> match_here r t = Some (caps', u))"
    (is "?L \<longleftrightarrow> ?R")
proof
  assume ?L
  then obtain t caps' where "dropWhile P s = d # t" "takeWhile P s \<noteq> []"
      "caps = takeWhile P s # caps'" "match_here r t = Some (caps', u)"
    unfolding match_here_capture [where P = P and d = d, OF assms]
    by (auto simp del: dropWhile_eq_Nil_conv split: list.splits if_splits)
  moreover have "list_all P (takeWhile P s)" by (auto simp: list_all_iff dest: set_takeWhileD)
  ultimately show ?R by (metis takeWhile_dropWhile_id)
next
  assume ?R
  then obtain p t caps' where *: "s = p @ d # t" "p \<noteq> []" "list_all P p" "caps = p # caps'"
      "match_here r t = Some (caps', u)" by blast
  then have "takeWhile P s = p" "dropWhile P s = d # t"
    using assms by (auto simp: list_all_iff takeWhile_append2 dropWhile_append2)
  then show ?L unfolding match_here_capture [where P = P and d = d, OF assms] using * by simp
qed

lemma match_here_star_last: "match_here [Star P] s \<noteq> None"
  by (auto simp: greedy_def first_some_eq_None_iff)

text \<open>A literal followed by a star matches exactly the strings that contain the literal.\<close>

lemma MatchString_literal_star:
  "MatchString (map Byte lit @ [Star P]) s \<longleftrightarrow> strings_Contains s lit"
proof -
  have "match_here (map Byte lit @ [Star P]) u \<noteq> None \<longleftrightarrow> prefix lit u" for u
    using match_here_star_last [of P] by (auto simp only: match_here_literal split: if_splits)
  then show ?thesis
    by (induction s) (simp_all del: match_here.simps not_None_eq)
qed

end
