(* ===== verification/Drain_Events.thy ===== *)
theory Drain_Events
  imports Go_Regexp Go_Utf8
begin

section \<open>Drain events of a machine (\<open>controllers/machine\<close>, event selection and parsing)\<close>

text \<open>
  The machine controller looks for the most recent event that reports a failed eviction and
  parses the pods and namespaces out of its message. This theory holds these pure parts.
\<close>

record Event =
  ev_InvolvedObject :: string
  ev_Reason :: string
  ev_Message :: string
  ev_LastTimestamp :: instant

subsection \<open>The most recent drain failure\<close>

definition isErrorEvictingPodsEvent :: "Event \<Rightarrow> bool" where
  "isErrorEvictingPodsEvent event \<longleftrightarrow>
     ev_Reason event = ''DrainRequeued''
     \<and> strings_Contains (ev_Message event) ''error when evicting pods''"

definition getMostRecentEvent :: "Event option \<Rightarrow> Event \<Rightarrow> Event" where
  "getMostRecentEvent a b =
     (case a of
       None \<Rightarrow> b
     | Some a \<Rightarrow> if Before (ev_LastTimestamp a) (ev_LastTimestamp b) then b else a)"

datatype drain_error = errNoEvents

definition getMostRecentDrainFailedEvent :: "Event list \<Rightarrow> drain_error + Event option" where
  "getMostRecentDrainFailedEvent items =
     (if length items = 0 then Inl errNoEvents
      else Inr (fold (\<lambda>event newestEvent.
          if \<not> isErrorEvictingPodsEvent event then newestEvent
          else Some (getMostRecentEvent newestEvent event)) items None))"

text \<open>
  The event chosen from a list: the first of those with the largest timestamp among the drain
  failures.
\<close>

definition newest_failure :: "Event list \<Rightarrow> Event \<Rightarrow> bool" where
  "newest_failure items e \<longleftrightarrow>
     (\<exists>pre post. items = pre @ e # post \<and> isErrorEvictingPodsEvent e
       \<and> (\<forall>e' \<in> set pre. isErrorEvictingPodsEvent e' \<longrightarrow> ev_LastTimestamp e' < ev_LastTimestamp e)
       \<and> (\<forall>e' \<in> set post. isErrorEvictingPodsEvent e' \<longrightarrow> ev_LastTimestamp e' \<le> ev_LastTimestamp e))"

lemma newest_failure_snoc:
  assumes "newest_failure items e"
  shows "isErrorEvictingPodsEvent x \<Longrightarrow> newest_failure (items @ [x]) (getMostRecentEvent (Some e) x)"
    and "\<not> isErrorEvictingPodsEvent x \<Longrightarrow> newest_failure (items @ [x]) e"
proof -
  from assms obtain pre post where *: "items = pre @ e # post" "isErrorEvictingPodsEvent e"
    "\<forall>e' \<in> set pre. isErrorEvictingPodsEvent e' \<longrightarrow> ev_LastTimestamp e' < ev_LastTimestamp e"
    "\<forall>e' \<in> set post. isErrorEvictingPodsEvent e' \<longrightarrow> ev_LastTimestamp e' \<le> ev_LastTimestamp e"
    by (auto simp: newest_failure_def)
  have keep: "newest_failure (items @ [x]) e"
    if "isErrorEvictingPodsEvent x \<longrightarrow> ev_LastTimestamp x \<le> ev_LastTimestamp e"
    unfolding newest_failure_def using * that by (intro exI [of _ pre] exI [of _ "post @ [x]"]) auto
  then show "\<not> isErrorEvictingPodsEvent x \<Longrightarrow> newest_failure (items @ [x]) e" by simp
  assume x: "isErrorEvictingPodsEvent x"
  show "newest_failure (items @ [x]) (getMostRecentEvent (Some e) x)"
  proof (cases "ev_LastTimestamp e < ev_LastTimestamp x")
    case True
    have "newest_failure (items @ [x]) x"
      unfolding newest_failure_def using * x True
      by (intro exI [of _ items] exI [of _ "[]"]) fastforce
    then show ?thesis using True by (simp add: getMostRecentEvent_def Before_def)
  next
    case False
    then show ?thesis using keep by (simp add: getMostRecentEvent_def Before_def)
  qed
qed

lemma newest_failure_first:
  assumes "\<not> (\<exists>e \<in> set items. isErrorEvictingPodsEvent e)" and "isErrorEvictingPodsEvent x"
  shows "newest_failure (items @ [x]) x"
  unfolding newest_failure_def using assms by (intro exI [of _ items] exI [of _ "[]"]) auto

lemma most_recent_fold:
  "case fold (\<lambda>event newestEvent.
          if \<not> isErrorEvictingPodsEvent event then newestEvent
          else Some (getMostRecentEvent newestEvent event)) items None of
     None \<Rightarrow> \<not> (\<exists>e \<in> set items. isErrorEvictingPodsEvent e)
   | Some e \<Rightarrow> newest_failure items e"
proof (induction items rule: rev_induct)
  case (snoc x items)
  let ?loop = "fold (\<lambda>event newestEvent.
          if \<not> isErrorEvictingPodsEvent event then newestEvent
          else Some (getMostRecentEvent newestEvent event)) items None"
  show ?case
  proof (cases ?loop)
    case None
    with snoc.IH have none: "\<not> (\<exists>e \<in> set items. isErrorEvictingPodsEvent e)" by simp
    show ?thesis
      using None none newest_failure_first [OF none]
      by (cases "isErrorEvictingPodsEvent x") (simp_all add: getMostRecentEvent_def)
  next
    case (Some e)
    with snoc.IH have "newest_failure items e" by simp
    from newest_failure_snoc [OF this, of x] show ?thesis
      using Some by (cases "isErrorEvictingPodsEvent x") simp_all
  qed
qed simp

subsection \<open>Pods and namespaces in a message\<close>

text \<open>
  The pattern \<^verbatim>\<open>pods\/"([\w-]+)" -n "([\w-]+)"\<close> and the unanchored pattern
  \<^verbatim>\<open>openshift-.*\<close> with the class \<^verbatim>\<open>[\w-]\<close>: digits, letters, underscore, dash.
\<close>

definition word_dash :: "char \<Rightarrow> bool" where
  "word_dash c \<longleftrightarrow> (48 \<le> byte c \<and> byte c \<le> 57) \<or> (65 \<le> byte c \<and> byte c \<le> 90)
     \<or> (97 \<le> byte c \<and> byte c \<le> 122) \<or> c = CHR ''_'' \<or> c = CHR ''-''"

definition quote :: char where
  "quote = CHR 0x22"

definition pods_re :: "re_item list" where
  "pods_re = map Byte (''pods/'' @ [quote]) @ Capture word_dash #
     Byte quote # map Byte ('' -n '' @ [quote]) @ [Capture word_dash, Byte quote]"

definition openshift_re :: "re_item list" where
  "openshift_re = map Byte ''openshift-'' @ [Star (\<lambda>c. c \<noteq> CHR 0x0A)]"

definition parsePodsAndNamespacesFromEvent :: "Event \<Rightarrow> (string, string) go_map" where
  "parsePodsAndNamespacesFromEvent event =
     (let matches = FindAllStringSubmatch pods_re (ev_Message event) in
      fold (\<lambda>podMatch podNamespaces.
          if length podMatch \<noteq> 3 then podNamespaces
          else let podName = podMatch ! 1; podNamespace = podMatch ! 2 in
            if \<not> MatchString openshift_re podNamespace
            then map_put podName podNamespace podNamespaces else podNamespaces)
        matches [])"

subsection \<open>Correctness of the parser\<close>

text \<open>
  A message mentions a pod if the text that the pattern describes occurs anywhere in it.
  \<open>pod_mentions\<close> collects the mentions at every position, in order, without skipping the
  text of a match as the scan of \<open>regexp\<close> does.
\<close>

definition pod_text :: "string \<Rightarrow> string \<Rightarrow> string" where
  "pod_text p n = ''pods/'' @ [quote] @ p @ [quote] @ '' -n '' @ [quote] @ n @ [quote]"

definition pod_name_ok :: "string \<Rightarrow> bool" where
  "pod_name_ok p \<longleftrightarrow> p \<noteq> [] \<and> list_all word_dash p"

fun pod_mentions :: "string \<Rightarrow> (string \<times> string) list" where
  "pod_mentions [] = []"
| "pod_mentions (c # s) =
     (case match_here pods_re (c # s) of
       Some ([p, n], _) \<Rightarrow> (p, n) # pod_mentions s | _ \<Rightarrow> pod_mentions s)"

lemma word_dash_quote: "\<not> word_dash quote"
  by (simp add: word_dash_def quote_def byte_def)

lemma word_dash_slash: "\<not> word_dash CHR ''/''"
  by (simp add: word_dash_def byte_def)

lemma match_pods_iff:
  "match_here pods_re s = Some (caps, t) \<longleftrightarrow>
     (\<exists>p n. caps = [p, n] \<and> s = pod_text p n @ t \<and> pod_name_ok p \<and> pod_name_ok n)"
proof -
  have last: "match_here [Capture word_dash, Byte quote] s = Some (caps, t) \<longleftrightarrow>
      (\<exists>n. caps = [n] \<and> s = n @ quote # t \<and> pod_name_ok n)" for s caps t
    unfolding match_capture_iff [where P = word_dash and d = quote, OF word_dash_quote] by (auto simp: pod_name_ok_def)
  have middle: "match_here (Byte quote # map Byte ('' -n '' @ [quote]) @ [Capture word_dash, Byte quote]) s
      = match_here (map Byte (quote # '' -n '' @ [quote]) @ [Capture word_dash, Byte quote]) s" for s
    by simp
  show ?thesis
    unfolding pods_re_def match_literal_iff match_capture_iff [where P = word_dash and d = quote, OF word_dash_quote]
    unfolding match_literal_iff last pod_text_def pod_name_ok_def by auto
qed

lemma match_pods_prefix: "match_here pods_re s = Some x \<Longrightarrow> prefix ''pods/'' s"
  by (cases x) (auto simp: match_pods_iff pod_text_def)

lemma pod_text_Cons: "pod_text p n = CHR ''p'' # tl (pod_text p n)"
  by (simp add: pod_text_def)

text \<open>No mention starts inside a text without a slash that ends with a quote.\<close>

lemma no_mention_inside:
  assumes "CHR ''/'' \<notin> set y" and "y \<noteq> []" and "last y = quote"
  shows "\<not> prefix ''pods/'' (y @ t)"
proof
  assume "prefix ''pods/'' (y @ t)"
  then consider "prefix ''pods/'' y" | us where "''pods/'' = y @ us"
    by (auto simp: prefix_append)
  then show False
  proof cases
    case 1
    then show False using assms(1) by (auto simp: prefix_def)
  next
    case (2 us)
    have "quote \<in> set ''pods/''"
      unfolding 2 using assms(2,3) last_in_set [of y] by auto
    then show False by (simp add: quote_def)
  qed
qed

lemma pod_mentions_skip:
  assumes "CHR ''/'' \<notin> set x" and "x \<noteq> []" and "last x = quote"
  shows "pod_mentions (x @ t) = pod_mentions t"
  using assms
proof (induction x)
  case (Cons c x)
  have "match_here pods_re ((c # x) @ t) = None"
    using no_mention_inside [OF Cons.prems] match_pods_prefix by (metis not_None_eq)
  then show ?case using Cons by (cases x) auto
qed simp

lemma pod_mentions_text:
  assumes "pod_name_ok p" "pod_name_ok n"
  shows "pod_mentions (pod_text p n @ t) = (p, n) # pod_mentions t"
proof -
  define x where "x = [quote] @ p @ [quote] @ '' -n '' @ [quote] @ n @ [quote]"
  have split: "pod_text p n @ t = CHR ''p'' # CHR ''o'' # CHR ''d'' # CHR ''s'' # CHR ''/'' # x @ t"
    by (simp add: pod_text_def x_def)
  have "CHR ''/'' \<notin> set p" "CHR ''/'' \<notin> set n"
    using assms word_dash_slash by (auto simp: pod_name_ok_def list_all_iff)
  then have skip: "pod_mentions (x @ t) = pod_mentions t"
    by (intro pod_mentions_skip) (auto simp: quote_def x_def)
  have none: "match_here pods_re (c # s) = None" if "c \<noteq> CHR ''p''" for c s
    using match_pods_prefix [of "c # s"] that by (cases "match_here pods_re (c # s)") auto
  have "match_here pods_re (pod_text p n @ t) = Some ([p, n], t)"
    using assms by (auto simp: match_pods_iff)
  then show ?thesis unfolding split by (simp add: none skip)
qed

text \<open>The scan of \<open>regexp\<close> finds all mentions, although it skips the text of a match.\<close>

lemma find_pods_mentions:
  "map tl (FindAllStringSubmatch pods_re s) = map (\<lambda>(p, n). [p, n]) (pod_mentions s)
   \<and> (\<forall>m \<in> set (FindAllStringSubmatch pods_re s). length m = 3)"
proof (induction s rule: length_induct)
  case (1 s)
  show ?case
  proof (cases s)
    case (Cons c s')
    show ?thesis
    proof (cases "match_here pods_re s")
      case None
      then show ?thesis using 1 [rule_format, of s'] Cons by simp
    next
      case (Some x)
      obtain caps t where x: "x = (caps, t)" by (cases x)
      with Some obtain p n where m: "caps = [p, n]" "s = pod_text p n @ t"
          "pod_name_ok p" "pod_name_ok n"
        by (auto simp: match_pods_iff)
      have "length t < length s" using m(2) by (simp add: pod_text_def)
      then show ?thesis
        using 1 [rule_format, of t] Cons Some x m(1,2) pod_mentions_text [OF m(3,4), of t] by simp
    qed
  qed simp
qed

lemma set_pod_mentions:
  "(p, n) \<in> set (pod_mentions s) \<longleftrightarrow> pod_name_ok p \<and> pod_name_ok n \<and> sublist (pod_text p n) s"
proof (induction s)
  case Nil
  then show ?case by (auto simp: pod_text_def)
next
  case (Cons c s)
  have "(\<exists>t. match_here pods_re (c # s) = Some ([p, n], t)) \<longleftrightarrow>
      pod_name_ok p \<and> pod_name_ok n \<and> prefix (pod_text p n) (c # s)"
    by (auto simp: match_pods_iff prefix_def)
  moreover have "(p, n) \<in> set (pod_mentions (c # s)) \<longleftrightarrow>
      (\<exists>t. match_here pods_re (c # s) = Some ([p, n], t)) \<or> (p, n) \<in> set (pod_mentions s)"
    by (auto split: option.splits prod.splits list.splits dest!: match_pods_iff [THEN iffD1])
  ultimately show ?case using Cons.IH by (auto simp: sublist_Cons_right)
qed

text \<open>The pods that count: those outside namespaces whose name contains \<open>openshift-\<close>.\<close>

definition customer_pods :: "string \<Rightarrow> (string \<times> string) list" where
  "customer_pods msg = filter (\<lambda>(p, n). \<not> strings_Contains n ''openshift-'') (pod_mentions msg)"

lemma MatchString_openshift: "MatchString openshift_re s \<longleftrightarrow> strings_Contains s ''openshift-''"
  unfolding openshift_re_def by (rule MatchString_literal_star)

lemma parse_fold:
  assumes "\<forall>m \<in> set matches. length m = 3" and "map tl matches = map (\<lambda>(p, n). [p, n]) ps"
  shows "fold (\<lambda>podMatch podNamespaces.
          if length podMatch \<noteq> 3 then podNamespaces
          else let podName = podMatch ! 1; podNamespace = podMatch ! 2 in
            if \<not> MatchString openshift_re podNamespace
            then map_put podName podNamespace podNamespaces else podNamespaces) matches acc
    = fold (\<lambda>(p, n). map_put p n) (filter (\<lambda>(p, n). \<not> strings_Contains n ''openshift-'') ps) acc"
  using assms
proof (induction matches arbitrary: ps acc)
  case (Cons m matches)
  obtain p n ps' where ps: "ps = (p, n) # ps'" and m: "tl m = [p, n]" "map tl matches = map (\<lambda>(p, n). [p, n]) ps'"
    using Cons.prems(2) by (cases ps) auto
  have "m ! 1 = p" "m ! 2 = n" using m(1) by (cases m; simp)+
  then show ?case
    using Cons.IH [OF _ m(2)] Cons.prems(1) by (simp add: ps MatchString_openshift Let_def)
qed simp

lemma parse_eq:
  "parsePodsAndNamespacesFromEvent event = fold (\<lambda>(p, n). map_put p n) (customer_pods (ev_Message event)) []"
  using find_pods_mentions [of "ev_Message event"]
  by (simp add: parsePodsAndNamespacesFromEvent_def Let_def customer_pods_def parse_fold)

lemma fold_map_put:
  "map_of (fold (\<lambda>(p, n). map_put p n) ps acc) = map_of acc ++ map_of (rev ps)"
  "keys_distinct acc \<Longrightarrow> keys_distinct (fold (\<lambda>(p, n). map_put p n) ps acc)"
  by (induction ps arbitrary: acc) (auto simp: map_add_def fun_eq_iff split: option.splits)

lemma map_of_parse:
  "map_of (parsePodsAndNamespacesFromEvent event) = map_of (rev (customer_pods (ev_Message event)))"
  by (simp add: parse_eq fold_map_put)

lemma keys_distinct_parse: "keys_distinct (parsePodsAndNamespacesFromEvent event)"
  by (simp add: parse_eq fold_map_put)

lemma parse_entry:
  assumes "(p, n) \<in> set (parsePodsAndNamespacesFromEvent event)"
  shows "(p, n) \<in> set (customer_pods (ev_Message event))"
proof -
  have "map_of (parsePodsAndNamespacesFromEvent event) p = Some n"
    using assms keys_distinct_parse by (rule map_of_is_SomeI [rotated])
  then have "map_of (rev (customer_pods (ev_Message event))) p = Some n"
    by (simp add: map_of_parse)
  from map_of_SomeD [OF this] show ?thesis by simp
qed

lemma pod_name_ok_valid: "pod_name_ok p \<Longrightarrow> ValidString p"
  by (rule ascii_ValidString) (auto simp: pod_name_ok_def ascii_def list_all_iff word_dash_def byte_def)

lemma parse_entry_valid:
  "(p, n) \<in> set (parsePodsAndNamespacesFromEvent event) \<Longrightarrow> ValidString p \<and> ValidString n"
  using parse_entry [of p n event] by (auto simp: customer_pods_def set_pod_mentions pod_name_ok_valid)

subsection \<open>Properties\<close>

definition drain_failure :: "string \<Rightarrow> instant \<Rightarrow> Event" where
  "drain_failure msg t = \<lparr>ev_InvolvedObject = ''m1'', ev_Reason = ''DrainRequeued'',
     ev_Message = ''error when evicting pods: '' @ msg, ev_LastTimestamp = t\<rparr>"

text \<open>
  Of a list of events the reconciler picks the newest one that reports a failed eviction, the
  first of several with the same time; it picks none if there is none, and the error for no
  events is returned for the empty list only.
\<close>

theorem newest_drain_failure_chosen:
  "case getMostRecentDrainFailedEvent items of
     Inl err \<Rightarrow> items = []
   | Inr None \<Rightarrow> items \<noteq> [] \<and> \<not> (\<exists>e \<in> set items. isErrorEvictingPodsEvent e)
   | Inr (Some e) \<Rightarrow> newest_failure items e"
  using most_recent_fold [of items]
  by (auto simp: getMostRecentDrainFailedEvent_def split: option.splits)

theorem newest_drain_failure_chosen_witness:
  "\<not> (\<exists>e. getMostRecentDrainFailedEvent [] = Inr (Some e))"
  using newest_drain_failure_chosen [of "[]"] by (auto simp: newest_failure_def)

text \<open>
  C25: The parser finds exactly the pods that the message mentions, at any place and however the
  mentions overlap with what the scan skips, outside namespaces whose name contains the text
  openshift-. A pod gets the namespace of its last such mention, and no pod is entered twice.
\<close>

theorem parsed_pods_exact:
  "keys_distinct (parsePodsAndNamespacesFromEvent event)
   \<and> map_of (parsePodsAndNamespacesFromEvent event) = map_of (rev (customer_pods (ev_Message event)))
   \<and> dom (map_of (parsePodsAndNamespacesFromEvent event)) =
       {p. \<exists>n. pod_name_ok p \<and> pod_name_ok n \<and> strings_Contains (ev_Message event) (pod_text p n)
          \<and> \<not> strings_Contains n ''openshift-''}"
proof -
  have "(p, n) \<in> set (customer_pods (ev_Message event)) \<longleftrightarrow> pod_name_ok p \<and> pod_name_ok n
      \<and> strings_Contains (ev_Message event) (pod_text p n) \<and> \<not> strings_Contains n ''openshift-''" for p n
    by (auto simp: customer_pods_def set_pod_mentions strings_Contains_sublist)
  moreover have "dom (map_of (rev ps)) = {p. \<exists>n. (p, n) \<in> set ps}" for ps :: "(string \<times> string) list"
    by (force simp: dom_map_of_conv_image_fst)
  ultimately show ?thesis
    by (simp add: keys_distinct_parse map_of_parse)
qed

text \<open>
  Some pods are never reported, however often they are mentioned: a pod whose name contains a
  dot, which Kubernetes allows but the pattern does not, and a pod in any namespace whose name
  merely contains the text openshift-, because the namespace pattern is not anchored.
\<close>

theorem pods_left_out:
  assumes "CHR ''.'' \<in> set p \<or> (\<exists>pre post. n = pre @ ''openshift-'' @ post)"
  shows "(p, n) \<notin> set (parsePodsAndNamespacesFromEvent event)"
proof
  assume "(p, n) \<in> set (parsePodsAndNamespacesFromEvent event)"
  from parse_entry [OF this] have "pod_name_ok p" "\<not> strings_Contains n ''openshift-''"
    by (auto simp: customer_pods_def set_pod_mentions)
  moreover have "\<not> word_dash CHR ''.''" by (simp add: word_dash_def byte_def)
  ultimately show False
    using assms unfolding strings_Contains_iff by (auto simp: pod_name_ok_def list_all_iff)
qed

theorem pods_left_out_witness:
  "(''web.v2'', ''shop'') \<notin> set (parsePodsAndNamespacesFromEvent
     (drain_failure (pod_text ''web.v2'' ''shop'' @ pod_text ''web'' ''my-openshift-shop'') 7))
   \<and> (''web'', ''my-openshift-shop'') \<notin> set (parsePodsAndNamespacesFromEvent
     (drain_failure (pod_text ''web.v2'' ''shop'' @ pod_text ''web'' ''my-openshift-shop'') 7))"
proof -
  have "''my-openshift-shop'' = ''my-'' @ ''openshift-'' @ ''shop''" by simp
  then have "\<exists>pre post. ''my-openshift-shop'' = pre @ ''openshift-'' @ post" by blast
  then show ?thesis using pods_left_out by simp
qed

end
