(* ===== verification/Machine_Controller.thy ===== *)
theory Machine_Controller
  imports Drain_Events Controller_Utils Aggregator_Properties
begin

section \<open>The machine controller (\<open>controllers/machine\<close>)\<close>

text \<open>
  A machine that has been deleted for a while and still reports failing evictions has its
  customer pods exported. The state machine of a request: not deleting, deleted recently, no
  drain failure since the deletion, failing; every deleting machine is looked at again later.
  \<open>status_NodeRef\<close> and the deletion timestamp are pointers in the API, and reading through a
  nil pointer panics.
\<close>

definition machineNamespace :: string where "machineNamespace = ''openshift-machine-api''"

definition timeBuffer :: duration where "timeBuffer = 15 * Minute"
definition defaultDelayInterval :: duration where "defaultDelayInterval = 5 * Minute"
definition podFailingDrainRecheckInterval :: duration where
  "podFailingDrainRecheckInterval = 2 * Minute"

record Machine =
  machine_meta :: object_meta
  status_Phase :: "string option"
  status_NodeRef :: "string option"

text \<open>
  \<open>r.List\<close> with the options of the call: the namespace and the value of the field selector
  \<open>involvedObject.name\<close>, whose index is \<open>machine_indexer\<close>.
\<close>

type_synonym ('w, 'e) event_lister = "'w \<Rightarrow> string \<Rightarrow> string \<Rightarrow> 'e + Event list"

definition machine_indexer :: "Event \<Rightarrow> string list" where
  "machine_indexer event = [ev_InvolvedObject event]"

definition evaluateDeletingMachine :: "('w, 'e) event_lister \<Rightarrow> 'g gauge_api \<Rightarrow> instant \<Rightarrow> Machine
    \<Rightarrow> 'w \<Rightarrow> 'g AdoptionMetricsAggregator \<Rightarrow> 'e outcome \<times> 'w \<times> 'g AdoptionMetricsAggregator" where
  "evaluateDeletingMachine lister pv now machine w a =
     (case m_DeletionTimestamp (machine_meta machine) of
       None \<Rightarrow> (Panicking, w, a)
     | Some deletedTime \<Rightarrow>
         if \<not> Before deletedTime (time_Add now (- timeBuffer)) then
           (RequeueAfter defaultDelayInterval, w, a)
         else
           (case lister w ''openshift-machine-api'' (m_Name (machine_meta machine)) of
             Inl err \<Rightarrow> (RequeueWithError (LibError err), w, a)
           | Inr machineEventList \<Rightarrow>
               (case getMostRecentDrainFailedEvent machineEventList of
                 Inl err \<Rightarrow>
                   if err = errNoEvents then (RequeueAfter defaultDelayInterval, w, a)
                   else (RequeueAfter defaultDelayInterval, w, a)
               | Inr None \<Rightarrow> (RequeueAfter defaultDelayInterval, w, a)
               | Inr (Some event) \<Rightarrow>
                   if After deletedTime (ev_LastTimestamp event) then
                     (RequeueAfter defaultDelayInterval, w, a)
                   else
                     (let pods = parsePodsAndNamespacesFromEvent event in
                      case status_NodeRef machine of
                        None \<Rightarrow> (Panicking, w, a)
                      | Some node \<Rightarrow>
                          after_call
                            (SetFailingDrainPodsForMachine pv (m_Name (machine_meta machine))
                               pods node a) w
                            (\<lambda>a. (RequeueAfter podFailingDrainRecheckInterval, w, a))))))"

definition MachineReconcile :: "('w, Machine, 'e) client \<Rightarrow> ('w, 'e) event_lister
    \<Rightarrow> 'g gauge_api \<Rightarrow> instant \<Rightarrow> NamespacedName
    \<Rightarrow> 'w \<Rightarrow> 'g AdoptionMetricsAggregator \<Rightarrow> 'e outcome \<times> 'w \<times> 'g AdoptionMetricsAggregator" where
  "MachineReconcile k lister pv now req w a =
     (case Get k w \<lparr>nn_Namespace = machineNamespace, nn_Name = nn_Name req\<rparr> of
       Inl err \<Rightarrow>
         if IsNotFound k err then
           after_call (RemoveMachineMetrics pv (nn_Name req) a) w (\<lambda>a. (DoNotRequeue, w, a))
         else (RequeueWithError (LibError err), w, a)
     | Inr machine \<Rightarrow>
         if status_Phase machine \<noteq> None \<and> the (status_Phase machine) = ''Deleting'' then
           evaluateDeletingMachine lister pv now machine w a
         else (DoNotRequeue, w, a))"

subsection \<open>What a deleting machine amounts to\<close>

text \<open>
  The abstract verdict on a machine: its report, a reason to wait, or a failure of the
  reconcile.
\<close>

datatype 'e verdict = Report string "(string, string) go_map" | Wait | Failed 'e | Nil_dereference

definition machine_verdict :: "('w, 'e) event_lister \<Rightarrow> instant \<Rightarrow> Machine \<Rightarrow> 'w \<Rightarrow> 'e verdict" where
  "machine_verdict lister now machine w =
     (case m_DeletionTimestamp (machine_meta machine) of
       None \<Rightarrow> Nil_dereference
     | Some deleted \<Rightarrow>
        if now - deleted \<le> 15 * Minute then Wait
        else case lister w machineNamespace (m_Name (machine_meta machine)) of
          Inl err \<Rightarrow> Failed err
        | Inr events \<Rightarrow>
            (case getMostRecentDrainFailedEvent events of
              Inr (Some e) \<Rightarrow>
                if ev_LastTimestamp e < deleted then Wait
                else (case status_NodeRef machine of
                  None \<Rightarrow> Nil_dereference
                | Some node \<Rightarrow> Report node (parsePodsAndNamespacesFromEvent e))
            | _ \<Rightarrow> Wait))"

lemma evaluate_by_verdict:
  "evaluateDeletingMachine lister pv now machine w a =
     (case machine_verdict lister now machine w of
       Report node pods \<Rightarrow>
         after_call (SetFailingDrainPodsForMachine pv (m_Name (machine_meta machine)) pods node a) w
           (\<lambda>a. (RequeueAfter podFailingDrainRecheckInterval, w, a))
     | Wait \<Rightarrow> (RequeueAfter defaultDelayInterval, w, a)
     | Failed err \<Rightarrow> (RequeueWithError (LibError err), w, a)
     | Nil_dereference \<Rightarrow> (Panicking, w, a))"
proof -
  have "Before t (time_Add now (- timeBuffer)) \<longleftrightarrow> \<not> now - t \<le> 15 * Minute" for t
    by (auto simp: Before_def time_Add_def timeBuffer_def)
  then show ?thesis
    unfolding evaluateDeletingMachine_def machine_verdict_def machineNamespace_def After_def
    by (simp split: option.splits sum.splits)
qed

lemma verdict_wf:
  assumes "machine_verdict lister now machine w = Report node pods"
    and "ValidString (m_Name (machine_meta machine))" "ValidString node"
  shows "machine_wf (m_Name (machine_meta machine)) \<lparr>nodeName = node, podNamespaces = pods\<rparr>"
  using assms parse_entry_valid
  by (auto simp: machine_verdict_def machine_wf_def keys_distinct_parse
      split: option.splits sum.splits if_splits)

text \<open>
  The events of a report: the message is that of the newest drain failure, which happened no
  earlier than the deletion, which is more than a quarter of an hour ago.
\<close>

lemma verdict_report:
  assumes "machine_verdict lister now machine w = Report node pods"
  obtains deleted events e where "m_DeletionTimestamp (machine_meta machine) = Some deleted"
    "deleted + 15 * Minute < now" "status_NodeRef machine = Some node"
    "lister w machineNamespace (m_Name (machine_meta machine)) = Inr events"
    "newest_failure events e" "deleted \<le> ev_LastTimestamp e"
    "pods = parsePodsAndNamespacesFromEvent e"
proof -
  from assms obtain deleted events e where *: "m_DeletionTimestamp (machine_meta machine) = Some deleted"
    "deleted + 15 * Minute < now" "status_NodeRef machine = Some node"
    "lister w machineNamespace (m_Name (machine_meta machine)) = Inr events"
    "getMostRecentDrainFailedEvent events = Inr (Some e)" "deleted \<le> ev_LastTimestamp e"
    "pods = parsePodsAndNamespacesFromEvent e"
    by (auto simp: machine_verdict_def split: option.splits sum.splits if_splits)
  then have "newest_failure events e"
    using most_recent_fold [of events] by (simp add: getMostRecentDrainFailedEvent_def split: if_splits)
  with * that show ?thesis by blast
qed

subsection \<open>Properties\<close>

definition valid_nodes :: "('w, Machine, 'e) client \<Rightarrow> bool" where
  "valid_nodes k \<longleftrightarrow> (\<forall>w key machine node. Get k w key = Inr machine \<longrightarrow>
     ValidString (m_Name (machine_meta machine))
     \<and> (status_NodeRef machine = Some node \<longrightarrow> ValidString node))"

definition is_deleting :: "Machine \<Rightarrow> bool" where
  "is_deleting machine \<longleftrightarrow> status_Phase machine = Some ''Deleting''"

abbreviation machine_key :: "NamespacedName \<Rightarrow> NamespacedName" where
  "machine_key req \<equiv> \<lparr>nn_Namespace = machineNamespace, nn_Name = nn_Name req\<rparr>"

lemma MachineReconcile_deleting:
  "Get k w (machine_key req) = Inr machine \<Longrightarrow> is_deleting machine \<Longrightarrow>
   MachineReconcile k lister pv now req w a = evaluateDeletingMachine lister pv now machine w a"
  by (simp add: MachineReconcile_def is_deleting_def)

lemma MachineReconcile_not_deleting:
  "Get k w (machine_key req) = Inr machine \<Longrightarrow> \<not> is_deleting machine \<Longrightarrow>
   MachineReconcile k lister pv now req w a = (DoNotRequeue, w, a)"
  by (auto simp: MachineReconcile_def is_deleting_def)

lemma machine_cases:
  assumes pv: "gauge_vec pv" and wf: "agg_wf pv a" and valid: "valid_nodes k"
  shows "\<exists>out a'. MachineReconcile k lister pv now req w a = (out, w, a') \<and> agg_wf pv a'
    \<and> providerMap a' = providerMap a \<and>
    (case Get k w (machine_key req) of
      Inl err \<Rightarrow>
        if IsNotFound k err then out = DoNotRequeue
          \<and> drainingMachines a' = map_del (nn_Name req) (drainingMachines a)
          \<and> exported pv a' = expo_drain (drainingMachines a') (exported pv a)
        else out = RequeueWithError (LibError err) \<and> a' = a
    | Inr machine \<Rightarrow>
        if \<not> is_deleting machine then out = DoNotRequeue \<and> a' = a
        else case machine_verdict lister now machine w of
          Report node pods \<Rightarrow> out = RequeueAfter podFailingDrainRecheckInterval
            \<and> drainingMachines a' = map_put (m_Name (machine_meta machine))
                \<lparr>nodeName = node, podNamespaces = pods\<rparr> (drainingMachines a)
            \<and> exported pv a' = expo_drain (drainingMachines a') (exported pv a)
        | Wait \<Rightarrow> out = RequeueAfter defaultDelayInterval \<and> a' = a
        | Failed err \<Rightarrow> out = RequeueWithError (LibError err) \<and> a' = a
        | Nil_dereference \<Rightarrow> out = Panicking \<and> a' = a)"
proof (cases "Get k w (machine_key req)")
  case (Inl err)
  then show ?thesis using RemoveMachineMetrics_ok [OF pv wf, of "nn_Name req"] wf
    by (auto simp: MachineReconcile_def)
next
  case get: (Inr machine)
  show ?thesis
  proof (cases "is_deleting machine")
    case False
    then show ?thesis using get wf by (simp add: MachineReconcile_not_deleting)
  next
    case True
    show ?thesis
    proof (cases "machine_verdict lister now machine w")
      case (Report node pods)
      then have "status_NodeRef machine = Some node" by (rule verdict_report)
      then have "machine_wf (m_Name (machine_meta machine)) \<lparr>nodeName = node, podNamespaces = pods\<rparr>"
        using verdict_wf [OF Report] valid get by (simp add: valid_nodes_def)
      from SetFailingDrainPods_ok [OF pv wf this] show ?thesis
        using get True Report by (auto simp: MachineReconcile_deleting evaluate_by_verdict)
    qed (use get True wf in \<open>simp_all add: MachineReconcile_deleting evaluate_by_verdict\<close>)
  qed
qed

text \<open>An instance: one machine, deleted at time 0, looked at an hour later.\<close>

definition stuck_machine :: Machine where
  "stuck_machine = \<lparr>machine_meta = \<lparr>m_Name = ''m1'', m_Namespace = machineNamespace,
      m_Finalizers = [], m_DeletionTimestamp = Some 1\<rparr>,
     status_Phase = Some ''Deleting'', status_NodeRef = Some ''n1''\<rparr>"

definition machine_client :: "Machine option \<Rightarrow> (unit, Machine, mem_error) client" where
  "machine_client machine = \<lparr>
     Get = (\<lambda>w key. case machine of None \<Rightarrow> Inl Mem_NotFound | Some m \<Rightarrow> Inr m),
     Update = (\<lambda>w obj. (Inr obj, w)), IsNotFound = (\<lambda>e. e = Mem_NotFound),
     AddFinalizer = (\<lambda>fs f. f # fs), RemoveFinalizer = (\<lambda>fs f. removeAll f fs)\<rparr>"

definition machine_request :: NamespacedName where
  "machine_request = \<lparr>nn_Namespace = machineNamespace, nn_Name = ''m1''\<rparr>"

definition failure_lister :: "(unit, mem_error) event_lister" where
  "failure_lister = (\<lambda>w ns name. Inr [drain_failure (pod_text ''web'' ''shop'') 2])"

lemma machine_client_valid:
  "valid_nodes (machine_client (Some stuck_machine))" "valid_nodes (machine_client None)"
  by (simp_all add: valid_nodes_def machine_client_def stuck_machine_def byte_def)

text \<open>
  C24: What a reconcile does to a machine, in full. A machine that is gone has its drain series
  withdrawn. A machine that is not deleting is finished. For a deleting one the verdict decides:
  its pods are reported and it is looked at again in two minutes, or in five minutes without a
  report, or the error of the event query is passed on. Nothing but the drain metric changes.
\<close>

theorem machine_reconcile_effect:
  assumes "gauge_vec pv" and "agg_wf pv a" and "valid_nodes k"
  shows "\<exists>out a'. MachineReconcile k lister pv now req w a = (out, w, a') \<and> agg_wf pv a' \<and>
    (case Get k w (machine_key req) of
      Inl err \<Rightarrow>
        if IsNotFound k err then out = DoNotRequeue
          \<and> exported pv a' = expo_drain (map_del (nn_Name req) (drainingMachines a)) (exported pv a)
        else out = RequeueWithError (LibError err) \<and> a' = a
    | Inr machine \<Rightarrow>
        if \<not> is_deleting machine then out = DoNotRequeue \<and> a' = a
        else case machine_verdict lister now machine w of
          Report node pods \<Rightarrow> out = RequeueAfter podFailingDrainRecheckInterval
            \<and> exported pv a' = expo_drain (map_put (m_Name (machine_meta machine))
                \<lparr>nodeName = node, podNamespaces = pods\<rparr> (drainingMachines a)) (exported pv a)
        | Wait \<Rightarrow> out = RequeueAfter defaultDelayInterval \<and> a' = a
        | Failed err \<Rightarrow> out = RequeueWithError (LibError err) \<and> a' = a
        | Nil_dereference \<Rightarrow> out = Panicking \<and> a' = a)"
proof -
  obtain out a' where c: "MachineReconcile k lister pv now req w a = (out, w, a') \<and> agg_wf pv a'"
    and cases: "case Get k w (machine_key req) of
      Inl err \<Rightarrow>
        if IsNotFound k err then out = DoNotRequeue
          \<and> drainingMachines a' = map_del (nn_Name req) (drainingMachines a)
          \<and> exported pv a' = expo_drain (drainingMachines a') (exported pv a)
        else out = RequeueWithError (LibError err) \<and> a' = a
    | Inr machine \<Rightarrow>
        if \<not> is_deleting machine then out = DoNotRequeue \<and> a' = a
        else case machine_verdict lister now machine w of
          Report node pods \<Rightarrow> out = RequeueAfter podFailingDrainRecheckInterval
            \<and> drainingMachines a' = map_put (m_Name (machine_meta machine))
                \<lparr>nodeName = node, podNamespaces = pods\<rparr> (drainingMachines a)
            \<and> exported pv a' = expo_drain (drainingMachines a') (exported pv a)
        | Wait \<Rightarrow> out = RequeueAfter defaultDelayInterval \<and> a' = a
        | Failed err \<Rightarrow> out = RequeueWithError (LibError err) \<and> a' = a
        | Nil_dereference \<Rightarrow> out = Panicking \<and> a' = a"
    using machine_cases [OF assms, of lister now req w] by blast
  show ?thesis
    by (intro exI [of _ out] exI [of _ a'] conjI c [THEN conjunct1] c [THEN conjunct2])
      (use cases in \<open>auto split: sum.splits verdict.splits\<close>)
qed

theorem machine_reconcile_effect_witness:
  "\<exists>a'. MachineReconcile (machine_client None) failure_lister map_api 0 machine_request ()
      (new_collector map_api Minute) = (DoNotRequeue, (), a')
    \<and> exported map_api a' Pods_Preventing_Node_Drain [''web'', ''shop'', ''n1'', ''n1'', ''m1''] = None"
  using machine_reconcile_effect [OF map_api_gauges new_collector_map_wf [of Minute] machine_client_valid(2),
      of failure_lister 0 machine_request "()"]
  by (auto simp: machine_client_def machine_request_def expo_drain_def drain_series_def drain_keys_def
      set_map_del)

lemma machine_new_series:
  assumes pv: "gauge_vec pv" and wf: "agg_wf pv a" and nodes: "valid_nodes k"
    and get: "Get k w (machine_key req) = Inr machine"
    and run: "MachineReconcile k lister pv now req w a = (out, w', a')"
    and new: "exported pv a' Pods_Preventing_Node_Drain [p, ns, n1, n2, m] = Some 1"
    and old: "exported pv a Pods_Preventing_Node_Drain [p, ns, n1, n2, m] \<noteq> Some 1"
  obtains node pods where "is_deleting machine" "machine_verdict lister now machine w = Report node pods"
    "m = m_Name (machine_meta machine)" "n1 = node" "n2 = node" "(p, ns) \<in> set pods"
proof -
  have "a' \<noteq> a" using new old by auto
  then obtain node pods where del: "is_deleting machine"
      and rep: "machine_verdict lister now machine w = Report node pods"
      and e: "exported pv a' = expo_drain (map_put (m_Name (machine_meta machine))
        \<lparr>nodeName = node, podNamespaces = pods\<rparr> (drainingMachines a)) (exported pv a)"
    using machine_cases [OF pv wf nodes, of lister now req w] get run
    by (cases "machine_verdict lister now machine w") (auto split: if_splits)
  have "keys_distinct (drainingMachines a)"
      "exported pv a Pods_Preventing_Node_Drain = drain_series (drainingMachines a)"
    using wf by (simp_all add: agg_wf_def drain_wf_def)
  then have "m = m_Name (machine_meta machine) \<and> n1 = node \<and> n2 = node \<and> (p, ns) \<in> set pods"
    using e new old by (auto simp: expo_drain_def drain_series_put split: if_splits)
  with del rep that show ?thesis by blast
qed

text \<open>
  A reconcile newly exports a pod as blocking a drain only for the machine it reconciles and its
  node, if that machine was deleted more than a quarter of an hour ago, on the evidence of the
  newest drain failure among its events, which must not be older than the deletion and must
  mention the pod and its namespace, a namespace without openshift- in its name.
\<close>

theorem drain_report_justified:
  assumes "gauge_vec pv" and "agg_wf pv a" and "valid_nodes k"
    and "Get k w (machine_key req) = Inr machine"
    and "MachineReconcile k lister pv now req w a = (out, w', a')"
    and "exported pv a' Pods_Preventing_Node_Drain [p, ns, n1, n2, m] = Some 1"
    and "exported pv a Pods_Preventing_Node_Drain [p, ns, n1, n2, m] \<noteq> Some 1"
  shows "m = m_Name (machine_meta machine) \<and> status_NodeRef machine = Some n1 \<and> n2 = n1
    \<and> status_Phase machine = Some ''Deleting''
    \<and> (\<exists>deleted events e. m_DeletionTimestamp (machine_meta machine) = Some deleted
        \<and> deleted + 15 * Minute < now
        \<and> lister w machineNamespace (m_Name (machine_meta machine)) = Inr events
        \<and> newest_failure events e \<and> deleted \<le> ev_LastTimestamp e
        \<and> strings_Contains (ev_Message e) (pod_text p ns) \<and> \<not> strings_Contains ns ''openshift-'')"
proof -
  from machine_new_series [OF assms] obtain node pods where *: "is_deleting machine"
    "machine_verdict lister now machine w = Report node pods" "m = m_Name (machine_meta machine)"
    "n1 = node" "n2 = node" "(p, ns) \<in> set pods" .
  from *(2) obtain deleted events e where v: "m_DeletionTimestamp (machine_meta machine) = Some deleted"
    "deleted + 15 * Minute < now" "status_NodeRef machine = Some node"
    "lister w machineNamespace (m_Name (machine_meta machine)) = Inr events"
    "newest_failure events e" "deleted \<le> ev_LastTimestamp e" "pods = parsePodsAndNamespacesFromEvent e"
    by (rule verdict_report)
  with *(6) have "(p, ns) \<in> set (customer_pods (ev_Message e))" by (simp add: parse_entry)
  with * v show ?thesis
    by (auto simp: customer_pods_def set_pod_mentions strings_Contains_sublist is_deleting_def)
qed

text \<open>The stuck machine is reported, whatever lists its one event.\<close>

abbreviation stuck_events :: "Event list" where
  "stuck_events \<equiv> [drain_failure (pod_text ''web'' ''shop'') 2]"

lemma failure_verdict:
  assumes "el () machineNamespace ''m1'' = Inr stuck_events"
  shows "machine_verdict el (16 * Minute) stuck_machine () =
     Report ''n1'' (parsePodsAndNamespacesFromEvent (drain_failure (pod_text ''web'' ''shop'') 2))"
proof -
  have "isErrorEvictingPodsEvent (drain_failure (pod_text ''web'' ''shop'') 2)"
    by (simp add: isErrorEvictingPodsEvent_def drain_failure_def)
  then have "getMostRecentDrainFailedEvent stuck_events
      = Inr (Some (drain_failure (pod_text ''web'' ''shop'') 2))"
    by (simp add: getMostRecentDrainFailedEvent_def getMostRecentEvent_def)
  moreover have "ev_LastTimestamp (drain_failure (pod_text ''web'' ''shop'') 2) = 2"
    by (simp add: drain_failure_def)
  ultimately show ?thesis
    using assms by (simp add: machine_verdict_def stuck_machine_def Minute_def)
qed

lemma failure_pods:
  "(''web'', ''shop'') \<in> set (parsePodsAndNamespacesFromEvent (drain_failure (pod_text ''web'' ''shop'') 2))"
proof -
  let ?msg = "ev_Message (drain_failure (pod_text ''web'' ''shop'') 2)"
  have names: "pod_name_ok ''web''" "pod_name_ok ''shop''"
    by (simp_all add: pod_name_ok_def word_dash_def byte_def)
  have "pod_mentions ?msg = [(''web'', ''shop'')]"
    using pod_mentions_text [OF names, of "[]"]
    by (simp add: drain_failure_def pods_re_def quote_def)
  then show ?thesis
    by (simp add: parse_eq customer_pods_def map_put_def)
qed

lemma stuck_machine_reported:
  assumes "el () machineNamespace ''m1'' = Inr stuck_events"
  obtains out a' where "Get (machine_client (Some stuck_machine)) () (machine_key machine_request) = Inr stuck_machine"
    and "MachineReconcile (machine_client (Some stuck_machine)) el map_api (16 * Minute) machine_request ()
        (new_collector map_api Minute) = (out, (), a')"
    and "exported map_api a' Pods_Preventing_Node_Drain [''web'', ''shop'', ''n1'', ''n1'', ''m1''] = Some 1"
    and "exported map_api (new_collector map_api Minute) Pods_Preventing_Node_Drain
        [''web'', ''shop'', ''n1'', ''n1'', ''m1''] \<noteq> Some 1"
proof -
  have get: "Get (machine_client (Some stuck_machine)) () (machine_key machine_request) = Inr stuck_machine"
    "is_deleting stuck_machine" "m_Name (machine_meta stuck_machine) = ''m1''"
    by (simp_all add: machine_client_def is_deleting_def stuck_machine_def)
  obtain out a' where run: "MachineReconcile (machine_client (Some stuck_machine)) el map_api
        (16 * Minute) machine_request () (new_collector map_api Minute) = (out, (), a')"
    and e: "exported map_api a' = expo_drain (map_put ''m1'' \<lparr>nodeName = ''n1'', podNamespaces =
        parsePodsAndNamespacesFromEvent (drain_failure (pod_text ''web'' ''shop'') 2)\<rparr>
        (drainingMachines (new_collector map_api Minute))) (exported map_api (new_collector map_api Minute))"
    using machine_cases [OF map_api_gauges new_collector_map_wf [of Minute] machine_client_valid(1),
        of el "16 * Minute" machine_request "()"] get failure_verdict [of el, OF assms]
    by auto
  have none: "drainingMachines (new_collector map_api Minute) = []" by (simp add: new_collector_def)
  have "exported map_api a' Pods_Preventing_Node_Drain [''web'', ''shop'', ''n1'', ''n1'', ''m1''] = Some 1"
    using failure_pods by (simp add: e expo_drain_def drain_series_put none)
  moreover have "exported map_api (new_collector map_api Minute) Pods_Preventing_Node_Drain
      [''web'', ''shop'', ''n1'', ''n1'', ''m1''] \<noteq> Some 1"
    using new_collector_wf(2) [OF map_api_gauges, of Minute] by simp
  ultimately show ?thesis using that get(1) run by blast
qed

theorem drain_report_justified_witness:
  "\<exists>out w' a'. MachineReconcile (machine_client (Some stuck_machine)) failure_lister map_api (16 * Minute)
      machine_request () (new_collector map_api Minute) = (out, w', a')
    \<and> exported map_api a' Pods_Preventing_Node_Drain [''web'', ''shop'', ''n1'', ''n1'', ''m1''] = Some 1
    \<and> (\<exists>e. newest_failure [drain_failure (pod_text ''web'' ''shop'') 2] e \<and> 1 \<le> ev_LastTimestamp e)"
proof -
  have "failure_lister () machineNamespace ''m1'' = Inr stuck_events" by (simp add: failure_lister_def)
  then obtain out a' where stuck:
      "Get (machine_client (Some stuck_machine)) () (machine_key machine_request) = Inr stuck_machine"
      "MachineReconcile (machine_client (Some stuck_machine)) failure_lister map_api (16 * Minute)
        machine_request () (new_collector map_api Minute) = (out, (), a')"
      "exported map_api a' Pods_Preventing_Node_Drain [''web'', ''shop'', ''n1'', ''n1'', ''m1''] = Some 1"
      "exported map_api (new_collector map_api Minute) Pods_Preventing_Node_Drain
        [''web'', ''shop'', ''n1'', ''n1'', ''m1''] \<noteq> Some 1"
    by (rule stuck_machine_reported)
  from drain_report_justified [OF map_api_gauges new_collector_map_wf machine_client_valid(1) stuck]
  have "\<exists>e. newest_failure stuck_events e \<and> 1 \<le> ev_LastTimestamp e"
    by (auto simp: failure_lister_def stuck_machine_def)
  with stuck show ?thesis by blast
qed

text \<open>
  A deleting machine is never dropped from the work queue: every reconcile of it asks to be
  run again after two or five minutes, or fails, which makes the queue retry.
\<close>

theorem deleting_machine_revisited:
  assumes "gauge_vec pv" and "agg_wf pv a" and "valid_nodes k"
    and "Get k w (machine_key req) = Inr machine" and "is_deleting machine"
  shows "\<exists>out a'. MachineReconcile k lister pv now req w a = (out, w, a') \<and> \<not> finished out
    \<and> (requeued_in out = Some (2 * Minute) \<or> requeued_in out = Some (5 * Minute)
       \<or> out = Panicking \<or> (\<exists>err. out = RequeueWithError err))"
proof -
  have "\<not> finished (RequeueAfter podFailingDrainRecheckInterval)"
    "\<not> finished (RequeueAfter defaultDelayInterval)"
    "requeued_in (RequeueAfter podFailingDrainRecheckInterval) = Some (2 * Minute)"
    "requeued_in (RequeueAfter defaultDelayInterval) = Some (5 * Minute)"
    by (simp_all add: finished_def RequeueAfter_def empty_Result_def requeued_in_def
        podFailingDrainRecheckInterval_def defaultDelayInterval_def Minute_def)
  then show ?thesis
    using machine_cases [OF assms(1-3), of lister now req w] assms(4,5)
    by (cases "machine_verdict lister now machine w") fastforce+
qed

theorem deleting_machine_revisited_witness:
  "\<exists>out a'. MachineReconcile (machine_client (Some stuck_machine)) failure_lister map_api (16 * Minute)
      machine_request () (new_collector map_api Minute) = (out, (), a') \<and> \<not> finished out"
proof -
  have "Get (machine_client (Some stuck_machine)) () (machine_key machine_request) = Inr stuck_machine"
    "is_deleting stuck_machine"
    by (simp_all add: machine_client_def is_deleting_def stuck_machine_def)
  from deleting_machine_revisited [OF map_api_gauges new_collector_map_wf [of Minute]
      machine_client_valid(1) this, of failure_lister "16 * Minute"]
  show ?thesis by blast
qed

text \<open>
  C38: A report of a deleting machine is not withdrawn when its drain no longer fails. If the machine is in the phase
  Deleting and has a deletion time, its events can be listed, and every eviction failure among them, if there is one, is
  older than the deletion, as when the events have expired or only events of other kinds are left, then a reconcile
  leaves every metric as it was and looks at the machine again in five minutes.
\<close>

theorem resolved_drain_stays_reported:
  assumes "gauge_vec pv" and "agg_wf pv a" and "valid_nodes k"
    and "Get k w (machine_key req) = Inr machine" and "is_deleting machine"
    and "m_DeletionTimestamp (machine_meta machine) = Some deleted"
    and "lister w machineNamespace (m_Name (machine_meta machine)) = Inr events"
    and "\<forall>e \<in> set events. isErrorEvictingPodsEvent e \<longrightarrow> ev_LastTimestamp e < deleted"
  shows "MachineReconcile k lister pv now req w a = (RequeueAfter defaultDelayInterval, w, a)"
proof -
  have "ev_LastTimestamp e < deleted" if "getMostRecentDrainFailedEvent events = Inr (Some e)" for e
    using most_recent_fold [of events] assms(8) that
    by (auto simp: getMostRecentDrainFailedEvent_def newest_failure_def split: option.splits if_splits)
  then have "machine_verdict lister now machine w = Wait"
    using assms(6,7) by (auto simp: machine_verdict_def split: option.splits sum.splits)
  then show ?thesis
    using assms(4,5) by (simp add: MachineReconcile_deleting evaluate_by_verdict)
qed

text \<open>The failure of the example is from before the deletion at the time 1.\<close>

theorem resolved_drain_stays_reported_witness:
  "MachineReconcile (machine_client (Some stuck_machine)) (\<lambda>w ns name. Inr [drain_failure (pod_text ''web'' ''shop'') 0])
      map_api (16 * Minute) machine_request () (new_collector map_api Minute) =
     (RequeueAfter defaultDelayInterval, (), new_collector map_api Minute)"
  by (rule resolved_drain_stays_reported [OF map_api_gauges new_collector_map_wf machine_client_valid(1),
        where machine = stuck_machine and deleted = 1 and events = "[drain_failure (pod_text ''web'' ''shop'') 0]"])
    (simp_all add: machine_client_def is_deleting_def stuck_machine_def drain_failure_def)

end
