(* ===== verification/Manager.thy ===== *)
theory Manager
  imports Go_Flag Group_Controller OAuth_Controller ClusterRole_Controller LimitedSupport_Controller
    Proxy_Controller ConfigMap_Controller CPMS_Controller PullSecret_Controller Machine_Controller
begin

section \<open>What main hands to the manager\<close>

text \<open>
  The manager of controller-runtime owns the type scheme, the caches and the watches of the
  process. This theory holds what the program gives it: the types of \<open>init\<close>, the options of
  \<open>main\<close>, the structs of the nine reconcilers with their \<open>SetupWithManager\<close>, and the settings of
  the metrics service. The calls themselves are parameters.
\<close>

subsection \<open>The names of the operator (\<open>config/config.go\<close>)\<close>

definition OperatorName :: string where "OperatorName = ''osd-metrics-exporter''"
definition OperatorNamespace :: string where "OperatorNamespace = ''openshift-osd-metrics''"
definition EnableOLMSkipRange :: string where "EnableOLMSkipRange = ''true''"

subsection \<open>Types and the scheme\<close>

text \<open>The packages that \<open>init\<close> adds, and the types the program uses, by the package it names them with.\<close>

datatype api_package =
    Clientgoscheme | Machinev1 | Corev1 | Configv1 | Machinev1beta1 | PromOperatorv1 | Rbacv1
  | Routev1 | Userv1

datatype object_kind =
    ClusterVersion_K | ClusterRole_K | ConfigMap_K | Group_K | Machine_K | Event_K | OAuth_K
  | Proxy_K | Secret_K | ControlPlaneMachineSet_K

fun kind_package :: "object_kind \<Rightarrow> api_package" where
  "kind_package ClusterVersion_K = Configv1"
| "kind_package ClusterRole_K = Rbacv1"
| "kind_package ConfigMap_K = Corev1"
| "kind_package Group_K = Userv1"
| "kind_package Machine_K = Machinev1beta1"
| "kind_package Event_K = Corev1"
| "kind_package OAuth_K = Configv1"
| "kind_package Proxy_K = Configv1"
| "kind_package Secret_K = Corev1"
| "kind_package ControlPlaneMachineSet_K = Machinev1"

text \<open>
  A scheme knows types. \<open>AddToScheme\<close> stands for \<open>AddToScheme\<close> and \<open>Install\<close> of a package, which add
  its types and may return an error; \<open>utilruntime.Must\<close> panics on an error.
\<close>

record ('s, 'e) scheme_api =
  NewScheme :: 's
  AddToScheme :: "api_package \<Rightarrow> 's \<Rightarrow> 'e option \<times> 's"
  Recognizes :: "'s \<Rightarrow> object_kind \<Rightarrow> bool"

definition Must :: "'e option \<times> 's \<Rightarrow> 's exec" where
  "Must r = (case r of (None, s) \<Rightarrow> Ok s | (Some err, s) \<Rightarrow> Panicked s)"

definition init_scheme :: "('s, 'e) scheme_api \<Rightarrow> 's exec" where
  "init_scheme api =
     range_exec (\<lambda>p s. Must (AddToScheme api p s))
       [Clientgoscheme, Machinev1, Corev1, Configv1, Machinev1beta1, PromOperatorv1, Rbacv1, Routev1, Userv1]
       (NewScheme api)"

locale type_scheme =
  fixes api :: "('s, 'e) scheme_api"
  assumes adds: "AddToScheme api (kind_package kind) s = (None, s') \<Longrightarrow> Recognizes api s' kind"
    and keeps: "Recognizes api s kind \<Longrightarrow> AddToScheme api p s = (r, s') \<Longrightarrow> Recognizes api s' kind"
begin

lemma range_adds:
  assumes "range_exec (\<lambda>p s. Must (AddToScheme api p s)) ps s = Ok s'"
    and "kind_package kind \<in> set ps \<or> Recognizes api s kind"
  shows "Recognizes api s' kind"
  using assms
proof (induction ps arbitrary: s)
  case (Cons p ps)
  then obtain s1 where s1: "AddToScheme api p s = (None, s1)"
      "range_exec (\<lambda>p s. Must (AddToScheme api p s)) ps s1 = Ok s'"
    by (auto simp: exec_bind_Ok_iff Must_def split: prod.splits option.splits)
  then show ?case using Cons adds keeps by (metis set_ConsD)
qed simp

text \<open>After \<open>init\<close> the scheme knows every type of the program.\<close>

lemma init_recognizes:
  assumes "init_scheme api = Ok s" shows "Recognizes api s kind"
  using range_adds [OF assms [unfolded init_scheme_def], of kind] by (cases kind) simp_all

end

text \<open>A scheme that is a list of packages.\<close>

definition list_scheme :: "(api_package list, 'e) scheme_api" where
  "list_scheme = \<lparr>NewScheme = [], AddToScheme = (\<lambda>p s. (None, p # s)),
     Recognizes = (\<lambda>s kind. kind_package kind \<in> set s)\<rparr>"

interpretation list_scheme: type_scheme list_scheme
  by unfold_locales (auto simp: list_scheme_def)

subsection \<open>The options of the manager\<close>

text \<open>The namespaces of the cache, with the empty configuration that each entry has.\<close>

definition watchNamespaces :: "(string, unit) go_map" where
  "watchNamespaces = [(''openshift-osd-metrics'', ()), (''openshift-config'', ()), (''openshift-machine-api'', ())]"

record cache_options =
  DefaultNamespaces :: "(string, unit) go_map"
  ByObject_Namespaces :: "(object_kind, (string, unit) go_map) go_map"

record 's manager_options =
  opt_Scheme :: 's
  opt_Metrics_BindAddress :: string
  opt_WebhookServer_Port :: int
  opt_HealthProbeBindAddress :: string
  opt_LeaderElection :: bool
  opt_LeaderElectionID :: string
  opt_Cache :: cache_options

definition manager_options :: "'s \<Rightarrow> string \<Rightarrow> bool \<Rightarrow> 's manager_options" where
  "manager_options scheme probeAddr enableLeaderElection = \<lparr>
     opt_Scheme = scheme,
     opt_Metrics_BindAddress = ''0'',
     opt_WebhookServer_Port = 9443,
     opt_HealthProbeBindAddress = probeAddr,
     opt_LeaderElection = enableLeaderElection,
     opt_LeaderElectionID = ''osd-metrics-exporter-lock'',
     opt_Cache = \<lparr>
       DefaultNamespaces = watchNamespaces,
       ByObject_Namespaces = [(Secret_K, [(''openshift-config'', ())])]\<rparr>\<rparr>"

text \<open>The flags that \<open>main\<close> defines; the packages it imports may define others.\<close>

definition main_flags :: "(string, flag_kind) go_map" where
  "main_flags = [(''health-probe-bind-address'', String_flag), (''enable-leader-election'', Bool_flag)]"

definition probeAddr :: "(string, string) go_map \<Rightarrow> string" where
  "probeAddr vals = flag_string vals ''health-probe-bind-address'' '':8081''"

definition enableLeaderElection :: "(string, string) go_map \<Rightarrow> bool" where
  "enableLeaderElection vals = flag_bool vals ''enable-leader-election'' False"

subsection \<open>The metrics service\<close>

definition metricsPort :: string where "metricsPort = ''8383''"

record 'g metrics_config =
  mc_Namespace :: string
  mc_Name :: string
  mc_Path :: string
  mc_Port :: string
  mc_ServiceMonitor :: bool
  mc_Collectors :: "'g list"

definition metricsConfig :: "'g list \<Rightarrow> 'g metrics_config" where
  "metricsConfig metrics = \<lparr>mc_Namespace = OperatorNamespace, mc_Name = OperatorName,
     mc_Path = ''/metrics'', mc_Port = metricsPort, mc_ServiceMonitor = True, mc_Collectors = metrics\<rparr>"

subsection \<open>The reconcilers\<close>

text \<open>
  The structs hold the client and the scheme of the manager, the pointer to the
  aggregator and the cluster id. A pointer is a position in the heap of aggregators.
\<close>

type_synonym agg_ptr = nat

record ('k, 's) ClusterRoleReconciler =
  clusterrole_Client :: 'k
  clusterrole_Scheme :: 's

record ('k, 's) ConfigMapReconciler =
  configmap_Client :: 'k
  configmap_Scheme :: 's
  configmap_MetricsAggregator :: agg_ptr
  configmap_ClusterId :: string

record ('k, 's) GroupReconciler =
  group_Client :: 'k
  group_Scheme :: 's
  group_MetricsAggregator :: agg_ptr
  group_ClusterId :: string

record ('k, 's) LimitedSupportConfigMapReconciler =
  limited_support_Client :: 'k
  limited_support_Scheme :: 's
  limited_support_MetricsAggregator :: agg_ptr
  limited_support_ClusterId :: string

record ('k, 's) MachineReconciler =
  machine_Client :: 'k
  machine_Scheme :: 's
  machine_MetricsAggregator :: agg_ptr
  machine_ClusterId :: string

record ('k, 's) OAuthReconciler =
  oauth_Client :: 'k
  oauth_Scheme :: 's
  oauth_MetricsAggregator :: agg_ptr

record ('k, 's) ProxyReconciler =
  proxy_Client :: 'k
  proxy_Scheme :: 's
  proxy_MetricsAggregator :: agg_ptr
  proxy_ClusterId :: string

record ('k, 's) PullSecretReconciler =
  pullsecret_Client :: 'k
  pullsecret_Scheme :: 's
  pullsecret_MetricsAggregator :: agg_ptr
  pullsecret_ClusterId :: string

record ('k, 's) CPMSReconciler =
  cpms_Client :: 'k
  cpms_Scheme :: 's
  cpms_MetricsAggregator :: agg_ptr
  cpms_ClusterId :: string

datatype controller =
    ClusterRole_C | ConfigMap_C | Group_C | LimitedSupport_C | Machine_C | OAuth_C | Proxy_C
  | PullSecret_C | CPMS_C

datatype ('k, 's) reconciler =
    ClusterRole_Rec "('k, 's) ClusterRoleReconciler"
  | ConfigMap_Rec "('k, 's) ConfigMapReconciler"
  | Group_Rec "('k, 's) GroupReconciler"
  | LimitedSupport_Rec "('k, 's) LimitedSupportConfigMapReconciler"
  | Machine_Rec "('k, 's) MachineReconciler"
  | OAuth_Rec "('k, 's) OAuthReconciler"
  | Proxy_Rec "('k, 's) ProxyReconciler"
  | PullSecret_Rec "('k, 's) PullSecretReconciler"
  | CPMS_Rec "('k, 's) CPMSReconciler"

fun controller_of :: "('k, 's) reconciler \<Rightarrow> controller" where
  "controller_of (ClusterRole_Rec r) = ClusterRole_C"
| "controller_of (ConfigMap_Rec r) = ConfigMap_C"
| "controller_of (Group_Rec r) = Group_C"
| "controller_of (LimitedSupport_Rec r) = LimitedSupport_C"
| "controller_of (Machine_Rec r) = Machine_C"
| "controller_of (OAuth_Rec r) = OAuth_C"
| "controller_of (Proxy_Rec r) = Proxy_C"
| "controller_of (PullSecret_Rec r) = PullSecret_C"
| "controller_of (CPMS_Rec r) = CPMS_C"

text \<open>What the fields of a reconciler hold.\<close>

fun Client_of :: "('k, 's) reconciler \<Rightarrow> 'k" where
  "Client_of (ClusterRole_Rec r) = clusterrole_Client r"
| "Client_of (ConfigMap_Rec r) = configmap_Client r"
| "Client_of (Group_Rec r) = group_Client r"
| "Client_of (LimitedSupport_Rec r) = limited_support_Client r"
| "Client_of (Machine_Rec r) = machine_Client r"
| "Client_of (OAuth_Rec r) = oauth_Client r"
| "Client_of (Proxy_Rec r) = proxy_Client r"
| "Client_of (PullSecret_Rec r) = pullsecret_Client r"
| "Client_of (CPMS_Rec r) = cpms_Client r"

fun Scheme_of :: "('k, 's) reconciler \<Rightarrow> 's" where
  "Scheme_of (ClusterRole_Rec r) = clusterrole_Scheme r"
| "Scheme_of (ConfigMap_Rec r) = configmap_Scheme r"
| "Scheme_of (Group_Rec r) = group_Scheme r"
| "Scheme_of (LimitedSupport_Rec r) = limited_support_Scheme r"
| "Scheme_of (Machine_Rec r) = machine_Scheme r"
| "Scheme_of (OAuth_Rec r) = oauth_Scheme r"
| "Scheme_of (Proxy_Rec r) = proxy_Scheme r"
| "Scheme_of (PullSecret_Rec r) = pullsecret_Scheme r"
| "Scheme_of (CPMS_Rec r) = cpms_Scheme r"

fun MetricsAggregator_of :: "('k, 's) reconciler \<Rightarrow> agg_ptr option" where
  "MetricsAggregator_of (ClusterRole_Rec r) = None"
| "MetricsAggregator_of (ConfigMap_Rec r) = Some (configmap_MetricsAggregator r)"
| "MetricsAggregator_of (Group_Rec r) = Some (group_MetricsAggregator r)"
| "MetricsAggregator_of (LimitedSupport_Rec r) = Some (limited_support_MetricsAggregator r)"
| "MetricsAggregator_of (Machine_Rec r) = Some (machine_MetricsAggregator r)"
| "MetricsAggregator_of (OAuth_Rec r) = Some (oauth_MetricsAggregator r)"
| "MetricsAggregator_of (Proxy_Rec r) = Some (proxy_MetricsAggregator r)"
| "MetricsAggregator_of (PullSecret_Rec r) = Some (pullsecret_MetricsAggregator r)"
| "MetricsAggregator_of (CPMS_Rec r) = Some (cpms_MetricsAggregator r)"

fun ClusterId_of :: "('k, 's) reconciler \<Rightarrow> string option" where
  "ClusterId_of (ClusterRole_Rec r) = None"
| "ClusterId_of (ConfigMap_Rec r) = Some (configmap_ClusterId r)"
| "ClusterId_of (Group_Rec r) = Some (group_ClusterId r)"
| "ClusterId_of (LimitedSupport_Rec r) = Some (limited_support_ClusterId r)"
| "ClusterId_of (Machine_Rec r) = Some (machine_ClusterId r)"
| "ClusterId_of (OAuth_Rec r) = None"
| "ClusterId_of (Proxy_Rec r) = Some (proxy_ClusterId r)"
| "ClusterId_of (PullSecret_Rec r) = Some (pullsecret_ClusterId r)"
| "ClusterId_of (CPMS_Rec r) = Some (cpms_ClusterId r)"

subsection \<open>Setting the controllers up\<close>

text \<open>
  A controller watches the kind of \<open>For\<close>, filtered by its event filter if it has one, once
  \<open>Complete\<close> has returned without an error; \<open>Named\<close> gives it a name other than that of the kind.
  The machine controller first asks for an index on events.
\<close>

record registration =
  reg_Name :: "string option"
  reg_For :: object_kind
  reg_Filter :: "Funcs option"

record ('k, 's, 'e) builder =
  IndexField :: "object_kind \<Rightarrow> string \<Rightarrow> (Event \<Rightarrow> string list) \<Rightarrow> 'e option"
  Complete :: "registration \<Rightarrow> ('k, 's) reconciler \<Rightarrow> 'e option"

definition completed :: "('k, 's, 'e) builder \<Rightarrow> registration \<Rightarrow> ('k, 's) reconciler \<Rightarrow> 'e + registration" where
  "completed b reg r = (case Complete b reg r of Some err \<Rightarrow> Inl err | None \<Rightarrow> Inr reg)"

definition ClusterRoleSetupWithManager :: "('k, 's, 'e) builder
    \<Rightarrow> ('k, 's) ClusterRoleReconciler \<Rightarrow> 'e + registration" where
  "ClusterRoleSetupWithManager b r =
     completed b \<lparr>reg_Name = None, reg_For = ClusterRole_K, reg_Filter = Some ClusterRoleFilter\<rparr> (ClusterRole_Rec r)"

definition ConfigMapSetupWithManager :: "('cm, 'd) cluster_network_operator \<Rightarrow> ('k, 's, 'e) builder
    \<Rightarrow> ('k, 's) ConfigMapReconciler \<Rightarrow> 'e + registration" where
  "ConfigMapSetupWithManager cno b r =
     completed b \<lparr>reg_Name = None, reg_For = ConfigMap_K, reg_Filter = Some (ConfigMapFilter cno)\<rparr> (ConfigMap_Rec r)"

definition GroupSetupWithManager :: "('k, 's, 'e) builder
    \<Rightarrow> ('k, 's) GroupReconciler \<Rightarrow> 'e + registration" where
  "GroupSetupWithManager b r =
     completed b \<lparr>reg_Name = None, reg_For = Group_K, reg_Filter = Some GroupFilter\<rparr> (Group_Rec r)"

definition LimitedSupportSetupWithManager :: "('k, 's, 'e) builder
    \<Rightarrow> ('k, 's) LimitedSupportConfigMapReconciler \<Rightarrow> 'e + registration" where
  "LimitedSupportSetupWithManager b r =
     completed b \<lparr>reg_Name = Some limitedSupportName, reg_For = ConfigMap_K,
       reg_Filter = Some LimitedSupportFilter\<rparr> (LimitedSupport_Rec r)"

definition MachineSetupWithManager :: "('k, 's, 'e) builder
    \<Rightarrow> ('k, 's) MachineReconciler \<Rightarrow> 'e + registration" where
  "MachineSetupWithManager b r =
     (case IndexField b Event_K ''involvedObject.name'' machine_indexer of
       Some err \<Rightarrow> Inl err
     | None \<Rightarrow> completed b \<lparr>reg_Name = None, reg_For = Machine_K, reg_Filter = None\<rparr> (Machine_Rec r))"

definition OAuthSetupWithManager :: "('k, 's, 'e) builder
    \<Rightarrow> ('k, 's) OAuthReconciler \<Rightarrow> 'e + registration" where
  "OAuthSetupWithManager b r =
     completed b \<lparr>reg_Name = None, reg_For = OAuth_K, reg_Filter = None\<rparr> (OAuth_Rec r)"

definition ProxySetupWithManager :: "('k, 's, 'e) builder
    \<Rightarrow> ('k, 's) ProxyReconciler \<Rightarrow> 'e + registration" where
  "ProxySetupWithManager b r =
     completed b \<lparr>reg_Name = None, reg_For = Proxy_K, reg_Filter = None\<rparr> (Proxy_Rec r)"

definition PullSecretSetupWithManager :: "('k, 's, 'e) builder
    \<Rightarrow> ('k, 's) PullSecretReconciler \<Rightarrow> 'e + registration" where
  "PullSecretSetupWithManager b r =
     completed b \<lparr>reg_Name = None, reg_For = Secret_K, reg_Filter = Some PullSecretFilter\<rparr> (PullSecret_Rec r)"

definition CPMSSetupWithManager :: "('k, 's, 'e) builder
    \<Rightarrow> ('k, 's) CPMSReconciler \<Rightarrow> 'e + registration" where
  "CPMSSetupWithManager b r =
     completed b \<lparr>reg_Name = None, reg_For = ControlPlaneMachineSet_K, reg_Filter = None\<rparr> (CPMS_Rec r)"

fun SetupWithManager :: "('cm, 'd) cluster_network_operator \<Rightarrow> ('k, 's, 'e) builder
    \<Rightarrow> ('k, 's) reconciler \<Rightarrow> 'e + registration" where
  "SetupWithManager cno b (ClusterRole_Rec r) = ClusterRoleSetupWithManager b r"
| "SetupWithManager cno b (ConfigMap_Rec r) = ConfigMapSetupWithManager cno b r"
| "SetupWithManager cno b (Group_Rec r) = GroupSetupWithManager b r"
| "SetupWithManager cno b (LimitedSupport_Rec r) = LimitedSupportSetupWithManager b r"
| "SetupWithManager cno b (Machine_Rec r) = MachineSetupWithManager b r"
| "SetupWithManager cno b (OAuth_Rec r) = OAuthSetupWithManager b r"
| "SetupWithManager cno b (Proxy_Rec r) = ProxySetupWithManager b r"
| "SetupWithManager cno b (PullSecret_Rec r) = PullSecretSetupWithManager b r"
| "SetupWithManager cno b (CPMS_Rec r) = CPMSSetupWithManager b r"

end
