(* ===== verification/Startup.thy ===== *)
theory Startup
  imports Manager
begin

section \<open>Start-up (\<open>main.go\<close>, \<open>pkg/metrics/metrics.go\<close>)\<close>

text \<open>
  \<open>main\<close> reads the flags, builds the manager, reads the cluster id, sets the controllers up one
  after the other and starts the aggregation loop, the metrics server and the manager; the first
  call that fails ends the process. The calls into controller-runtime, the discovery client and
  the metrics server are parameters. The aggregator is a global pointer that the first controller
  to need it sets; aggregators live in a heap, so that sharing is a fact about pointers.
\<close>

definition aggregatorResyncInterval :: duration where
  "aggregatorResyncInterval = Minute"

type_synonym 'g agg_heap = "'g AdoptionMetricsAggregator list"

definition deref :: "'g agg_heap \<Rightarrow> agg_ptr \<Rightarrow> 'g AdoptionMetricsAggregator option" where
  "deref hp ptr = (if ptr < length hp then Some (hp ! ptr) else None)"

text \<open>The result is the pointer with the new heap and the new global variable; \<open>None\<close> is a panic.\<close>

definition GetMetricsAggregator :: "'g gauge_api \<Rightarrow> string \<Rightarrow> 'g agg_heap \<Rightarrow> agg_ptr option
    \<Rightarrow> (agg_ptr \<times> 'g agg_heap \<times> agg_ptr option) option" where
  "GetMetricsAggregator pv clusterId hp aggregator =
     (case aggregator of
       None \<Rightarrow>
         (case NewMetricsAggregator pv aggregatorResyncInterval clusterId of
           Ok a \<Rightarrow> Some (length hp, hp @ [a], Some (length hp))
         | Panicked _ \<Rightarrow> None)
     | Some ptr \<Rightarrow> Some (ptr, hp, Some ptr))"

subsection \<open>The environment of the process\<close>

record GroupVersionResource =
  gvr_Group :: string
  gvr_Version :: string
  gvr_Resource :: string

text \<open>
  What \<open>main\<close> finds: the arguments, the flags of the packages it imports, and the answers of the
  calls it makes. An error is \<open>Some\<close>. \<open>ClusterVersion_Get\<close> answers with \<open>Spec.ClusterID\<close>;
  \<open>IsResourceEnabled\<close> returns a boolean and an error.
\<close>

record ('g, 's, 'm, 'k, 'cm, 'd, 'e) main_env =
  Args :: "string list"
  Other_flags :: "(string, flag_kind) go_map"
  Type_scheme :: "('s, 'e) scheme_api"
  GetConfig_error :: "'e option"
  NewManager :: "'s manager_options \<Rightarrow> 'e + 'm"
  GetClient :: "'m \<Rightarrow> 'k"
  GetScheme :: "'m \<Rightarrow> 's"
  ClusterVersion_Get :: "NamespacedName \<Rightarrow> 'e + string"
  Network_operator :: "('cm, 'd) cluster_network_operator"
  Builder :: "'m \<Rightarrow> ('k, 's, 'e) builder"
  NewDiscoveryClient_error :: "'e option"
  IsResourceEnabled :: "GroupVersionResource \<Rightarrow> bool \<times> 'e option"
  AddHealthzCheck_error :: "'e option"
  AddReadyzCheck_error :: "'e option"
  ConfigureMetrics_error :: "'g metrics_config \<Rightarrow> 'e option"
  Start_error :: "'e option"

definition getClusterID :: "(NamespacedName \<Rightarrow> 'e + string) \<Rightarrow> 'e go_error + string" where
  "getClusterID get =
     (case get \<lparr>nn_Namespace = '''', nn_Name = ''version''\<rparr> of
       Inl err \<Rightarrow> Inl (LibError err)
     | Inr cid \<Rightarrow>
         if cid = '''' then
           Inl (Errorf ''got empty string for cluster id from the ClusterVersion custom resource'')
         else Inr cid)"

definition hasCpmsCrd :: "('g, 's, 'm, 'k, 'cm, 'd, 'e) main_env \<Rightarrow> bool \<times> 'e option" where
  "hasCpmsCrd env =
     (case NewDiscoveryClient_error env of
       Some err \<Rightarrow> (False, Some err)
     | None \<Rightarrow> IsResourceEnabled env \<lparr>gvr_Group = ''machine.openshift.io'', gvr_Version = ''v1'',
         gvr_Resource = ''controlplanemachinesets''\<rparr>)"

text \<open>
  What the process has done: the aggregators it has allocated, the global variable, the
  controllers it has set up, the goroutines of \<open>Run\<close> by their receiver, and the metrics service.
\<close>

record ('g, 'k, 's) process =
  heap :: "'g agg_heap"
  aggregator :: "agg_ptr option"
  reconcilers :: "(('k, 's) reconciler \<times> registration) list"
  ticking :: "agg_ptr list"
  exposed :: "'g metrics_config option"

datatype 'p run_result = Next 'p | Exited string 'p | Usage nat | Crashed 'p

fun run_bind :: "'p run_result \<Rightarrow> ('p \<Rightarrow> 'p run_result) \<Rightarrow> 'p run_result" where
  "run_bind (Next p) f = f p"
| "run_bind (Exited msg p) f = Exited msg p"
| "run_bind (Usage status) f = Usage status"
| "run_bind (Crashed p) f = Crashed p"

text \<open>\<open>if err != nil { setupLog.Error(err, msg); os.Exit(1) }\<close>\<close>

definition exit_on :: "'e option \<Rightarrow> string \<Rightarrow> 'p \<Rightarrow> 'p run_result" where
  "exit_on err msg p = (case err of Some _ \<Rightarrow> Exited msg p | None \<Rightarrow> Next p)"

definition use_aggregator :: "'g gauge_api \<Rightarrow> string
    \<Rightarrow> (agg_ptr \<Rightarrow> ('g, 'k, 's) process \<Rightarrow> ('g, 'k, 's) process run_result)
    \<Rightarrow> ('g, 'k, 's) process \<Rightarrow> ('g, 'k, 's) process run_result" where
  "use_aggregator pv clusterId f p =
     (case GetMetricsAggregator pv clusterId (heap p) (aggregator p) of
       None \<Rightarrow> Crashed p
     | Some (ptr, hp, g) \<Rightarrow> f ptr (p\<lparr>heap := hp, aggregator := g\<rparr>))"

subsection \<open>The controllers\<close>

definition set_up :: "('g, 's, 'm, 'k, 'cm, 'd, 'e) main_env \<Rightarrow> 'm \<Rightarrow> ('k, 's) reconciler
    \<Rightarrow> ('g, 'k, 's) process \<Rightarrow> ('g, 'k, 's) process run_result" where
  "set_up env mgr r p =
     (case SetupWithManager (Network_operator env) (Builder env mgr) r of
       Inl err \<Rightarrow> Exited ''unable to create controller'' p
     | Inr reg \<Rightarrow> Next (p\<lparr>reconcilers := reconcilers p @ [(r, reg)]\<rparr>))"

text \<open>The structs that need the aggregator, as functions of its pointer, in the order of \<open>main\<close>.\<close>

definition shared_reconcilers :: "'k \<Rightarrow> 's \<Rightarrow> string \<Rightarrow> (agg_ptr \<Rightarrow> ('k, 's) reconciler) list" where
  "shared_reconcilers k s clusterId = [
     \<lambda>ptr. ConfigMap_Rec \<lparr>configmap_Client = k, configmap_Scheme = s,
       configmap_MetricsAggregator = ptr, configmap_ClusterId = clusterId\<rparr>,
     \<lambda>ptr. Group_Rec \<lparr>group_Client = k, group_Scheme = s,
       group_MetricsAggregator = ptr, group_ClusterId = clusterId\<rparr>,
     \<lambda>ptr. LimitedSupport_Rec \<lparr>limited_support_Client = k, limited_support_Scheme = s,
       limited_support_MetricsAggregator = ptr, limited_support_ClusterId = clusterId\<rparr>,
     \<lambda>ptr. Machine_Rec \<lparr>machine_Client = k, machine_Scheme = s,
       machine_MetricsAggregator = ptr, machine_ClusterId = ''''\<rparr>,
     \<lambda>ptr. OAuth_Rec \<lparr>oauth_Client = k, oauth_Scheme = s, oauth_MetricsAggregator = ptr\<rparr>,
     \<lambda>ptr. Proxy_Rec \<lparr>proxy_Client = k, proxy_Scheme = s,
       proxy_MetricsAggregator = ptr, proxy_ClusterId = clusterId\<rparr>,
     \<lambda>ptr. PullSecret_Rec \<lparr>pullsecret_Client = k, pullsecret_Scheme = s,
       pullsecret_MetricsAggregator = ptr, pullsecret_ClusterId = clusterId\<rparr>]"

definition cpms_reconciler :: "'k \<Rightarrow> 's \<Rightarrow> string \<Rightarrow> agg_ptr \<Rightarrow> ('k, 's) reconciler" where
  "cpms_reconciler k s clusterId ptr = CPMS_Rec \<lparr>cpms_Client = k, cpms_Scheme = s,
     cpms_MetricsAggregator = ptr, cpms_ClusterId = clusterId\<rparr>"

fun set_up_all :: "'g gauge_api \<Rightarrow> ('g, 's, 'm, 'k, 'cm, 'd, 'e) main_env \<Rightarrow> 'm \<Rightarrow> string
    \<Rightarrow> (agg_ptr \<Rightarrow> ('k, 's) reconciler) list \<Rightarrow> ('g, 'k, 's) process \<Rightarrow> ('g, 'k, 's) process run_result" where
  "set_up_all pv env mgr clusterId [] p = Next p"
| "set_up_all pv env mgr clusterId (mk # mks) p =
     run_bind (use_aggregator pv clusterId (\<lambda>ptr. set_up env mgr (mk ptr)) p)
       (set_up_all pv env mgr clusterId mks)"

definition set_up_controllers :: "'g gauge_api \<Rightarrow> ('g, 's, 'm, 'k, 'cm, 'd, 'e) main_env \<Rightarrow> 'm \<Rightarrow> string
    \<Rightarrow> ('g, 'k, 's) process \<Rightarrow> ('g, 'k, 's) process run_result" where
  "set_up_controllers pv env mgr clusterId p =
     (let k = GetClient env mgr; s = GetScheme env mgr in
      run_bind (set_up env mgr (ClusterRole_Rec \<lparr>clusterrole_Client = k, clusterrole_Scheme = s\<rparr>) p) (\<lambda>p.
      run_bind (set_up_all pv env mgr clusterId (shared_reconcilers k s clusterId) p) (\<lambda>p.
      if fst (hasCpmsCrd env) then set_up_all pv env mgr clusterId [cpms_reconciler k s clusterId] p
      else Next p)))"

subsection \<open>Running\<close>

definition expose :: "('g, 's, 'm, 'k, 'cm, 'd, 'e) main_env \<Rightarrow> agg_ptr
    \<Rightarrow> ('g, 'k, 's) process \<Rightarrow> ('g, 'k, 's) process run_result" where
  "expose env ptr p =
     (case deref (heap p) ptr of
       None \<Rightarrow> Crashed p
     | Some a \<Rightarrow>
         run_bind (exit_on (ConfigureMetrics_error env (metricsConfig (GetMetrics a)))
             ''Failed to run metrics server'' p)
           (\<lambda>p. Next (p\<lparr>exposed := Some (metricsConfig (GetMetrics a))\<rparr>)))"

definition serve :: "'g gauge_api \<Rightarrow> ('g, 's, 'm, 'k, 'cm, 'd, 'e) main_env \<Rightarrow> string
    \<Rightarrow> ('g, 'k, 's) process \<Rightarrow> ('g, 'k, 's) process run_result" where
  "serve pv env clusterId p =
     run_bind (exit_on (AddHealthzCheck_error env) ''unable to set up health check'' p) (\<lambda>p.
     run_bind (exit_on (AddReadyzCheck_error env) ''unable to set up ready check'' p) (\<lambda>p.
     run_bind (use_aggregator pv clusterId (\<lambda>ptr p. Next (p\<lparr>ticking := ticking p @ [ptr]\<rparr>)) p) (\<lambda>p.
     run_bind (use_aggregator pv clusterId (expose env) p)
       (exit_on (Start_error env) ''problem running manager''))))"

definition new_process :: "('g, 'k, 's) process" where
  "new_process = \<lparr>heap = [], aggregator = None, reconcilers = [], ticking = [], exposed = None\<rparr>"

text \<open>
  \<open>Next p\<close> is the state after \<open>mgr.Start\<close> has returned without an error, that is, after a
  shutdown that was asked for; then \<open>main\<close> returns, and the deferred \<open>close\<close> ends the loop (\<open>Run\<close>).
  \<open>Usage\<close> is an exit of the flag package, with its status.
\<close>

definition main :: "'g gauge_api \<Rightarrow> ('g, 's, 'm, 'k, 'cm, 'd, 'e) main_env
    \<Rightarrow> ('g, 'k, 's) process run_result" where
  "main pv env =
     (case init_scheme (Type_scheme env) of
       Panicked _ \<Rightarrow> Crashed new_process
     | Ok scheme \<Rightarrow>
         (case parse_flags (main_flags @ Other_flags env) (Args env) [] of
           Flag_error \<Rightarrow> Usage 2
         | Flag_help \<Rightarrow> Usage 0
         | Parsed vals rest \<Rightarrow>
             (case GetConfig_error env of
               Some err \<Rightarrow> Exited ''no configuration'' new_process
             | None \<Rightarrow>
             (case NewManager env (manager_options scheme (probeAddr vals) (enableLeaderElection vals)) of
               Inl err \<Rightarrow> Exited ''unable to start manager'' new_process
             | Inr mgr \<Rightarrow>
                 (case getClusterID (ClusterVersion_Get env) of
                   Inl err \<Rightarrow> Exited ''Failed to retrieve'' new_process
                 | Inr clusterId \<Rightarrow>
                     run_bind (set_up_controllers pv env mgr clusterId new_process)
                       (serve pv env clusterId))))))"

subsection \<open>What a start-up amounts to\<close>

lemma run_bind_Next_iff: "run_bind x f = Next q \<longleftrightarrow> (\<exists>p. x = Next p \<and> f p = Next q)"
  by (cases x) auto

text \<open>One-point rules for the states in between.\<close>

lemma bound_single: "(\<exists>q. (\<exists>x. P x \<and> q = f x) \<and> R q) \<longleftrightarrow> (\<exists>x. P x \<and> R (f x))"
  by blast

lemma bound_pair: "(\<exists>q. (\<exists>x y. P x \<and> Q y \<and> q = f x y) \<and> R q) \<longleftrightarrow> (\<exists>x y. P x \<and> Q y \<and> R (f x y))"
  by blast

lemma all2_zip_Cons:
  "(\<exists>ys. list_all2 P (x # xs) ys \<and> q = f (zip (x # xs) ys)) \<longleftrightarrow>
     (\<exists>y. P x y \<and> (\<exists>ys. list_all2 P xs ys \<and> q = f ((x, y) # zip xs ys)))"
proof safe
  fix ys assume "list_all2 P (x # xs) ys"
  then show "\<exists>y. P x y \<and> (\<exists>zs. list_all2 P xs zs \<and> f (zip (x # xs) ys) = f ((x, y) # zip xs zs))"
    by (metis list_all2_Cons1 zip_Cons_Cons)
next
  fix y ys assume "P x y" "list_all2 P xs ys"
  then have "list_all2 P (x # xs) (y # ys)" by simp
  then show "\<exists>zs. list_all2 P (x # xs) zs \<and> f ((x, y) # zip xs ys) = f (zip (x # xs) zs)"
    by (metis zip_Cons_Cons)
qed

lemma exit_on_Next_iff [simp]: "exit_on err msg p = Next q \<longleftrightarrow> err = None \<and> q = p"
  by (auto simp: exit_on_def split: option.split)

lemma getClusterID_Inr:
  "getClusterID get = Inr cid \<longleftrightarrow>
     get \<lparr>nn_Namespace = '''', nn_Name = ''version''\<rparr> = Inr cid \<and> cid \<noteq> ''''"
  by (auto simp: getClusterID_def split: sum.split)

lemma set_up_Next_iff:
  "set_up env mgr r p = Next q \<longleftrightarrow>
     (\<exists>reg. SetupWithManager (Network_operator env) (Builder env mgr) r = Inr reg
        \<and> q = p\<lparr>reconcilers := reconcilers p @ [(r, reg)]\<rparr>)"
  by (auto simp: set_up_def split: sum.split)

text \<open>The first use creates the aggregator, and all later ones find it.\<close>

lemma use_aggregator_first:
  "heap p = [] \<Longrightarrow> aggregator p = None \<Longrightarrow>
   use_aggregator pv clusterId f p =
     (case NewMetricsAggregator pv aggregatorResyncInterval clusterId of
       Ok a \<Rightarrow> f 0 (p\<lparr>heap := [a], aggregator := Some 0\<rparr>) | Panicked _ \<Rightarrow> Crashed p)"
  by (simp add: use_aggregator_def GetMetricsAggregator_def split: exec.split)

lemma use_aggregator_again:
  assumes "aggregator p = Some ptr"
  shows "use_aggregator pv clusterId f p = f ptr p"
proof -
  have "p\<lparr>heap := heap p, aggregator := Some ptr\<rparr> = p"
    by (rule process.equality) (simp_all add: assms)
  then show ?thesis
    unfolding use_aggregator_def GetMetricsAggregator_def assms option.case prod.case by (rule arg_cong)
qed

definition set_up_with :: "('g, 's, 'm, 'k, 'cm, 'd, 'e) main_env \<Rightarrow> 'm \<Rightarrow> ('k, 's) reconciler
    \<Rightarrow> registration \<Rightarrow> bool" where
  "set_up_with env mgr r reg \<longleftrightarrow> SetupWithManager (Network_operator env) (Builder env mgr) r = Inr reg"

lemma set_up_all_Next_iff:
  assumes "aggregator p = Some ptr"
  shows "set_up_all pv env mgr clusterId mks p = Next q \<longleftrightarrow>
    (\<exists>regs. list_all2 (set_up_with env mgr) (map (\<lambda>mk. mk ptr) mks) regs
       \<and> q = p\<lparr>reconcilers := reconcilers p @ zip (map (\<lambda>mk. mk ptr) mks) regs\<rparr>)"
  using assms
proof (induction mks arbitrary: p)
  case (Cons mk mks)
  have "set_up_all pv env mgr clusterId (mk # mks) p = Next q \<longleftrightarrow>
      (\<exists>reg. set_up_with env mgr (mk ptr) reg \<and>
        set_up_all pv env mgr clusterId mks (p\<lparr>reconcilers := reconcilers p @ [(mk ptr, reg)]\<rparr>) = Next q)"
    by (auto simp: run_bind_Next_iff use_aggregator_again [OF Cons.prems] set_up_Next_iff set_up_with_def)
  also have "\<dots> \<longleftrightarrow> (\<exists>reg regs. set_up_with env mgr (mk ptr) reg
      \<and> list_all2 (set_up_with env mgr) (map (\<lambda>mk. mk ptr) mks) regs
      \<and> q = p\<lparr>reconcilers := reconcilers p @ zip (map (\<lambda>mk. mk ptr) (mk # mks)) (reg # regs)\<rparr>)"
    using Cons.prems by (simp add: Cons.IH)
  also have "\<dots> \<longleftrightarrow> (\<exists>regs. list_all2 (set_up_with env mgr) (map (\<lambda>mk. mk ptr) (mk # mks)) regs
      \<and> q = p\<lparr>reconcilers := reconcilers p @ zip (map (\<lambda>mk. mk ptr) (mk # mks)) regs\<rparr>)"
    by (simp only: list.map list_all2_Cons1) blast
  finally show ?case .
qed auto

text \<open>The reconcilers that a complete start-up sets up, in order, all with one pointer.\<close>

definition wanted_reconcilers :: "('g, 's, 'm, 'k, 'cm, 'd, 'e) main_env \<Rightarrow> 'm \<Rightarrow> string
    \<Rightarrow> ('k, 's) reconciler list" where
  "wanted_reconcilers env mgr clusterId =
     (let k = GetClient env mgr; s = GetScheme env mgr in
      ClusterRole_Rec \<lparr>clusterrole_Client = k, clusterrole_Scheme = s\<rparr>
      # map (\<lambda>mk. mk 0) (shared_reconcilers k s clusterId
          @ (if fst (hasCpmsCrd env) then [cpms_reconciler k s clusterId] else [])))"

lemma set_up_all_append:
  "set_up_all pv env mgr clusterId (mks @ mks') p =
     run_bind (set_up_all pv env mgr clusterId mks p) (set_up_all pv env mgr clusterId mks')"
proof (induction mks arbitrary: p)
  case (Cons mk mks)
  show ?case
    by (cases "use_aggregator pv clusterId (\<lambda>ptr. set_up env mgr (mk ptr)) p") (simp_all add: Cons.IH)
qed simp

lemma set_up_all_first:
  assumes "heap p = []" "aggregator p = None" and "mks \<noteq> []"
  shows "set_up_all pv env mgr clusterId mks p =
    (case NewMetricsAggregator pv aggregatorResyncInterval clusterId of
      Ok a \<Rightarrow> set_up_all pv env mgr clusterId mks (p\<lparr>heap := [a], aggregator := Some 0\<rparr>)
    | Panicked _ \<Rightarrow> Crashed p)"
  using assms by (cases mks)
    (simp_all add: use_aggregator_first use_aggregator_again split: exec.split)

lemma set_up_controllers_Next_iff:
  "set_up_controllers pv env mgr clusterId new_process = Next q \<longleftrightarrow>
     (\<exists>a regs. NewMetricsAggregator pv aggregatorResyncInterval clusterId = Ok a
        \<and> list_all2 (set_up_with env mgr) (wanted_reconcilers env mgr clusterId) regs
        \<and> q = \<lparr>heap = [a], aggregator = Some 0, reconcilers = zip (wanted_reconcilers env mgr clusterId) regs,
              ticking = [], exposed = None\<rparr>)"
proof -
  let ?k = "GetClient env mgr" and ?s = "GetScheme env mgr"
  let ?first = "ClusterRole_Rec \<lparr>clusterrole_Client = ?k, clusterrole_Scheme = ?s\<rparr>"
  define mks where "mks = shared_reconcilers ?k ?s clusterId
    @ (if fst (hasCpmsCrd env) then [cpms_reconciler ?k ?s clusterId] else [])"
  have run: "set_up_controllers pv env mgr clusterId new_process =
      run_bind (set_up env mgr ?first new_process) (set_up_all pv env mgr clusterId mks)"
  proof -
    have cpms: "(\<lambda>p. if b then set_up_all pv env mgr clusterId [mk] p else Next p) =
        set_up_all pv env mgr clusterId (if b then [mk] else [])" for b mk
      by (simp add: fun_eq_iff del: set_up_all.simps(2))
    show ?thesis
      unfolding set_up_controllers_def Let_def cpms set_up_all_append [symmetric] mks_def ..
  qed
  have wanted: "wanted_reconcilers env mgr clusterId = ?first # map (\<lambda>mk. mk 0) mks"
    by (simp add: wanted_reconcilers_def mks_def Let_def)
  have mks: "mks \<noteq> []" by (simp add: mks_def shared_reconcilers_def)
  show ?thesis
  proof (cases "NewMetricsAggregator pv aggregatorResyncInterval clusterId")
    case (Ok a)
    have "set_up_all pv env mgr clusterId mks (new_process\<lparr>reconcilers := rs\<rparr>) = Next q \<longleftrightarrow>
        (\<exists>regs. list_all2 (set_up_with env mgr) (map (\<lambda>mk. mk 0) mks) regs
          \<and> q = \<lparr>heap = [a], aggregator = Some 0, reconcilers = rs @ zip (map (\<lambda>mk. mk 0) mks) regs,
                ticking = [], exposed = None\<rparr>)" for rs
      by (simp add: set_up_all_first mks Ok set_up_all_Next_iff new_process_def)
    then have "set_up_controllers pv env mgr clusterId new_process = Next q \<longleftrightarrow> (\<exists>reg. set_up_with env mgr ?first reg \<and>
          (\<exists>regs. list_all2 (set_up_with env mgr) (map (\<lambda>mk. mk 0) mks) regs
            \<and> q = \<lparr>heap = [a], aggregator = Some 0,
                  reconcilers = (?first, reg) # zip (map (\<lambda>mk. mk 0) mks) regs, ticking = [], exposed = None\<rparr>))"
      unfolding run run_bind_Next_iff set_up_Next_iff set_up_with_def [symmetric] bound_single
      by (simp add: new_process_def)
    also have "\<dots> \<longleftrightarrow> (\<exists>regs. list_all2 (set_up_with env mgr) (wanted_reconcilers env mgr clusterId) regs
        \<and> q = \<lparr>heap = [a], aggregator = Some 0,
              reconcilers = zip (wanted_reconcilers env mgr clusterId) regs, ticking = [], exposed = None\<rparr>)"
      unfolding wanted by (rule all2_zip_Cons [symmetric])
    finally show ?thesis by (simp add: Ok)
  next
    case (Panicked a)
    then show ?thesis
      unfolding run run_bind_Next_iff set_up_Next_iff bound_single
      by (simp add: set_up_all_first mks new_process_def)
  qed
qed

lemma serve_Next_iff:
  assumes "heap p = [a]" "aggregator p = Some 0"
  shows "serve pv env clusterId p = Next q \<longleftrightarrow>
    AddHealthzCheck_error env = None \<and> AddReadyzCheck_error env = None
    \<and> ConfigureMetrics_error env (metricsConfig (GetMetrics a)) = None \<and> Start_error env = None
    \<and> q = p\<lparr>ticking := ticking p @ [0], exposed := Some (metricsConfig (GetMetrics a))\<rparr>"
  using assms
  by (auto simp: serve_def run_bind_Next_iff use_aggregator_again expose_def deref_def)

text \<open>The process reaches the end only if every call succeeds, and then with this state.\<close>

definition started_process :: "'g AdoptionMetricsAggregator \<Rightarrow> ('k, 's) reconciler list
    \<Rightarrow> registration list \<Rightarrow> ('g, 'k, 's) process" where
  "started_process a rs regs = \<lparr>heap = [a], aggregator = Some 0, reconcilers = zip rs regs,
     ticking = [0], exposed = Some (metricsConfig (GetMetrics a))\<rparr>"

lemma controllers_serve_Next_iff:
  "(\<exists>q. set_up_controllers pv env mgr clusterId new_process = Next q \<and> serve pv env clusterId q = Next p) \<longleftrightarrow>
     (\<exists>a regs. NewMetricsAggregator pv aggregatorResyncInterval clusterId = Ok a
      \<and> list_all2 (set_up_with env mgr) (wanted_reconcilers env mgr clusterId) regs
      \<and> AddHealthzCheck_error env = None \<and> AddReadyzCheck_error env = None
      \<and> ConfigureMetrics_error env (metricsConfig (GetMetrics a)) = None \<and> Start_error env = None
      \<and> p = started_process a (wanted_reconcilers env mgr clusterId) regs)"
  unfolding set_up_controllers_Next_iff bound_pair by (simp add: serve_Next_iff started_process_def)

lemma main_Next_iff:
  "main pv env = Next p \<longleftrightarrow>
     (\<exists>scheme vals rest mgr clusterId a regs.
        init_scheme (Type_scheme env) = Ok scheme
      \<and> parse_flags (main_flags @ Other_flags env) (Args env) [] = Parsed vals rest
      \<and> GetConfig_error env = None
      \<and> NewManager env (manager_options scheme (probeAddr vals) (enableLeaderElection vals)) = Inr mgr
      \<and> getClusterID (ClusterVersion_Get env) = Inr clusterId
      \<and> NewMetricsAggregator pv aggregatorResyncInterval clusterId = Ok a
      \<and> list_all2 (set_up_with env mgr) (wanted_reconcilers env mgr clusterId) regs
      \<and> AddHealthzCheck_error env = None \<and> AddReadyzCheck_error env = None
      \<and> ConfigureMetrics_error env (metricsConfig (GetMetrics a)) = None \<and> Start_error env = None
      \<and> p = started_process a (wanted_reconcilers env mgr clusterId) regs)"
  (is "_ \<longleftrightarrow> ?succeeds")
proof -
  have "main pv env = Next p \<longleftrightarrow>
     (\<exists>scheme vals rest mgr clusterId q.
        init_scheme (Type_scheme env) = Ok scheme
      \<and> parse_flags (main_flags @ Other_flags env) (Args env) [] = Parsed vals rest
      \<and> GetConfig_error env = None
      \<and> NewManager env (manager_options scheme (probeAddr vals) (enableLeaderElection vals)) = Inr mgr
      \<and> getClusterID (ClusterVersion_Get env) = Inr clusterId
      \<and> set_up_controllers pv env mgr clusterId new_process = Next q
      \<and> serve pv env clusterId q = Next p)"
    by (simp add: main_def run_bind_Next_iff split: exec.split flag_result.split option.split sum.split)
  also have "\<dots> \<longleftrightarrow> ?succeeds"
    by (simp add: controllers_serve_Next_iff)
  finally show ?thesis .
qed

end
