(* ===== verification/System.thy ===== *)
theory System
  imports Startup Group_Controller OAuth_Controller ClusterRole_Controller LimitedSupport_Controller
    Proxy_Controller ConfigMap_Controller CPMS_Controller PullSecret_Controller Machine_Controller
begin

section \<open>The operator as a whole\<close>

text \<open>
  The controllers and the aggregation loop run on one aggregator; each reconcile and each round
  of the loop is one step, and between them the cluster changes in any way. \<open>system_step\<close> is
  this relation, with the actor of a step as its label, and \<open>expo_step\<close> its abstract
  specification: what each actor may do to the exported series.
\<close>

record ('w, 'g, 'cm, 'e) operator =
  op_gauges :: "'g gauge_api"
  op_idp_types :: idp_types
  op_clusterId :: string
  op_role_client :: "('w, ClusterRole, 'e) client"
  op_configmap_client :: "('w, 'cm, 'e) client"
  op_group_client :: "('w, Group, 'e) client"
  op_machine_client :: "('w, Machine, 'e) client"
  op_oauth_client :: "('w, OAuth, 'e) client"
  op_proxy_client :: "('w, Proxy, 'e) client"
  op_secret_client :: "('w, Secret, 'e) client"
  op_cpms_client :: "('w, ControlPlaneMachineSet, 'e) client"
  op_network_operator :: "('cm, 'e) cluster_network_operator"
  op_decoders :: "'e machine_decoders"
  op_events :: "('w, 'e) event_lister"

datatype actor = Cluster | Ticker | Ran controller

inductive system_step :: "('w, 'g, 'cm, 'e) operator \<Rightarrow> actor
    \<Rightarrow> 'w \<times> 'g AdoptionMetricsAggregator \<Rightarrow> 'w \<times> 'g AdoptionMetricsAggregator \<Rightarrow> bool" for oper where
  cluster_changes: "system_step oper Cluster (w, a) (w', a)"
| ticks: "aggregate (op_gauges oper) (op_idp_types oper) a = Ok a' \<Longrightarrow>
    system_step oper Ticker (w, a) (w, a')"
| clusterrole: "ClusterRoleReconcile (op_role_client oper) req w = (out, w') \<Longrightarrow>
    system_step oper (Ran ClusterRole_C) (w, a) (w', a)"
| configmap: "ConfigMapReconcile (op_configmap_client oper) (op_network_operator oper) (op_gauges oper)
      (op_clusterId oper) req w a = (out, w', a') \<Longrightarrow>
    system_step oper (Ran ConfigMap_C) (w, a) (w', a')"
| admin_group: "GroupReconcile (op_group_client oper) (op_gauges oper) (op_clusterId oper) req w a
      = (out, w', a') \<Longrightarrow>
    system_step oper (Ran Group_C) (w, a) (w', a')"
| limited_support: "LimitedSupportReconcile (op_configmap_client oper) (op_gauges oper)
      (op_clusterId oper) req w a = (out, w', a') \<Longrightarrow>
    system_step oper (Ran LimitedSupport_C) (w, a) (w', a')"
| machine: "MachineReconcile (op_machine_client oper) (op_events oper) (op_gauges oper) now req w a
      = (out, w', a') \<Longrightarrow>
    system_step oper (Ran Machine_C) (w, a) (w', a')"
| oauth: "OAuthReconcile (op_oauth_client oper) req w a = (out, w', a') \<Longrightarrow>
    system_step oper (Ran OAuth_C) (w, a) (w', a')"
| proxy: "ProxyReconcile (op_proxy_client oper) (op_gauges oper) (op_clusterId oper) req w a
      = (out, w', a') \<Longrightarrow>
    system_step oper (Ran Proxy_C) (w, a) (w', a')"
| pull_secret: "PullSecretReconcile (op_secret_client oper) (op_gauges oper) (op_clusterId oper) req w a
      = (out, w', a') \<Longrightarrow>
    system_step oper (Ran PullSecret_C) (w, a) (w', a')"
| cpms: "CPMSReconcile (op_cpms_client oper) (op_decoders oper) (op_gauges oper) (op_clusterId oper)
      req w a = (out, w', a') \<Longrightarrow>
    system_step oper (Ran CPMS_C) (w, a) (w', a')"

inductive reachable :: "('w, 'g, 'cm, 'e) operator \<Rightarrow> 'w \<times> 'g AdoptionMetricsAggregator \<Rightarrow> bool"
  for oper where
  started: "NewMetricsAggregator (op_gauges oper) aggregatorResyncInterval (op_clusterId oper) = Ok a \<Longrightarrow>
    reachable oper (w, a)"
| stepped: "reachable oper s \<Longrightarrow> system_step oper l s s' \<Longrightarrow> reachable oper s'"

text \<open>The documented behaviour of the libraries that the operator relies on.\<close>

definition operator_ok :: "('w, 'g, 'cm, 'e) operator \<Rightarrow> bool" where
  "operator_ok oper \<longleftrightarrow> gauge_vec (op_gauges oper) \<and> ValidString (op_clusterId oper)
     \<and> list_all ValidString (knownIdentityProviderTypes (op_idp_types oper))
     \<and> valid_subjects (op_network_operator oper) \<and> valid_instance_types (op_decoders oper)
     \<and> valid_nodes (op_machine_client oper)"

subsection \<open>What the actors may do to the exported series\<close>

inductive expo_step :: "string \<Rightarrow> idp_types \<Rightarrow> actor \<Rightarrow> exposition \<Rightarrow> exposition \<Rightarrow> bool"
  for cid :: string and c :: idp_types where
  nothing: "expo_step cid c l e e"
| providers: "expo_step cid c Ticker e (expo_providers c m e)"
| ca_bundle: "expiry = Map.empty \<or> expiry = expiry_series cid certs \<Longrightarrow>
    valid = Map.empty \<or> valid = [[cid] \<mapsto> of_bool b] \<Longrightarrow>
    expo_step cid c (Ran ConfigMap_C) e (expo_ca expiry valid e)"
| admin_flag: "expo_step cid c (Ran Group_C) e (expo_set Cluster_Admin_Enabled [cid] (of_bool b) e)"
| support_flag: "expo_step cid c (Ran LimitedSupport_C) e (expo_set Limited_Support_Enabled [cid] (of_bool b) e)"
| drains: "expo_step cid c (Ran Machine_C) e (expo_drain ms e)"
| cluster_id: "expo_step cid c (Ran Proxy_C) e (expo_set Cluster_ID [cid] 1 e)"
| proxy_state: "expo_step cid c (Ran Proxy_C) e
    (expo_set Cluster_Proxy (proxy_key cid obj) (proxy_value obj) (expo_set Cluster_ID [cid] 1 e))"
| secret_state: "expo_step cid c (Ran PullSecret_C) e (expo_only Pull_Secret_Valid [cid, secret_reason s]
    (of_bool (secret_reason s = ReasonValid)) e)"
| machine_set: "expo_step cid c (Ran CPMS_C) e (expo_only CPMS_Enabled [cid, t] (of_bool b) e)"

inductive_cases expo_stepE: "expo_step cid c l e e'"

text \<open>The steps that set a flag, by its value.\<close>

lemmas flag_steps =
  expo_step.admin_flag [where b = True, simplified] expo_step.admin_flag [where b = False, simplified]
  expo_step.support_flag [where b = True, simplified] expo_step.support_flag [where b = False, simplified]
  expo_step.machine_set [where b = True, simplified] expo_step.machine_set [where b = False, simplified]

lemma group_effect:
  assumes "gauge_vec pv" "ValidString cid" "agg_wf pv a"
    and "GroupReconcile k pv cid req w a = (out, w', a')"
  shows "agg_wf pv a' \<and> same_maps a a' \<and> out \<noteq> Panicking \<and> (a' = a \<or>
    (\<exists>b. exported pv a' = expo_set Cluster_Admin_Enabled [cid] (of_bool b) (exported pv a)))"
proof -
  have set: "\<exists>a'. SetClusterAdmin pv cid b a = Ok a' \<and> agg_wf pv a' \<and> same_maps a a' \<and>
      exported pv a' = expo_set Cluster_Admin_Enabled [cid] (of_bool b) (exported pv a)" for b
    using SetClusterAdmin_reports [OF assms(1-3), of b] by (auto elim: reportsE)
  obtain a0 where a0: "SetClusterAdmin pv cid False a = Ok a0" "agg_wf pv a0" "same_maps a a0"
      "exported pv a0 = expo_set Cluster_Admin_Enabled [cid] (of_bool False) (exported pv a)"
    using set by blast
  obtain a1 where a1: "SetClusterAdmin pv cid True a = Ok a1" "agg_wf pv a1" "same_maps a a1"
      "exported pv a1 = expo_set Cluster_Admin_Enabled [cid] (of_bool True) (exported pv a)"
    using set by blast
  have any: "SetClusterAdmin pv cid b a = Ok (if b then a1 else a0)" for b
    using a0(1) a1(1) by (cases b) simp_all
  have "a' \<in> {a, a0, a1} \<and> out \<noteq> Panicking"
    using assms(4)
    by (auto simp: GroupReconcile_def any split: sum.splits if_splits prod.splits)
  then show ?thesis using a0 a1 assms(3) by auto
qed

lemma oauth_effect:
  assumes "agg_wf pv a" and "OAuthReconcile k req w a = (out, w', a')"
  shows "agg_wf pv a' \<and> drainingMachines a' = drainingMachines a \<and> out \<noteq> Panicking
    \<and> exported pv a' = exported pv a"
proof -
  have "(a' = a \<or> (\<exists>n ns ps. a' = SetOAuthIDP n ns ps a) \<or> (\<exists>n ns. a' = DeleteOAuthIDP n ns a))
      \<and> out \<noteq> Panicking"
    using assms(2) by (auto simp: OAuthReconcile_def split: sum.splits if_splits prod.splits)
  then show ?thesis
    using assms(1) by (auto simp: SetOAuthIDP_wf DeleteOAuthIDP_wf)
      (simp_all add: SetOAuthIDP_def DeleteOAuthIDP_def)
qed

text \<open>The system implements the abstract steps, and keeps the invariant of the aggregator.\<close>

lemma system_step_expo:
  assumes ok: "operator_ok oper" and step: "system_step oper l (w, a) (w', a')"
    and wf: "agg_wf (op_gauges oper) a"
  shows "agg_wf (op_gauges oper) a'
    \<and> expo_step (op_clusterId oper) (op_idp_types oper) l
        (exported (op_gauges oper) a) (exported (op_gauges oper) a')
    \<and> (l \<noteq> Ran OAuth_C \<longrightarrow> providerMap a' = providerMap a)
    \<and> (l \<noteq> Ran Machine_C \<longrightarrow> drainingMachines a' = drainingMachines a)"
proof -
  let ?pv = "op_gauges oper" and ?cid = "op_clusterId oper" and ?c = "op_idp_types oper"
  have pv: "gauge_vec ?pv" and cid: "ValidString ?cid"
    and types: "list_all ValidString (knownIdentityProviderTypes ?c)"
    and subjects: "valid_subjects (op_network_operator oper)"
    and instances: "valid_instance_types (op_decoders oper)"
    and nodes: "valid_nodes (op_machine_client oper)"
    using ok by (simp_all add: operator_ok_def)
  from step show ?thesis
  proof cases
    case ticks
    then show ?thesis using aggregate_reports [OF pv wf types]
      by (auto simp: same_maps_def elim!: reportsE intro: expo_step.providers)
  next
    case (configmap req out)
    from configmap_report [OF pv cid wf subjects, of "op_configmap_client oper" req w] configmap
    obtain expiry valid where e: "agg_wf ?pv a'" "same_maps a a'"
        "exported ?pv a' = expo_ca expiry valid (exported ?pv a)"
        "expiry = Map.empty \<or> (\<exists>certs. expiry = expiry_series ?cid certs)"
        "valid = Map.empty \<or> (\<exists>b. valid = [[?cid] \<mapsto> of_bool b])"
      by (fastforce split: sum.splits if_splits)
    then obtain certs b where "expiry = Map.empty \<or> expiry = expiry_series ?cid certs"
        "valid = Map.empty \<or> valid = [[?cid] \<mapsto> of_bool b]" by blast
    with e configmap show ?thesis by (auto simp: same_maps_def intro: expo_step.ca_bundle)
  next
    case (admin_group req out)
    from group_effect [OF pv cid wf this(2)] admin_group(1)
    show ?thesis by (auto simp: same_maps_def intro: expo_step.nothing flag_steps)
  next
    case (limited_support req out)
    with limited_support_cases [OF pv cid wf, of "op_configmap_client oper" req w]
    show ?thesis by (auto simp: same_maps_def intro: expo_step.nothing flag_steps split: sum.splits if_splits)
  next
    case (machine now req out)
    with machine_cases [OF pv wf nodes, of "op_events oper" now req w] show ?thesis
      by (auto intro: expo_step.nothing expo_step.drains
          split: sum.splits if_splits verdict.splits)
  next
    case (oauth req out)
    from oauth_effect [OF wf oauth(2)] oauth(1) show ?thesis by (auto intro: expo_step.nothing)
  next
    case (proxy req out)
    with proxy_cases [OF pv cid wf, of "op_proxy_client oper" req w] show ?thesis
      by (auto simp: same_maps_def intro: expo_step.cluster_id expo_step.proxy_state split: sum.splits)
  next
    case (pull_secret req out)
    have none: "secret_reason None \<noteq> ReasonValid" by (simp add: secret_reason_def reason_defs)
    from pull_secret pull_secret_cases [OF pv cid wf, of "op_secret_client oper" req w]
    have a': "agg_wf ?pv a'" "same_maps a a'"
      "exported ?pv a' = exported ?pv a \<or> (\<exists>s. exported ?pv a' = expo_only Pull_Secret_Valid
        [?cid, secret_reason s] (of_bool (secret_reason s = ReasonValid)) (exported ?pv a))"
      using none
      by (auto split: sum.splits if_splits intro: exI [of _ None] exI [of _ "Some _"])
    from a'(3) have "expo_step ?cid ?c (Ran PullSecret_C) (exported ?pv a) (exported ?pv a')"
    proof
      assume "exported ?pv a' = exported ?pv a"
      then show ?thesis by (simp add: expo_step.nothing)
    next
      assume "\<exists>s. exported ?pv a' = expo_only Pull_Secret_Valid
        [?cid, secret_reason s] (of_bool (secret_reason s = ReasonValid)) (exported ?pv a)"
      then obtain s where "exported ?pv a' = expo_only Pull_Secret_Valid
        [?cid, secret_reason s] (of_bool (secret_reason s = ReasonValid)) (exported ?pv a)" by blast
      then show ?thesis using expo_step.secret_state [of ?cid ?c "exported ?pv a" s] by simp
    qed
    then show ?thesis using a' pull_secret(1) by (simp add: same_maps_def)
  next
    case (cpms req out)
    with cpms_report [OF pv cid wf instances, of "op_cpms_client oper" req w] show ?thesis
      by (auto simp: same_maps_def intro: expo_step.nothing flag_steps
          split: sum.splits instance_type.splits)
  qed (use wf in \<open>auto intro: expo_step.nothing\<close>)
qed

subsection \<open>What a scrape can see\<close>

text \<open>
  The meaning of a series: its labels and values are those the metric's documentation promises.
  The metrics of the control plane machine set and of the pull secret have one series at most.
\<close>

fun series_sane :: "string \<Rightarrow> idp_types \<Rightarrow> vec_id \<Rightarrow> string list \<Rightarrow> int \<Rightarrow> bool" where
  "series_sane cid c Identity_Provider key x =
     (\<exists>t \<in> set (knownIdentityProviderTypes c). key = [t] \<and> 0 \<le> x)"
| "series_sane cid c Cluster_Admin_Enabled key x = (key = [cid] \<and> x \<in> {0, 1})"
| "series_sane cid c Limited_Support_Enabled key x = (key = [cid] \<and> x \<in> {0, 1})"
| "series_sane cid c Cluster_Proxy key x =
     (\<exists>http https ca. key = [cid, flag_label http, flag_label https, flag_label ca]
        \<and> x = of_bool (http \<or> https))"
| "series_sane cid c Cluster_Proxy_CA_Expiry key x = (\<exists>subject. key = [cid, subject])"
| "series_sane cid c Cluster_Proxy_CA_Valid key x = (key = [cid] \<and> x \<in> {0, 1})"
| "series_sane cid c Cluster_ID key x = (key = [cid] \<and> x = 1)"
| "series_sane cid c Pods_Preventing_Node_Drain key x = (\<exists>p ns n m. key = [p, ns, n, n, m] \<and> x = 1)"
| "series_sane cid c CPMS_Enabled key x = (\<exists>t. key = [cid, t] \<and> x \<in> {0, 1})"
| "series_sane cid c Pull_Secret_Valid key x = (\<exists>r. key = [cid, r] \<and> x = of_bool (r = ReasonValid))"

definition single_series :: "(string list \<Rightarrow> int option) \<Rightarrow> bool" where
  "single_series f \<longleftrightarrow> (\<forall>k1 k2. f k1 \<noteq> None \<longrightarrow> f k2 \<noteq> None \<longrightarrow> k1 = k2)"

definition exposition_sane :: "string \<Rightarrow> idp_types \<Rightarrow> exposition \<Rightarrow> bool" where
  "exposition_sane cid c e \<longleftrightarrow> (\<forall>v key x. e v key = Some x \<longrightarrow> series_sane cid c v key x)
     \<and> single_series (e CPMS_Enabled) \<and> single_series (e Pull_Secret_Valid)"

lemma sane_series:
  "exposition_sane cid c e \<Longrightarrow> e v key = Some x \<Longrightarrow> series_sane cid c v key x"
  by (simp add: exposition_sane_def)

lemma sane_update:
  assumes "exposition_sane cid c e" and "v \<noteq> CPMS_Enabled" "v \<noteq> Pull_Secret_Valid"
    and "\<And>key x. f key = Some x \<Longrightarrow> series_sane cid c v key x"
  shows "exposition_sane cid c (e(v := f))"
  using assms by (auto simp: exposition_sane_def simp del: series_sane.simps)

lemma sane_set:
  assumes "exposition_sane cid c e" and "v \<noteq> CPMS_Enabled" "v \<noteq> Pull_Secret_Valid"
    and "series_sane cid c v key x"
  shows "exposition_sane cid c (expo_set v key x e)"
  unfolding expo_set_def
  by (rule sane_update [OF assms(1-3)])
    (use assms(4) sane_series [OF assms(1)] in \<open>auto simp del: series_sane.simps split: if_splits\<close>)

lemma sane_only:
  assumes "exposition_sane cid c e" and "series_sane cid c v key x"
  shows "exposition_sane cid c (expo_only v key x e)"
proof -
  have "single_series [key \<mapsto> x]" by (simp add: single_series_def)
  then show ?thesis
    using assms by (auto simp: exposition_sane_def expo_only_def simp del: series_sane.simps split: if_splits)
qed

lemma float64_nonneg: "0 \<le> float64 (int n)"
  by (simp add: float64_def)

lemma sane_providers:
  assumes "exposition_sane cid c e" shows "exposition_sane cid c (expo_providers c m e)"
  unfolding expo_providers_def
  by (rule sane_update [OF assms])
    (use sane_series [OF assms, of Identity_Provider] in
      \<open>fastforce simp: float64_nonneg split: list.splits if_splits\<close>)+

lemma sane_ca:
  assumes "exposition_sane cid c e" and "expiry = Map.empty \<or> expiry = expiry_series cid certs"
    and "valid = Map.empty \<or> valid = [[cid] \<mapsto> of_bool b]"
  shows "exposition_sane cid c (expo_ca expiry valid e)"
proof -
  have "\<exists>subject. key = [cid, subject]" if "expiry key = Some x" for key x
    using that assms(2) by (auto simp: expiry_series_def dest!: map_of_SomeD)
  moreover have "key = [cid] \<and> x \<in> {0, 1}" if "valid key = Some x" for key x
    using that assms(3) by (auto split: if_splits)
  ultimately have "exposition_sane cid c
      ((e(Cluster_Proxy_CA_Expiry := expiry))(Cluster_Proxy_CA_Valid := valid))"
    by (intro sane_update assms(1)) auto
  then show ?thesis by (simp add: expo_ca_def)
qed

lemma sane_drain:
  assumes "exposition_sane cid c e" shows "exposition_sane cid c (expo_drain ms e)"
  unfolding expo_drain_def
  by (rule sane_update [OF assms]) (auto simp: drain_series_def drain_keys_def split: if_splits)

lemma expo_step_sane:
  assumes "expo_step cid c l e e'" and "exposition_sane cid c e"
  shows "exposition_sane cid c e'"
  using assms(1)
proof cases
  case (proxy_state obj)
  have "series_sane cid c Cluster_Proxy (proxy_key cid obj) (proxy_value obj)"
    unfolding proxy_key_def proxy_value_def series_sane.simps by blast
  with proxy_state show ?thesis by (simp add: sane_set assms(2) del: series_sane.simps(4))
next
  case (ca_bundle expiry certs valid b)
  then show ?thesis using sane_ca [OF assms(2)] by simp
qed (simp_all add: assms(2) sane_set sane_only sane_providers sane_drain)

subsection \<open>Reachable states\<close>

abbreviation scraped :: "('w, 'g, 'cm, 'e) operator \<Rightarrow> 'g AdoptionMetricsAggregator \<Rightarrow> exposition" where
  "scraped oper a \<equiv> exported (op_gauges oper) a"

lemma sane_empty: "exposition_sane cid c (\<lambda>_. Map.empty)"
  by (simp add: exposition_sane_def single_series_def)

lemma reachable_invariant:
  assumes "reachable oper s" and ok: "operator_ok oper"
  shows "agg_wf (op_gauges oper) (snd s)
    \<and> exposition_sane (op_clusterId oper) (op_idp_types oper) (scraped oper (snd s))"
  using assms(1)
proof induction
  case (started a w)
  have "gauge_vec (op_gauges oper)" "ValidString (op_clusterId oper)"
    using ok by (simp_all add: operator_ok_def)
  from NewMetricsAggregator_ok [OF this, of aggregatorResyncInterval] started
  have "agg_wf (op_gauges oper) a" "scraped oper a = expo_set Limited_Support_Enabled [op_clusterId oper] 0
      (expo_set Cluster_Admin_Enabled [op_clusterId oper] 0 (\<lambda>_. Map.empty))"
    by auto
  then show ?case by (auto intro!: sane_set sane_empty)
next
  case (stepped s l s')
  obtain w a w' a' where s: "s = (w, a)" "s' = (w', a')" by (cases s; cases s') auto
  from system_step_expo [OF ok, of l w a w' a'] stepped s expo_step_sane show ?case by auto
qed

text \<open>The only actor that may change a metric.\<close>

fun owner :: "vec_id \<Rightarrow> actor" where
  "owner Identity_Provider = Ticker"
| "owner Cluster_Admin_Enabled = Ran Group_C"
| "owner Limited_Support_Enabled = Ran LimitedSupport_C"
| "owner Cluster_Proxy = Ran Proxy_C"
| "owner Cluster_Proxy_CA_Expiry = Ran ConfigMap_C"
| "owner Cluster_Proxy_CA_Valid = Ran ConfigMap_C"
| "owner Cluster_ID = Ran Proxy_C"
| "owner Pods_Preventing_Node_Drain = Ran Machine_C"
| "owner CPMS_Enabled = Ran CPMS_C"
| "owner Pull_Secret_Valid = Ran PullSecret_C"

lemma expo_step_owner:
  assumes "expo_step cid c l e e'" and "e' v \<noteq> e v" shows "owner v = l"
  using assms by (elim expo_stepE) (auto simp: expo_simps split: if_splits)

subsection \<open>Panics\<close>

text \<open>Where the facts about the reconcilers leave room for a panic.\<close>

lemma group_never_panics:
  "gauge_vec pv \<Longrightarrow> ValidString cid \<Longrightarrow> agg_wf pv a \<Longrightarrow> fst (GroupReconcile k pv cid req w a) \<noteq> Panicking"
  using group_effect [of pv cid a k req w] by (metis prod_cases3 fst_conv)

lemma oauth_never_panics:
  "agg_wf pv a \<Longrightarrow> fst (OAuthReconcile k req w a) \<noteq> Panicking"
  using oauth_effect [of pv a k req w] by (metis prod_cases3 fst_conv)

lemma limited_support_never_panics:
  assumes "gauge_vec pv" "ValidString cid" "agg_wf pv a"
  shows "fst (LimitedSupportReconcile k pv cid req w a) \<noteq> Panicking"
  using limited_support_cases [OF assms, of k req w]
  by (cases "Get k w limited_support_key") (auto split: if_splits)

lemma proxy_never_panics:
  assumes "gauge_vec pv" "ValidString cid" "agg_wf pv a"
  shows "fst (ProxyReconcile k pv cid req w a) \<noteq> Panicking"
  using proxy_cases [OF assms, of k req w] by (cases "Get k w req") auto

lemma configmap_never_panics:
  assumes "gauge_vec pv" "ValidString cid" "agg_wf pv a" "valid_subjects cno"
  shows "fst (ConfigMapReconcile k cno pv cid req w a) \<noteq> Panicking"
  using configmap_report [OF assms, of k req w]
proof (cases "Get k w (ca_bundle_key cno)")
  case (Inr cm)
  then show ?thesis using configmap_report [OF assms, of k req w]
    by (cases "TrustBundleConfigMap cno cm (TRUSTED_CA_BUNDLE_CONFIGMAP_KEY cno)") (auto split: if_splits)
qed auto

lemma pull_secret_never_panics:
  assumes "gauge_vec pv" "ValidString cid" "agg_wf pv a"
  shows "fst (PullSecretReconcile k pv cid req w a) \<noteq> Panicking"
  using pull_secret_cases [OF assms, of k req w]
  by (cases "Get k w pull_secret_key") (auto split: if_splits)

lemma cpms_panics_on_nil:
  assumes "gauge_vec pv" "ValidString cid" "agg_wf pv a" "valid_instance_types dec"
    and "fst (CPMSReconcile k dec pv cid req w a) = Panicking"
  shows "\<exists>obj. Get k w cpms_key = Inr obj \<and> instance_type_of dec obj = Nil_pointer"
proof (cases "Get k w cpms_key")
  case (Inl err)
  then show ?thesis using cpms_report [OF assms(1-4), of k req w] assms(5)
    by (auto simp: DoNotRequeue_def RequeueWithError_def split: if_splits)
next
  case (Inr obj)
  then show ?thesis using cpms_report [OF assms(1-4), of k req w] assms(5)
    by (cases "instance_type_of dec obj") (auto simp: DoNotRequeue_def RequeueWithError_def)
qed

lemma nil_verdict:
  "machine_verdict lister now machine w = Nil_dereference \<Longrightarrow>
   m_DeletionTimestamp (machine_meta machine) = None \<or> status_NodeRef machine = None"
  by (auto simp: machine_verdict_def split: option.splits sum.splits if_splits)

lemma machine_panics_on_nil:
  assumes "gauge_vec pv" "agg_wf pv a" "valid_nodes k"
    and "fst (MachineReconcile k lister pv now req w a) = Panicking"
  shows "\<exists>machine. Get k w (machine_key req) = Inr machine
    \<and> (m_DeletionTimestamp (machine_meta machine) = None \<or> status_NodeRef machine = None)"
proof (cases "Get k w (machine_key req)")
  case (Inl err)
  then show ?thesis using machine_cases [OF assms(1-3), of lister now req w] assms(4)
    by (auto simp: DoNotRequeue_def RequeueWithError_def split: if_splits)
next
  case (Inr machine)
  then have "machine_verdict lister now machine w = Nil_dereference"
    using machine_cases [OF assms(1-3), of lister now req w] assms(4)
    by (cases "machine_verdict lister now machine w")
      (auto simp: DoNotRequeue_def RequeueWithError_def RequeueAfter_def split: if_splits)
  from nil_verdict [OF this] Inr show ?thesis by simp
qed

lemma aggregate_returns:
  assumes "gauge_vec pv" "agg_wf pv a" "list_all ValidString (knownIdentityProviderTypes c)"
  shows "\<exists>a'. aggregate pv c a = Ok a'"
  using aggregate_reports [OF assms] by (auto elim: reportsE)

end
