(* ===== verification/Concurrency.thy ===== *)
theory Concurrency
  imports Aggregator_Threads System
begin

section \<open>The controllers and the aggregation loop at the same time\<close>

text \<open>
  \<open>System\<close> takes each reconcile and each round of the aggregation loop to be one step. Here every
  actor is a thread that makes the calls of its reconciles access by access, and the accesses of
  all threads interleave in any way the mutex allows. The results justify the one-step view: the
  aggregator that a concurrent run leaves is one that \<open>System\<close> reaches, no two threads touch the
  same part of the aggregator at a time, and no thread waits for ever.
\<close>

definition run_calls :: "'g gauge_api \<Rightarrow> idp_types \<Rightarrow> agg_call list
    \<Rightarrow> 'g AdoptionMetricsAggregator \<Rightarrow> 'g AdoptionMetricsAggregator" where
  "run_calls pv c calls a = state_of (range_exec (method_step pv c) calls a)"

primrec calls_code :: "'g gauge_api \<Rightarrow> 'g vec_with \<Rightarrow> idp_types \<Rightarrow> agg_call list
    \<Rightarrow> 'g AdoptionMetricsAggregator code" where
  "calls_code pv wth c [] = Stop"
| "calls_code pv wth c (call # calls) = seq (call_code pv wth c call) (calls_code pv wth c calls)"

lemma run_calls_code:
  assumes "gauge_with pv wth"
  shows "run_code (calls_code pv wth c calls) = range_exec (method_step pv c) calls"
proof (induction calls)
  case (Cons call calls)
  then show ?case by (intro ext) (simp add: run_code_seq run_call_code [OF assms])
qed (simp add: fun_eq_iff)

subsection \<open>The calls of a reconcile\<close>

text \<open>The part of the aggregator that an actor works on.\<close>

fun home :: "actor \<Rightarrow> region" where
  "home Ticker = Providers_R"
| "home (Ran OAuth_C) = Providers_R"
| "home (Ran Group_C) = Admin_R"
| "home (Ran LimitedSupport_C) = Support_R"
| "home (Ran Proxy_C) = Proxy_R"
| "home (Ran ConfigMap_C) = CA_R"
| "home (Ran Machine_C) = Drain_R"
| "home (Ran CPMS_C) = CPMS_R"
| "home (Ran PullSecret_C) = Pull_Secret_R"
| "home (Ran ClusterRole_C) = Interval_R"
| "home Cluster = Interval_R"

text \<open>The arguments with which the reconcilers make the calls.\<close>

fun sane_call :: "string \<Rightarrow> idp_types \<Rightarrow> agg_call \<Rightarrow> bool" where
  "sane_call cid c (SetClusterAdmin_m u b) \<longleftrightarrow> u = cid"
| "sane_call cid c (SetLimitedSupport_m u b) \<longleftrightarrow> u = cid"
| "sane_call cid c (SetClusterProxy_m u http https ca n) \<longleftrightarrow>
     series_sane cid c Cluster_Proxy [u, http, https, ca] (float64 n)"
| "sane_call cid c (SetClusterID_m u) \<longleftrightarrow> u = cid"
| "sane_call cid c (SetClusterProxyCAExpiry_m u s n) \<longleftrightarrow> u = cid"
| "sane_call cid c (SetClusterProxyCAValid_m u b) \<longleftrightarrow> u = cid"
| "sane_call cid c (SetCPMSEnabled_m u t b) \<longleftrightarrow> u = cid"
| "sane_call cid c (SetPullSecretValid_m u b r) \<longleftrightarrow> u = cid \<and> b = (r = ReasonValid)"
| "sane_call cid c _ \<longleftrightarrow> True"

text \<open>
  \<open>calls_of r f calls\<close>: on every aggregator \<open>f\<close> makes these calls, all in one region, and at
  most one if the region is under the mutex.
\<close>

definition calls_of :: "'g gauge_api \<Rightarrow> idp_types \<Rightarrow> string \<Rightarrow> region
    \<Rightarrow> ('g AdoptionMetricsAggregator \<Rightarrow> 'g AdoptionMetricsAggregator) \<Rightarrow> agg_call list \<Rightarrow> bool" where
  "calls_of pv c cid r f calls \<longleftrightarrow>
     (\<forall>call \<in> set calls. call_region call = r \<and> sane_call cid c call)
     \<and> (r = Providers_R \<longrightarrow> length calls \<le> 1) \<and> f = run_calls pv c calls"

lemma run_calls_simps [simp]:
  "run_calls pv c [] a = a"
  "run_calls pv c [call] a = state_of (method_step pv c call a)"
  by (simp_all add: run_calls_def)

lemma after_call_state:
  "(\<And>a. snd (snd (f a)) = a) \<Longrightarrow> snd (snd (after_call x w f)) = state_of x"
  by (cases x) simp_all

lemma calls_none: "(\<And>a. f a = a) \<Longrightarrow> \<exists>calls. calls_of pv c cid r f calls"
  by (intro exI [of _ "[]"]) (auto simp: calls_of_def fun_eq_iff)

lemma calls_one:
  "call_region call = r \<Longrightarrow> sane_call cid c call \<Longrightarrow> (\<And>a. f a = state_of (method_step pv c call a)) \<Longrightarrow>
   \<exists>calls. calls_of pv c cid r f calls"
  by (intro exI [of _ "[call]"]) (auto simp: calls_of_def fun_eq_iff)

lemma group_calls: "\<exists>calls. calls_of pv c cid Admin_R (\<lambda>a. snd (snd (GroupReconcile k pv cid req w a))) calls"
proof (cases "Get k w req")
  case (Inl err)
  then show ?thesis by (intro calls_none) (simp add: GroupReconcile_def)
next
  case (Inr grp)
  let ?upd = "if \<not> ContainsString (m_Finalizers (group_meta grp)) group_finalizer then
      Update k w (set_group_finalizers (AddFinalizer k (m_Finalizers (group_meta grp)) group_finalizer) grp)
    else (Inr grp, w)"
  show ?thesis
  proof (cases "IsZero (m_DeletionTimestamp (group_meta grp))")
    case True
    show ?thesis
    proof (cases ?upd)
      case (Pair res w1)
      have run: "GroupReconcile k pv cid req w a = (case res of
          Inl err \<Rightarrow> (Returned empty_Result (Some (LibError err)), w1, a)
        | Inr grp \<Rightarrow> after_call (SetClusterAdmin pv cid (length (Users grp) > 0) a) w1
            (\<lambda>a. (Returned empty_Result None, w1, a)))" for a
        by (simp only: GroupReconcile_def Inr True Pair if_True sum.case prod.case)
      show ?thesis
      proof (cases res)
        case (Inl err)
        then show ?thesis by (intro calls_none) (simp add: run)
      next
        case (Inr grp')
        then show ?thesis by (intro calls_one [of "SetClusterAdmin_m cid (length (Users grp') > 0)"])
            (simp_all add: run after_call_state)
      qed
    qed
  next
    case False
    then show ?thesis using Inr
      by (intro calls_one [of "SetClusterAdmin_m cid False"])
        (simp_all add: GroupReconcile_def after_call_state split: sum.split prod.split)
  qed
qed

lemma limited_support_calls:
  "\<exists>calls. calls_of pv c cid Support_R (\<lambda>a. snd (snd (LimitedSupportReconcile k pv cid req w a))) calls"
proof (cases "Get k w limited_support_key")
  case (Inl err)
  show ?thesis
  proof (cases "IsNotFound k err")
    case True
    with Inl show ?thesis by (intro calls_one [of "SetLimitedSupport_m cid False"])
        (simp_all add: LimitedSupportReconcile_def after_call_state)
  next
    case False
    with Inl show ?thesis by (intro calls_none) (simp add: LimitedSupportReconcile_def)
  qed
next
  case (Inr cm)
  then show ?thesis by (intro calls_one [of "SetLimitedSupport_m cid True"])
      (simp_all add: LimitedSupportReconcile_def after_call_state)
qed

lemma oauth_calls: "\<exists>calls. calls_of pv c cid Providers_R (\<lambda>a. snd (snd (OAuthReconcile k req w a))) calls"
proof (cases "Get k w req")
  case (Inl err)
  then show ?thesis by (intro calls_none) (simp add: OAuthReconcile_def)
next
  case (Inr obj)
  let ?add = "if \<not> ContainsString (m_Finalizers (oauth_meta obj)) oauth_finalizer then
      Update k w (set_oauth_finalizers (AddFinalizer k (m_Finalizers (oauth_meta obj)) oauth_finalizer) obj)
    else (Inr obj, w)"
  let ?remove = "if ContainsString (m_Finalizers (oauth_meta obj)) oauth_finalizer then
      Update k w (set_oauth_finalizers (RemoveFinalizer k (m_Finalizers (oauth_meta obj)) oauth_finalizer) obj)
    else (Inr obj, w)"
  let ?zero = "IsZero (m_DeletionTimestamp (oauth_meta obj))"
  obtain res w1 where upd: "(if ?zero then ?add else ?remove) = (res, w1)" by (rule prod.exhaust)
  have run: "OAuthReconcile k req w a = (case res of
      Inl err \<Rightarrow> (Returned empty_Result (Some (LibError err)), w1, a)
    | Inr obj \<Rightarrow> (Returned empty_Result None, w1,
        if ?zero then SetOAuthIDP (m_Name (oauth_meta obj)) (m_Namespace (oauth_meta obj))
          (spec_IdentityProviders obj) a
        else DeleteOAuthIDP (m_Name (oauth_meta obj)) (m_Namespace (oauth_meta obj)) a))" for a
  proof (cases ?zero)
    case True
    then have "?add = (res, w1)" using upd by (simp only: if_True)
    with True show ?thesis by (simp only: OAuthReconcile_def Inr if_True sum.case prod.case)
  next
    case False
    then have "?remove = (res, w1)" using upd by (simp only: if_False)
    with False show ?thesis by (simp only: OAuthReconcile_def Inr if_False sum.case prod.case)
  qed
  show ?thesis
  proof (cases res)
    case (Inl err)
    then show ?thesis by (intro calls_none) (simp add: run)
  next
    case (Inr obj')
    let ?m = "oauth_meta obj'"
    show ?thesis using Inr
      by (intro calls_one [of "if ?zero then SetOAuthIDP_m (m_Name ?m) (m_Namespace ?m) (spec_IdentityProviders obj')
          else DeleteOAuthIDP_m (m_Name ?m) (m_Namespace ?m)"]) (simp_all add: run)
  qed
qed

lemma proxy_calls: "\<exists>calls. calls_of pv c cid Proxy_R (\<lambda>a. snd (snd (ProxyReconcile k pv cid req w a))) calls"
proof (cases "Get k w req")
  case (Inl err)
  then show ?thesis by (intro calls_one [of "SetClusterID_m cid"])
      (simp_all add: ProxyReconcile_def after_call_state)
next
  case (Inr obj)
  let ?h = "status_HTTPProxy obj \<noteq> ''''" and ?s = "status_HTTPSProxy obj \<noteq> ''''"
    and ?ca = "spec_TrustedCA_Name obj \<noteq> ''''"
  let ?set = "SetClusterProxy pv cid (flag_label ?h) (flag_label ?s) (flag_label ?ca) (of_bool (?h \<or> ?s))"
  have run: "ProxyReconcile k pv cid req w a = after_call (SetClusterID pv cid a) w
      (\<lambda>a. after_call (?set a) w (\<lambda>a. (Returned empty_Result None, w, a)))" for a
    by (simp add: ProxyReconcile_def Inr flag_label_def)
  have state: "snd (snd (ProxyReconcile k pv cid req w a)) =
      state_of (exec_bind (SetClusterID pv cid a) ?set)" for a
    by (cases "SetClusterID pv cid a") (simp_all add: run after_call_state)
  have "series_sane cid c Cluster_Proxy [cid, flag_label ?h, flag_label ?s, flag_label ?ca]
      (float64 (of_bool (?h \<or> ?s)))"
    unfolding series_sane.simps
    by (rule exI [of _ ?h], rule exI [of _ ?s], rule exI [of _ ?ca]) (simp add: float64_exact)
  then have "calls_of pv c cid Proxy_R (\<lambda>a. snd (snd (ProxyReconcile k pv cid req w a)))
      [SetClusterID_m cid, SetClusterProxy_m cid (flag_label ?h) (flag_label ?s) (flag_label ?ca) (of_bool (?h \<or> ?s))]"
    unfolding calls_of_def state by (simp add: run_calls_def fun_eq_iff del: series_sane.simps)
  then show ?thesis by blast
qed

lemma configmap_calls:
  "\<exists>calls. calls_of pv c cid CA_R (\<lambda>a. snd (snd (ConfigMapReconcile k cno pv cid req w a))) calls"
proof -
  define calls where "calls = (case Get k w (ca_bundle_key cno) of
      Inl err \<Rightarrow> []
    | Inr cm \<Rightarrow> (case TrustBundleConfigMap cno cm (TRUSTED_CA_BUNDLE_CONFIGMAP_KEY cno) of
        Inl err \<Rightarrow> if strings_Contains (Error_text cno err) ''failed parsing certificate''
          then [SetClusterProxyCAValid_m cid False] else []
      | Inr certs \<Rightarrow> concat (map (\<lambda>cert. [SetClusterProxyCAExpiry_m cid (cert_Subject cert) (Unix (cert_NotAfter cert)),
          SetClusterProxyCAValid_m cid True]) certs)))"
  have certs: "range_exec (method_step pv c) (concat (map (\<lambda>cert.
        [SetClusterProxyCAExpiry_m cid (cert_Subject cert) (Unix (cert_NotAfter cert)),
         SetClusterProxyCAValid_m cid True]) certs)) = range_exec (report_certificate pv cid) certs" for certs
  proof -
    have "range_exec (method_step pv c) [SetClusterProxyCAExpiry_m cid (cert_Subject cert) (Unix (cert_NotAfter cert)),
        SetClusterProxyCAValid_m cid True] = report_certificate pv cid cert" for cert
      by (simp add: report_certificate_def fun_eq_iff)
    then show ?thesis by (simp only: range_exec_concat_map)
  qed
  have "snd (snd (ConfigMapReconcile k cno pv cid req w a)) =
      run_calls pv c calls (ResetClusterProxyCAValid pv (ResetClusterProxyCAExpiry pv a))" for a
    by (auto simp: calls_def run_calls_def ConfigMapReconcile_def Let_def certs after_call_state
        split: sum.split)
  moreover have "\<forall>call \<in> set calls. call_region call = CA_R \<and> sane_call cid c call"
  proof (cases "Get k w (ca_bundle_key cno)")
    case (Inr cm)
    then show ?thesis
      by (cases "TrustBundleConfigMap cno cm (TRUSTED_CA_BUNDLE_CONFIGMAP_KEY cno)") (auto simp: calls_def)
  qed (simp add: calls_def)
  ultimately have "calls_of pv c cid CA_R (\<lambda>a. snd (snd (ConfigMapReconcile k cno pv cid req w a)))
      (ResetClusterProxyCAExpiry_m # ResetClusterProxyCAValid_m # calls)"
    by (auto simp: calls_of_def run_calls_def fun_eq_iff)
  then show ?thesis by blast
qed

lemma cpms_calls:
  "\<exists>calls. calls_of pv c cid CPMS_R (\<lambda>a. snd (snd (CPMSReconcile k dec pv cid req w a))) calls"
proof -
  have report: "snd (snd (report_cpms pv cid obj t w a)) =
      state_of (SetCPMSEnabled pv cid t (cpms_State obj = ''Active'') a)" for obj t a
    by (simp add: report_cpms_def after_call_state)
  show ?thesis
  proof (cases "Get k w cpms_key")
    case (Inl err)
    then show ?thesis by (intro calls_none) (simp add: CPMSReconcile_def DoNotRequeue_def RequeueWithError_def)
  next
    case (Inr obj)
    note run = CPMSReconcile_by_instance_type [of k dec pv cid req w, unfolded Inr sum.case]
    show ?thesis
    proof (cases "instance_type_of dec obj")
      case (Known t)
      then show ?thesis by (intro calls_one [of "SetCPMSEnabled_m cid t (cpms_State obj = ''Active'')"])
          (simp_all add: run report)
    qed (intro calls_none; simp add: run RequeueWithError_def)+
  qed
qed

lemma machine_calls:
  "\<exists>calls. calls_of pv c cid Drain_R (\<lambda>a. snd (snd (MachineReconcile k lister pv now req w a))) calls"
proof (cases "Get k w (machine_key req)")
  case (Inl err)
  show ?thesis
  proof (cases "IsNotFound k err")
    case True
    with Inl show ?thesis by (intro calls_one [of "RemoveMachineMetrics_m (nn_Name req)"])
        (simp_all add: MachineReconcile_def after_call_state)
  next
    case False
    with Inl show ?thesis by (intro calls_none) (simp add: MachineReconcile_def RequeueWithError_def)
  qed
next
  case (Inr machine)
  show ?thesis
  proof (cases "is_deleting machine")
    case False
    with Inr show ?thesis by (intro calls_none) (simp add: MachineReconcile_not_deleting DoNotRequeue_def)
  next
    case True
    note run = MachineReconcile_deleting [OF Inr True] evaluate_by_verdict
    show ?thesis
    proof (cases "machine_verdict lister now machine w")
      case (Report node pods)
      then show ?thesis
        by (intro calls_one [of "SetFailingDrainPodsForMachine_m (m_Name (machine_meta machine)) pods node"])
          (simp_all add: run after_call_state)
    qed (intro calls_none; simp add: run RequeueAfter_def RequeueWithError_def)+
  qed
qed

lemma pull_secret_calls:
  "\<exists>calls. calls_of pv c cid Pull_Secret_R (\<lambda>a. snd (snd (PullSecretReconcile k pv cid req w a))) calls"
proof (cases "Get k w pull_secret_key")
  case (Inl err)
  show ?thesis
  proof (cases "IsNotFound k err")
    case True
    with Inl show ?thesis by (intro calls_one [of "SetPullSecretValid_m cid False ReasonNotFound"])
        (simp_all add: PullSecretReconcile_def after_call_state reason_defs)
  next
    case False
    with Inl show ?thesis by (intro calls_none) (simp add: PullSecretReconcile_def)
  qed
next
  case (Inr secret)
  let ?r = "secret_reason (Some secret)"
  from Inr show ?thesis
    by (intro calls_one [of "SetPullSecretValid_m cid (?r = ReasonValid) ?r"])
      (simp_all add: PullSecretReconcile_def validate_by_reason after_call_state)
qed

subsection \<open>The threads of the operator\<close>

text \<open>
  \<open>makes oper l calls\<close>: in some state of the cluster, a step of the actor \<open>l\<close> makes exactly
  these calls on whatever aggregator it finds.
\<close>

definition makes :: "('w, 'g, 'cm, 'e) operator \<Rightarrow> actor \<Rightarrow> agg_call list \<Rightarrow> bool" where
  "makes oper l calls \<longleftrightarrow> calls \<noteq> []
     \<and> (\<forall>call \<in> set calls. call_region call = home l
          \<and> sane_call (op_clusterId oper) (op_idp_types oper) call)
     \<and> (home l = Providers_R \<longrightarrow> length calls = 1)
     \<and> (\<exists>w. \<forall>a. agg_wf (op_gauges oper) a \<longrightarrow>
          (\<exists>w'. system_step oper l (w, a) (w', run_calls (op_gauges oper) (op_idp_types oper) calls a)))"

lemma makes_step:
  assumes "calls_of (op_gauges oper) (op_idp_types oper) (op_clusterId oper) (home l) f calls"
    and "\<And>a. agg_wf (op_gauges oper) a \<Longrightarrow> \<exists>w'. system_step oper l (w, a) (w', f a)"
  shows "f a = a \<or> (\<exists>calls. makes oper l calls
    \<and> f a = run_calls (op_gauges oper) (op_idp_types oper) calls a)"
proof (cases "calls = []")
  case True
  then show ?thesis using assms(1) by (simp add: calls_of_def)
next
  case False
  moreover from False have "length calls \<noteq> 0" by simp
  ultimately have "makes oper l calls"
    using assms unfolding makes_def calls_of_def by (auto simp: le_Suc_eq)
  then show ?thesis using assms(1) by (auto simp: calls_of_def)
qed

lemma step_of_result:
  "(\<And>out w' a'. run = (out, w', a') \<Longrightarrow> system_step oper l s (w', a')) \<Longrightarrow>
   \<exists>w'. system_step oper l s (w', snd (snd run))"
  by (metis prod.collapse)

lemma configmap_steps:
  "\<exists>w'. system_step oper (Ran ConfigMap_C) (w, a) (w', snd (snd (ConfigMapReconcile (op_configmap_client oper) (op_network_operator oper) (op_gauges oper)
      (op_clusterId oper) req w a)))"
  by (rule step_of_result, erule system_step.configmap)

lemma admin_group_steps:
  "\<exists>w'. system_step oper (Ran Group_C) (w, a) (w', snd (snd (GroupReconcile (op_group_client oper) (op_gauges oper) (op_clusterId oper) req w a)))"
  by (rule step_of_result, erule system_step.admin_group)

lemma limited_support_steps:
  "\<exists>w'. system_step oper (Ran LimitedSupport_C) (w, a) (w', snd (snd (LimitedSupportReconcile (op_configmap_client oper) (op_gauges oper)
      (op_clusterId oper) req w a)))"
  by (rule step_of_result, erule system_step.limited_support)

lemma machine_steps:
  "\<exists>w'. system_step oper (Ran Machine_C) (w, a) (w', snd (snd (MachineReconcile (op_machine_client oper) (op_events oper) (op_gauges oper) now req w a)))"
  by (rule step_of_result, erule system_step.machine)

lemma oauth_steps:
  "\<exists>w'. system_step oper (Ran OAuth_C) (w, a) (w', snd (snd (OAuthReconcile (op_oauth_client oper) req w a)))"
  by (rule step_of_result, erule system_step.oauth)

lemma proxy_steps:
  "\<exists>w'. system_step oper (Ran Proxy_C) (w, a) (w', snd (snd (ProxyReconcile (op_proxy_client oper) (op_gauges oper) (op_clusterId oper) req w a)))"
  by (rule step_of_result, erule system_step.proxy)

lemma pull_secret_steps:
  "\<exists>w'. system_step oper (Ran PullSecret_C) (w, a) (w', snd (snd (PullSecretReconcile (op_secret_client oper) (op_gauges oper) (op_clusterId oper) req w a)))"
  by (rule step_of_result, erule system_step.pull_secret)

lemma cpms_steps:
  "\<exists>w'. system_step oper (Ran CPMS_C) (w, a) (w', snd (snd (CPMSReconcile (op_cpms_client oper) (op_decoders oper) (op_gauges oper) (op_clusterId oper)
      req w a)))"
  by (rule step_of_result, erule system_step.cpms)

lemma reconcile_makes:
  assumes "\<exists>calls. calls_of (op_gauges oper) (op_idp_types oper) (op_clusterId oper) r
      (\<lambda>a. snd (snd (run a))) calls"
    and "\<And>a. \<exists>w'. system_step oper l (w, a) (w', snd (snd (run a)))"
    and "run a = (out, w', a')" and "home l = r"
  shows "a' = a \<or> (\<exists>calls. makes oper l calls
    \<and> a' = run_calls (op_gauges oper) (op_idp_types oper) calls a)"
  using makes_step [of oper l "\<lambda>a. snd (snd (run a))" _ w a] assms by auto

text \<open>Every step of the system is such calls, or leaves the aggregator alone.\<close>

lemma system_step_calls:
  assumes ok: "operator_ok oper" and wf: "agg_wf (op_gauges oper) a"
    and step: "system_step oper l (w, a) (w', a')"
  shows "a' = a \<or> (\<exists>calls. makes oper l calls
    \<and> a' = run_calls (op_gauges oper) (op_idp_types oper) calls a)"
  using step
proof cases
  case ticks
  have types: "list_all ValidString (knownIdentityProviderTypes (op_idp_types oper))"
    and pv: "gauge_vec (op_gauges oper)" using ok by (simp_all add: operator_ok_def)
  let ?f = "\<lambda>a. state_of (aggregate (op_gauges oper) (op_idp_types oper) a)"
  have "calls_of (op_gauges oper) (op_idp_types oper) (op_clusterId oper) (home l) ?f [aggregate_m]"
    using ticks by (simp add: calls_of_def fun_eq_iff)
  moreover have "\<exists>w'. system_step oper l (w, b) (w', ?f b)" if "agg_wf (op_gauges oper) b" for b
    using aggregate_returns [OF pv that types] ticks(1)
    by (auto intro!: exI [of _ w] system_step.ticks)
  ultimately have "?f a = a \<or> (\<exists>calls. makes oper l calls
      \<and> ?f a = run_calls (op_gauges oper) (op_idp_types oper) calls a)" by (rule makes_step)
  then show ?thesis using ticks(3) by simp
next
  case (configmap req out)
  show ?thesis unfolding configmap(1)
    by (rule reconcile_makes [OF configmap_calls configmap_steps configmap(2)]) simp
next
  case (admin_group req out)
  show ?thesis unfolding admin_group(1)
    by (rule reconcile_makes [OF group_calls admin_group_steps admin_group(2)]) simp
next
  case (limited_support req out)
  show ?thesis unfolding limited_support(1)
    by (rule reconcile_makes [OF limited_support_calls limited_support_steps limited_support(2)]) simp
next
  case (machine now req out)
  show ?thesis unfolding machine(1)
    by (rule reconcile_makes [OF machine_calls machine_steps machine(2)]) simp
next
  case (oauth req out)
  show ?thesis unfolding oauth(1)
    by (rule reconcile_makes [OF oauth_calls oauth_steps oauth(2)]) simp
next
  case (proxy req out)
  show ?thesis unfolding proxy(1)
    by (rule reconcile_makes [OF proxy_calls proxy_steps proxy(2)]) simp
next
  case (pull_secret req out)
  show ?thesis unfolding pull_secret(1)
    by (rule reconcile_makes [OF pull_secret_calls pull_secret_steps pull_secret(2)]) simp
next
  case (cpms req out)
  show ?thesis unfolding cpms(1)
    by (rule reconcile_makes [OF cpms_calls cpms_steps cpms(2)]) simp
qed simp_all

subsection \<open>The threads share regions as the locale asks for\<close>

definition holds_mutex :: "agg_call list \<Rightarrow> bool" where
  "holds_mutex calls \<longleftrightarrow> takes_mutex (hd calls)"

definition calls_region :: "agg_call list \<Rightarrow> region" where
  "calls_region calls = call_region (hd calls)"

lemma makes_region: "makes oper l calls \<Longrightarrow> calls_region calls = home l"
  by (cases calls) (auto simp: makes_def calls_region_def)

lemma makes_within:
  assumes "makes oper l calls"
  shows "within agree (calls_region calls) (calls_code pv wth c calls)"
proof -
  have "within agree r (calls_code pv wth c calls)" if "\<forall>call \<in> set calls. call_region call = r" for r
    using that by (induction calls) (auto intro: within_seq call_within)
  with assms makes_region [OF assms] show ?thesis by (simp add: makes_def)
qed

lemma call_region_known: "call_region call \<noteq> Interval_R"
  by (cases call) simp_all

lemma mutex_region: "takes_mutex call \<longleftrightarrow> call_region call = Providers_R"
  by (cases call) simp_all

lemma home_shared: "home l = home l' \<Longrightarrow> l \<noteq> l' \<Longrightarrow> home l \<in> {Providers_R, Interval_R}"
  by (cases l rule: home.cases; cases l' rule: home.cases; simp)

interpretation agg_threads: shared_regions "makes oper" "calls_code (op_gauges oper) wth (op_idp_types oper)"
    holds_mutex calls_region agree for oper wth
proof
  fix t c t' c'
  assume made: "makes oper t c" "makes oper t' c'" and "t \<noteq> t'" "calls_region c = calls_region c'"
  then have "calls_region c \<in> {Providers_R, Interval_R}" "calls_region c' \<in> {Providers_R, Interval_R}"
    using home_shared makes_region by metis+
  then show "holds_mutex c \<and> holds_mutex c'"
    using call_region_known by (auto simp: calls_region_def holds_mutex_def mutex_region)
qed (auto intro: agree_equivalence agree_everywhere makes_within)

definition concurrent_run :: "('w, 'g, 'cm, 'e) operator \<Rightarrow> 'g vec_with
    \<Rightarrow> (actor, agg_call list, 'g AdoptionMetricsAggregator) machine
    \<Rightarrow> (actor, agg_call list, 'g AdoptionMetricsAggregator) machine \<Rightarrow> bool" where
  "concurrent_run oper wth =
     interleaved (makes oper) (calls_code (op_gauges oper) wth (op_idp_types oper)) holds_mutex"

lemma concurrent_run_trans:
  "concurrent_run oper wth m0 m1 \<Longrightarrow> concurrent_run oper wth m1 m2 \<Longrightarrow> concurrent_run oper wth m0 m2"
  unfolding concurrent_run_def by (rule interleaved_trans)

subsection \<open>A concurrent run ends where the system gets to\<close>

lemma reachable_world: "reachable oper (w, a) \<Longrightarrow> reachable oper (w', a)"
  by (rule reachable.stepped [OF _ system_step.cluster_changes])

lemma reachable_calls:
  assumes ok: "operator_ok oper" and a: "reachable oper (w, a)" and made: "makes oper l calls"
  shows "reachable oper (w, run_calls (op_gauges oper) (op_idp_types oper) calls a)"
proof -
  have "agg_wf (op_gauges oper) a" using reachable_invariant [OF a ok] by simp
  with made obtain w1 w2 where
    "system_step oper l (w1, a) (w2, run_calls (op_gauges oper) (op_idp_types oper) calls a)"
    unfolding makes_def by blast
  with reachable_world [OF a] have "reachable oper (w2, run_calls (op_gauges oper) (op_idp_types oper) calls a)"
    by (rule reachable.stepped)
  then show ?thesis by (rule reachable_world)
qed

lemma reachable_serial:
  assumes ok: "operator_ok oper" and wth: "gauge_with (op_gauges oper) wth"
    and a: "reachable oper (w, a)" and made: "\<forall>calls \<in> set cs. \<exists>l. makes oper l calls"
  shows "reachable oper (w, serial (calls_code (op_gauges oper) wth (op_idp_types oper)) cs a)"
  using made
proof (induction cs rule: rev_induct)
  case (snoc calls cs)
  then obtain l where "makes oper l calls" by auto
  with snoc reachable_calls [OF ok] show ?case
    by (simp add: run_calls_code [OF wth] run_calls_def [symmetric])
qed (use a in simp)

lemma history_reachable:
  assumes "operator_ok oper" "gauge_with (op_gauges oper) wth"
    and "concurrent_run oper wth (started_machine a0) m" "reachable oper (w, a0)"
  shows "reachable oper (w, serial (calls_code (op_gauges oper) wth (op_idp_types oper)) (history m) a0)"
  using reachable_serial [OF assms(1,2,4)] agg_threads.history_made [OF assms(3) [unfolded concurrent_run_def]]
  by blast

end
