(* ===== verification/Scrapes.thy ===== *)
theory Scrapes
  imports Concurrency
begin

section \<open>What a scrape can see while calls are running\<close>

text \<open>
  A scrape takes no lock of the operator, so it may come between any two accesses. Two moments
  differ from the states between calls: after a \<open>Reset\<close> a vector has no series, and after a
  \<open>With\<close> that has created a series its value is 0 until \<open>Set\<close> follows. \<open>glimpse\<close> is what remains
  true of a series at every moment; \<open>glimpse_sane\<close> also has the two admin flags, which
  are set at start-up and never reset, and the bound on the series of a state gauge.
\<close>

definition glimpse :: "string \<Rightarrow> idp_types \<Rightarrow> vec_id \<Rightarrow> string list \<Rightarrow> int \<Rightarrow> bool" where
  "glimpse cid c v key x \<longleftrightarrow>
     series_sane cid c v key x \<or> x = 0 \<and> (\<exists>y. series_sane cid c v key y)"

definition flag_present :: "(string list \<Rightarrow> int option) \<Rightarrow> string \<Rightarrow> bool" where
  "flag_present f cid \<longleftrightarrow> f [cid] = Some 0 \<or> f [cid] = Some 1"

definition glimpse_sane :: "string \<Rightarrow> idp_types \<Rightarrow> exposition \<Rightarrow> bool" where
  "glimpse_sane cid c e \<longleftrightarrow> (\<forall>v key x. e v key = Some x \<longrightarrow> glimpse cid c v key x)
     \<and> single_series (e CPMS_Enabled) \<and> single_series (e Pull_Secret_Valid)
     \<and> flag_present (e Cluster_Admin_Enabled) cid \<and> flag_present (e Limited_Support_Enabled) cid"

definition names_ok :: "'g gauge_api \<Rightarrow> 'g AdoptionMetricsAggregator \<Rightarrow> bool" where
  "names_ok pv a \<longleftrightarrow> (\<forall>v. label_names pv (vec_of v a) = declared_labels v)"

definition scrape_ok :: "'g gauge_api \<Rightarrow> string \<Rightarrow> idp_types \<Rightarrow> 'g AdoptionMetricsAggregator \<Rightarrow> bool" where
  "scrape_ok pv cid c a \<longleftrightarrow> names_ok pv a \<and> glimpse_sane cid c (exported pv a)"

lemma glimpse_update:
  assumes "glimpse_sane cid c e" and "\<And>key x. f key = Some x \<Longrightarrow> glimpse cid c v key x"
    and "v \<in> {CPMS_Enabled, Pull_Secret_Valid} \<Longrightarrow> single_series f"
    and "v \<in> {Cluster_Admin_Enabled, Limited_Support_Enabled} \<Longrightarrow> flag_present f cid"
  shows "glimpse_sane cid c (e(v := f))"
  using assms by (auto simp: glimpse_sane_def)

lemma glimpse_series: "glimpse_sane cid c e \<Longrightarrow> e v key = Some x \<Longrightarrow> glimpse cid c v key x"
  by (simp add: glimpse_sane_def)

subsection \<open>Every access keeps what a scrape can see\<close>

text \<open>The value of a series once \<open>With\<close> has made sure that it exists.\<close>

definition opened :: "exposition \<Rightarrow> vec_id \<Rightarrow> string list \<Rightarrow> exposition" where
  "opened e v key = expo_set v key (case e v key of None \<Rightarrow> 0 | Some x \<Rightarrow> x) e"

context vec_field
begin

lemma along_reset:
  assumes pv: "gauge_vec pv" and a: "scrape_ok pv cid c a"
    and rest: "\<And>b. names_ok pv b \<Longrightarrow> exported pv b = expo_clear v (exported pv a) \<Longrightarrow>
      along (scrape_ok pv cid c) k b"
  shows "along (scrape_ok pv cid c) (reset_access pv get put k) a"
proof -
  let ?b = "put (VecReset pv (get a)) a"
  have "names_ok pv ?b" "exported pv ?b = expo_clear v (exported pv a)"
    using a gauge_vec.reset_names [OF pv] gauge_vec.reset_series [OF pv]
    by (auto simp: scrape_ok_def names_ok_def put_vec get_vec exported_put expo_clear_def fun_eq_iff)
  with rest a show ?thesis by (simp add: reset_access_def)
qed

lemma along_set:
  assumes wth: "gauge_with pv wth" and a: "scrape_ok pv cid c a"
    and key: "label_values (declared_labels v) ls = key"
    and fresh: "glimpse_sane cid c (opened (exported pv a) v key)"
    and rest: "\<And>b. names_ok pv b \<Longrightarrow> exported pv b = expo_set v key x (exported pv a) \<Longrightarrow>
      along (scrape_ok pv cid c) k b"
  shows "along (scrape_ok pv cid c) (set_access pv wth get put ls x k) a"
proof (cases "labels_ok (declared_labels v) ls")
  case True
  have pv: "gauge_vec pv" using wth by (simp add: gauge_with_def)
  have names: "label_names pv (get a) = declared_labels v"
    using a by (simp add: scrape_ok_def names_ok_def get_vec)
  obtain g where g: "wth (get a) ls = Some g"
    using gauge_with.created [OF wth, of "get a" ls] True names by auto
  let ?b = "put g a"
  have series: "series pv g = (case exported pv a v key of
      None \<Rightarrow> (exported pv a v)(key \<mapsto> 0) | Some _ \<Rightarrow> exported pv a v)"
    using gauge_with.created_series [OF wth g]
    unfolding names key Let_def unfolding get_vec exported_def .
  have b: "names_ok pv ?b"
    using a gauge_with.created_names [OF wth g] names
    by (simp add: scrape_ok_def names_ok_def put_vec get_vec)
  have eb: "exported pv ?b = opened (exported pv a) v key"
    using series by (auto simp: opened_def expo_set_def exported_put fun_eq_iff split: option.splits)
  obtain d where d: "with_set pv get put ls x ?b = Ok d"
      "\<forall>v'. label_names pv (vec_of v' d) = label_names pv (vec_of v' ?b)"
      "exported pv d = expo_set v key x (exported pv ?b)"
    using set_step [OF pv _ True, of ?b x] b key by (auto simp: names_ok_def)
  have "names_ok pv d" using d(2) b by (simp add: names_ok_def)
  moreover have "exported pv d = expo_set v key x (exported pv a)"
    by (simp add: d(3) eb opened_def expo_set_def)
  ultimately have "along (scrape_ok pv cid c) k d" by (rule rest)
  then show ?thesis
    using a b eb fresh by (simp add: set_access_def with_access_def g d(1) scrape_ok_def)
next
  case False
  then have "wth (get a) ls = None"
    using gauge_with.not_created [OF wth, of "get a" ls] a by (simp add: scrape_ok_def names_ok_def get_vec)
  then show ?thesis using a by (simp add: set_access_def with_access_def)
qed

end

lemma opened_glimpse:
  assumes "glimpse_sane cid c e" and "series_sane cid c v key x"
    and "v \<in> {CPMS_Enabled, Pull_Secret_Valid} \<Longrightarrow> e v = Map.empty"
  shows "glimpse_sane cid c (opened e v key)"
  unfolding opened_def expo_set_def
proof (rule glimpse_update [OF assms(1)])
  fix key' x' assume "((e v)(key \<mapsto> case e v key of None \<Rightarrow> 0 | Some x \<Rightarrow> x)) key' = Some x'"
  then show "glimpse cid c v key' x'"
    using glimpse_series [OF assms(1)] assms(2)
    by (auto simp: glimpse_def split: if_splits option.splits)
next
  show "single_series ((e v)(key \<mapsto> case e v key of None \<Rightarrow> 0 | Some x \<Rightarrow> x))"
    if "v \<in> {CPMS_Enabled, Pull_Secret_Valid}"
    using assms(3) [OF that] by (simp add: single_series_def)
next
  assume flag: "v \<in> {Cluster_Admin_Enabled, Limited_Support_Enabled}"
  then have "flag_present (e v) cid" "key = [cid]" using assms(1,2) by (auto simp: glimpse_sane_def)
  then show "flag_present ((e v)(key \<mapsto> case e v key of None \<Rightarrow> 0 | Some x \<Rightarrow> x)) cid"
    by (auto simp: flag_present_def)
qed

lemma set_glimpse:
  assumes "glimpse_sane cid c e" and "series_sane cid c v key x"
    and "v \<in> {CPMS_Enabled, Pull_Secret_Valid} \<Longrightarrow> e v = Map.empty"
  shows "glimpse_sane cid c (expo_set v key x e)"
  unfolding expo_set_def
proof (rule glimpse_update [OF assms(1)])
  show "glimpse cid c v key' x'" if "((e v)(key \<mapsto> x)) key' = Some x'" for key' x'
    using that glimpse_series [OF assms(1)] assms(2) by (auto simp: glimpse_def split: if_splits)
next
  show "single_series ((e v)(key \<mapsto> x))" if "v \<in> {CPMS_Enabled, Pull_Secret_Valid}"
    using assms(3) [OF that] by (simp add: single_series_def)
next
  assume flag: "v \<in> {Cluster_Admin_Enabled, Limited_Support_Enabled}"
  then show "flag_present ((e v)(key \<mapsto> x)) cid" using assms(2) by (auto simp: flag_present_def)
qed

lemma clear_glimpse:
  assumes "glimpse_sane cid c e" and "v \<notin> {Cluster_Admin_Enabled, Limited_Support_Enabled}"
  shows "glimpse_sane cid c (expo_clear v e)"
  unfolding expo_clear_def
  by (rule glimpse_update [OF assms(1)]) (use assms(2) in \<open>auto simp: single_series_def\<close>)

context vec_field
begin

text \<open>The two patterns of the methods: a series is set, or the vector is reset first.\<close>

lemma along_sane_set:
  assumes "gauge_with pv wth" and a: "scrape_ok pv cid c a"
    and "series_sane cid c v (label_values (declared_labels v) ls) x"
    and "v \<in> {CPMS_Enabled, Pull_Secret_Valid} \<Longrightarrow> exported pv a v = Map.empty"
    and rest: "\<And>b. scrape_ok pv cid c b \<Longrightarrow> along (scrape_ok pv cid c) k b"
  shows "along (scrape_ok pv cid c) (set_access pv wth get put ls x k) a"
proof -
  have e: "glimpse_sane cid c (exported pv a)" using a by (simp add: scrape_ok_def)
  show ?thesis
    by (rule along_set [OF assms(1,2) refl opened_glimpse [OF e assms(3,4)]])
      (use set_glimpse [OF e assms(3,4)] rest in \<open>auto simp: scrape_ok_def\<close>)
qed

lemma along_sane_reset:
  assumes "gauge_vec pv" and a: "scrape_ok pv cid c a"
    and "v \<notin> {Cluster_Admin_Enabled, Limited_Support_Enabled}"
    and rest: "\<And>b. scrape_ok pv cid c b \<Longrightarrow> exported pv b v = Map.empty \<Longrightarrow>
      along (scrape_ok pv cid c) k b"
  shows "along (scrape_ok pv cid c) (reset_access pv get put k) a"
proof (rule along_reset [OF assms(1,2)])
  fix b assume b: "names_ok pv b" "exported pv b = expo_clear v (exported pv a)"
  then have "scrape_ok pv cid c b" "exported pv b v = Map.empty"
    using clear_glimpse [of cid c "exported pv a", OF _ assms(3)] a
    by (simp_all add: scrape_ok_def expo_clear_def)
  then show "along (scrape_ok pv cid c) k b" by (rule rest)
qed

end

lemmas along_sets = vf_idp.along_sane_set vf_admin.along_sane_set vf_support.along_sane_set
  vf_proxy.along_sane_set vf_expiry.along_sane_set vf_valid.along_sane_set vf_id.along_sane_set
  vf_drain.along_sane_set vf_cpms.along_sane_set vf_pull.along_sane_set

lemmas along_resets = vf_expiry.along_sane_reset vf_valid.along_sane_reset vf_drain.along_sane_reset
  vf_cpms.along_sane_reset vf_pull.along_sane_reset

lemma along_read: "P a \<Longrightarrow> along P (h a) a \<Longrightarrow> along P (read_access h) a"
  by (simp add: read_access_def)

lemma along_write: "P a \<Longrightarrow> along P k (f a) \<Longrightarrow> along P (write_access f k) a"
  by (simp add: write_access_def)

lemma along_set_types:
  assumes wth: "gauge_with pv wth" and "scrape_ok pv cid c a"
    and "set ts \<subseteq> set (knownIdentityProviderTypes c)"
    and counts: "\<And>t. case map_of providers t of Some n \<Rightarrow> 0 \<le> n | None \<Rightarrow> True"
  shows "along (scrape_ok pv cid c) (set_types pv wth providers ts) a"
  using assms(2,3)
proof (induction ts arbitrary: a)
  case (Cons t ts)
  have "0 \<le> (case map_of providers t of Some n \<Rightarrow> float64 n | None \<Rightarrow> 0)"
    using counts [of t] float64_nonneg by (auto split: option.splits dest!: zero_le_imp_eq_int)
  with Cons show ?case
    by (auto intro!: along_sets [OF wth] simp: label_values_def)
qed simp

lemma along_set_pods:
  assumes wth: "gauge_with pv wth" and "scrape_ok pv cid c a"
    and rest: "\<And>b. scrape_ok pv cid c b \<Longrightarrow> along (scrape_ok pv cid c) k b"
  shows "along (scrape_ok pv cid c) (set_pods pv wth m i pods k) a"
  using assms(2)
proof (induction pods arbitrary: a)
  case (Cons pod pods)
  then show ?case by (auto intro!: along_sets [OF wth] simp: label_values_def)
qed (simp add: rest)

lemma along_set_machines:
  assumes wth: "gauge_with pv wth" and "scrape_ok pv cid c a"
  shows "along (scrape_ok pv cid c) (set_machines pv wth ms) a"
  using assms(2)
  by (induction ms arbitrary: a) (auto intro: along_set_pods [OF wth])

lemma along_refresh:
  assumes wth: "gauge_with pv wth" and "scrape_ok pv cid c a"
  shows "along (scrape_ok pv cid c) (refresh_code pv wth) a"
proof -
  have pv: "gauge_vec pv" using wth by (simp add: gauge_with_def)
  show ?thesis
    unfolding refresh_code_def
    by (rule along_resets(3) [OF pv assms(2)]) (auto intro!: along_read along_set_machines [OF wth])
qed

lemma scrape_ok_fields:
  assumes "scrape_ok pv cid c a" and "\<And>v. vec_of v b = vec_of v a"
  shows "scrape_ok pv cid c b"
proof -
  have "exported pv b = exported pv a" using assms(2) by (simp add: exported_def fun_eq_iff)
  with assms show ?thesis by (simp add: scrape_ok_def names_ok_def)
qed

lemma vec_of_maps [simp]:
  "vec_of v (SetOAuthIDP name ns ps a) = vec_of v a" "vec_of v (DeleteOAuthIDP name ns a) = vec_of v a"
  by (cases v; simp add: SetOAuthIDP_def DeleteOAuthIDP_def)+

lemma along_call:
  assumes wth: "gauge_with pv wth" and a: "scrape_ok pv cid c a" and call: "sane_call cid c call"
  shows "along (scrape_ok pv cid c) (call_code pv wth c call) a"
proof (cases call)
  case aggregate_m
  have "along (scrape_ok pv cid c) (set_types pv wth (count_providers (providerMap a))
      (knownIdentityProviderTypes c)) a"
    by (rule along_set_types [OF wth a subset_refl])
      (simp add: map_of_count_providers counted_def)
  with aggregate_m a show ?thesis by (auto intro: along_read)
next
  case (SetFailingDrainPodsForMachine_m m pods node)
  then show ?thesis
    using along_refresh [OF wth scrape_ok_fields [OF a]] a by (auto intro!: along_write)
next
  case (RemoveMachineMetrics_m m)
  then show ?thesis
    using along_refresh [OF wth scrape_ok_fields [OF a]] a by (auto intro!: along_write)
next
  case (SetClusterProxy_m u http https ca n)
  let ?ls = "[(clusterIDLabel, u), (proxyHTTPLabel, http), (proxyHTTPSLabel, https), (proxyCALabel, ca)]"
  have "series_sane cid c Cluster_Proxy (label_values (declared_labels Cluster_Proxy) ?ls) (float64 n)"
    using call SetClusterProxy_m by (simp add: label_values_def label_defs del: series_sane.simps)
  from along_sets(4) [OF wth a this, of Stop] SetClusterProxy_m show ?thesis by simp
next
  case (SetPullSecretValid_m u valid reason)
  with call a show ?thesis
    by (auto intro!: along_sets [OF wth] along_resets wth [unfolded gauge_with_def, THEN conjunct1]
        simp: label_values_def label_defs)
qed (use call a scrape_ok_fields [OF a] in
    \<open>auto intro!: along_sets [OF wth] along_resets wth [unfolded gauge_with_def, THEN conjunct1] along_write
      simp: label_values_def label_defs\<close>)

lemma along_calls:
  assumes wth: "gauge_with pv wth" and "scrape_ok pv cid c a"
    and "\<forall>call \<in> set calls. sane_call cid c call"
  shows "along (scrape_ok pv cid c) (calls_code pv wth c calls) a"
  using assms(2,3)
  by (induction calls arbitrary: a) (auto intro!: along_seq along_call [OF wth])

subsection \<open>Flags stay\<close>

lemma expo_step_flags:
  assumes "expo_step cid c l e e'"
    and "flag_present (e Cluster_Admin_Enabled) cid" "flag_present (e Limited_Support_Enabled) cid"
  shows "flag_present (e' Cluster_Admin_Enabled) cid \<and> flag_present (e' Limited_Support_Enabled) cid"
  using assms by (elim expo_stepE) (auto simp: expo_simps flag_present_def)

lemma reachable_flags:
  assumes "reachable oper s" and ok: "operator_ok oper"
  shows "flag_present (scraped oper (snd s) Cluster_Admin_Enabled) (op_clusterId oper)
    \<and> flag_present (scraped oper (snd s) Limited_Support_Enabled) (op_clusterId oper)"
  using assms(1)
proof induction
  case (started a w)
  have "gauge_vec (op_gauges oper)" "ValidString (op_clusterId oper)"
    using ok by (simp_all add: operator_ok_def)
  from NewMetricsAggregator_ok [OF this, of aggregatorResyncInterval] started
  show ?case by (auto simp: expo_set_def flag_present_def)
next
  case (stepped s l s')
  obtain w a w' a' where s: "s = (w, a)" "s' = (w', a')" by (cases s; cases s') auto
  have "agg_wf (op_gauges oper) a" using reachable_invariant [OF stepped(1) ok] s by simp
  from system_step_expo [OF ok _ this] stepped s show ?case
    using expo_step_flags by fastforce
qed

lemma reachable_scrape_ok:
  assumes "reachable oper (w, a)" and ok: "operator_ok oper"
  shows "scrape_ok (op_gauges oper) (op_clusterId oper) (op_idp_types oper) a"
  using reachable_invariant [OF assms] reachable_flags [OF assms]
  by (auto simp: scrape_ok_def names_ok_def agg_wf_def glimpse_sane_def exposition_sane_def glimpse_def)

text \<open>The state of every region, at any moment of a concurrent run, is one that a scrape may see.\<close>

lemma concurrent_glimpse:
  assumes ok: "operator_ok oper" and wth: "gauge_with (op_gauges oper) wth"
    and a0: "reachable oper (w, a0)" and run: "concurrent_run oper wth (started_machine a0) m"
  shows "\<exists>b. scrape_ok (op_gauges oper) (op_clusterId oper) (op_idp_types oper) b
    \<and> exported (op_gauges oper) b v = exported (op_gauges oper) (shared m) v"
proof -
  let ?s = "serial (calls_code (op_gauges oper) wth (op_idp_types oper)) (history m) a0"
  let ?ok = "scrape_ok (op_gauges oper) (op_clusterId oper) (op_idp_types oper)"
  have s: "?ok ?s" using reachable_scrape_ok [OF history_reachable [OF ok wth run a0] ok] .
  show ?thesis
  proof (rule agg_threads.region_state [OF run [unfolded concurrent_run_def], of "vec_region v"])
    assume "agree (vec_region v) ?s (shared m)"
    with s agree_exported show ?thesis by blast
  next
    fix t calls k b
    assume made: "makes oper t calls" and part: "partial (calls_code (op_gauges oper) wth (op_idp_types oper) calls) ?s k b"
      and b: "agree (vec_region v) b (shared m)"
    have "\<forall>call \<in> set calls. sane_call (op_clusterId oper) (op_idp_types oper) call"
      using made by (simp add: makes_def)
    from along_start [OF along_partial [OF part along_calls [OF wth s this]]]
    show ?thesis using b agree_exported by blast
  qed
qed

lemma finite_actors: "finite (S :: actor set)"
proof -
  have "a \<in> insert Cluster (insert Ticker (Ran ` {ClusterRole_C, ConfigMap_C, Group_C, LimitedSupport_C,
      Machine_C, OAuth_C, Proxy_C, PullSecret_C, CPMS_C}))" for a :: actor
  proof (cases a)
    case (Ran ctl)
    then show ?thesis by (cases ctl) simp_all
  qed simp_all
  then show ?thesis by (meson finite.emptyI finite.insertI finite_imageI finite_subset subsetI)
qed

text \<open>From any moment of a concurrent run on, all calls can return.\<close>

lemma concurrent_return:
  assumes "concurrent_run oper wth (started_machine a0) m"
  shows "\<exists>m'. concurrent_run oper wth m m' \<and> quiescent m'"
  using agg_threads.all_return [OF finite_actors agg_threads.linear_interleaved] assms
  unfolding concurrent_run_def by blast

subsection \<open>The gap of a state gauge\<close>

text \<open>
  C40: While a valid pull secret is reported once more, a scrape can see no pull secret series at
  all, and then the series with the reason for validity and the value 0: the method resets the vector and
  creates the series before it sets it to 1.
\<close>

theorem pull_secret_gap:
  assumes "gauge_with pv wth" and "names_ok pv a" and "ValidString u"
  shows "\<exists>k1 b1 k2 b2. partial (call_code pv wth c (SetPullSecretValid_m u True ReasonValid)) a k1 b1
    \<and> exported pv b1 Pull_Secret_Valid = Map.empty
    \<and> partial (call_code pv wth c (SetPullSecretValid_m u True ReasonValid)) a k2 b2
    \<and> exported pv b2 Pull_Secret_Valid = [[u, ReasonValid] \<mapsto> 0]"
proof -
  let ?code = "call_code pv wth c (SetPullSecretValid_m u True ReasonValid)"
  let ?ls = "[(clusterIDLabel, u), (pullSecretReasonLabel, ReasonValid)]"
    and ?b1 = "a\<lparr>pullSecretValid := VecReset pv (pullSecretValid a)\<rparr>"
  have pv: "gauge_vec pv" using assms(1) by (simp add: gauge_with_def)
  have "ValidString ReasonValid" by (simp add: reason_defs byte_def)
  then have ls: "labels_ok (declared_labels Pull_Secret_Valid) ?ls"
    using assms(3) by (simp add: labels_simps)
  have names: "label_names pv (pullSecretValid ?b1) = declared_labels Pull_Secret_Valid"
    using assms(2) gauge_vec.reset_names [OF pv] unfolding names_ok_def
    by (metis AdoptionMetricsAggregator.select_convs(11) AdoptionMetricsAggregator.update_convs(11)
        vec_of.simps(10) AdoptionMetricsAggregator.surjective)
  obtain g where g: "wth (pullSecretValid ?b1) ?ls = Some g"
    using gauge_with.created [OF assms(1), of "pullSecretValid ?b1" ?ls] ls names by auto
  have p1: "partial ?code a
      (set_access pv wth pullSecretValid (\<lambda>g a. a\<lparr>pullSecretValid := g\<rparr>) ?ls 1 Stop) ?b1"
    using partial.further [OF partial.begun] by (fastforce simp: reset_access_def)
  moreover have "partial ?code a (Do (with_set pv pullSecretValid (\<lambda>g a. a\<lparr>pullSecretValid := g\<rparr>) ?ls 1) (\<lambda>_. Stop))
      (?b1\<lparr>pullSecretValid := g\<rparr>)"
    using partial.further [OF p1 [unfolded set_access_def]] g by (simp add: with_access_def)
  moreover have "exported pv ?b1 Pull_Secret_Valid = Map.empty"
    using gauge_vec.reset_series [OF pv] by (simp add: exported_def)
  moreover have "exported pv (?b1\<lparr>pullSecretValid := g\<rparr>) Pull_Secret_Valid = [[u, ReasonValid] \<mapsto> 0]"
    using gauge_with.created_series [OF assms(1) g] names gauge_vec.reset_series [OF pv]
    by (simp add: exported_def labels_simps Let_def)
  ultimately show ?thesis by blast
qed

theorem pull_secret_gap_witness:
  "\<exists>k b. partial (call_code map_api map_with api_idp_types (SetPullSecretValid_m ''c1'' True ReasonValid))
      (new_collector map_api Minute) k b
    \<and> exported map_api b Pull_Secret_Valid = [[''c1'', ReasonValid] \<mapsto> 0]"
proof -
  have "names_ok map_api (new_collector map_api Minute)"
    using new_collector_wf(1) [OF map_api_gauges, of Minute] by (simp add: names_ok_def agg_wf_def)
  from pull_secret_gap [OF map_vec.gauge_with_axioms this, of "''c1''"] show ?thesis
    by (auto simp: byte_def)
qed

end
