(* ===== verification/Locks.thy ===== *)
theory Locks
  imports Threads "HOL-Library.Multiset"
begin

section \<open>Lock and Unlock\<close>

text \<open>
  \<open>Threads\<close> takes for granted that a call which takes the mutex has it from its first access to its
  last and gives it back however it ends. Here the calls say themselves what they do with the mutex. Lock
  waits as long as the mutex is locked, also if the caller itself has locked it. A deferred Unlock runs when
  the call returns and when it panics; Unlock does not ask who has locked the mutex, and ends the whole program if
  it is not locked. The locale \<open>lock_discipline\<close> shows for calls that follow a discipline that none of this
  goes wrong: the program is not ended, no thread waits for ever, and the mutex is free in the end.
\<close>

subsection \<open>The text of a call\<close>

datatype (dead 's) lcode = LStop | LDo "'s \<Rightarrow> 's exec" "'s \<Rightarrow> 's lcode" | LLock "'s lcode" | LDeferUnlock "'s lcode"

text \<open>Accesses without the mutex, and the accesses that are left if the mutex is forgotten.\<close>

primrec bare :: "'s code \<Rightarrow> 's lcode" where
  "bare Stop = LStop"
| "bare (Do f k) = LDo f (\<lambda>a. bare (k a))"

primrec accesses :: "'s lcode \<Rightarrow> 's code" where
  "accesses LStop = Stop"
| "accesses (LDo f k) = Do f (\<lambda>a. accesses (k a))"
| "accesses (LLock k) = accesses k"
| "accesses (LDeferUnlock k) = accesses k"

lemma accesses_bare [simp]: "accesses (bare k) = k"
  by (induction k) simp_all

primrec without_mutex :: "'s lcode \<Rightarrow> bool" where
  "without_mutex LStop \<longleftrightarrow> True"
| "without_mutex (LDo f k) \<longleftrightarrow> (\<forall>a. without_mutex (k a))"
| "without_mutex (LLock k) \<longleftrightarrow> False"
| "without_mutex (LDeferUnlock k) \<longleftrightarrow> False"

lemma without_mutex_bare [simp]: "without_mutex (bare k)"
  by (induction k) simp_all

subsection \<open>The machine\<close>

text \<open>
  A thread is away, or inside a call with some deferred Unlocks and a rest of its text, or it runs the
  deferred Unlocks. It has a list of further calls to make; a panic makes it give them up.
  \<open>locked_by\<close> is the thread that has locked the mutex last, if it is locked.
\<close>

datatype ('c, dead 's) activity = Away | Inside 'c nat "'s lcode" "'c list" | Leaving nat "'c list"

record ('t, 'c, 's) lmachine =
  activity :: "'t \<Rightarrow> ('c, 's) activity"
  locked_by :: "'t option"
  memory :: 's
  fatal :: bool

abbreviation becomes :: "('t, 'c, 's) lmachine \<Rightarrow> 't \<Rightarrow> ('c, 's) activity \<Rightarrow> ('t, 'c, 's) lmachine" where
  "becomes m t x \<equiv> m\<lparr>activity := (activity m)(t := x)\<rparr>"

inductive goes_on :: "('c \<Rightarrow> 's lcode) \<Rightarrow> 't \<Rightarrow> ('t, 'c, 's) lmachine \<Rightarrow> ('t, 'c, 's) lmachine \<Rightarrow> bool" for text_of where
  locks: "\<not> fatal m \<Longrightarrow> activity m t = Inside c n (LLock k) cs \<Longrightarrow> locked_by m = None \<Longrightarrow>
    goes_on text_of t m ((becomes m t (Inside c n k cs))\<lparr>locked_by := Some t\<rparr>)"
| defers: "\<not> fatal m \<Longrightarrow> activity m t = Inside c n (LDeferUnlock k) cs \<Longrightarrow>
    goes_on text_of t m (becomes m t (Inside c (Suc n) k cs))"
| accesses: "\<not> fatal m \<Longrightarrow> activity m t = Inside c n (LDo f k) cs \<Longrightarrow> f (memory m) = Ok b \<Longrightarrow>
    goes_on text_of t m ((becomes m t (Inside c n (k (memory m)) cs))\<lparr>memory := b\<rparr>)"
| panics: "\<not> fatal m \<Longrightarrow> activity m t = Inside c n (LDo f k) cs \<Longrightarrow> f (memory m) = Panicked b \<Longrightarrow>
    goes_on text_of t m ((becomes m t (Leaving n []))\<lparr>memory := b\<rparr>)"
| returns: "\<not> fatal m \<Longrightarrow> activity m t = Inside c n LStop cs \<Longrightarrow>
    goes_on text_of t m (becomes m t (Leaving n cs))"
| unlocks: "\<not> fatal m \<Longrightarrow> activity m t = Leaving (Suc n) cs \<Longrightarrow> locked_by m \<noteq> None \<Longrightarrow>
    goes_on text_of t m ((becomes m t (Leaving n cs))\<lparr>locked_by := None\<rparr>)"
| breaks: "\<not> fatal m \<Longrightarrow> activity m t = Leaving (Suc n) cs \<Longrightarrow> locked_by m = None \<Longrightarrow>
    goes_on text_of t m (m\<lparr>fatal := True\<rparr>)"
| calls_next: "\<not> fatal m \<Longrightarrow> activity m t = Leaving 0 (c # cs) \<Longrightarrow>
    goes_on text_of t m (becomes m t (Inside c 0 (text_of c) cs))"
| goes_away: "\<not> fatal m \<Longrightarrow> activity m t = Leaving 0 [] \<Longrightarrow>
    goes_on text_of t m (becomes m t Away)"

inductive_cases goes_onE: "goes_on text_of t m m'"

text \<open>A run: the threads begin lists of calls that they may make, and go on with them.\<close>

inductive lock_run :: "('t \<Rightarrow> 'c list \<Rightarrow> bool) \<Rightarrow> ('c \<Rightarrow> 's lcode) \<Rightarrow> 's \<Rightarrow> ('t, 'c, 's) lmachine \<Rightarrow> bool"
  for may text_of a0 where
  starts: "lock_run may text_of a0 \<lparr>activity = (\<lambda>_. Away), locked_by = None, memory = a0, fatal = False\<rparr>"
| begins: "lock_run may text_of a0 m \<Longrightarrow> \<not> fatal m \<Longrightarrow> activity m t = Away \<Longrightarrow> may t (c # cs) \<Longrightarrow>
    lock_run may text_of a0 (becomes m t (Inside c 0 (text_of c) cs))"
| proceeds: "lock_run may text_of a0 m \<Longrightarrow> goes_on text_of t m m' \<Longrightarrow> lock_run may text_of a0 m'"

abbreviation moves :: "('c \<Rightarrow> 's lcode) \<Rightarrow> ('t, 'c, 's) lmachine \<Rightarrow> ('t, 'c, 's) lmachine \<Rightarrow> bool" where
  "moves text_of m m' \<equiv> \<exists>t. goes_on text_of t m m'"

lemma lock_run_moves:
  assumes "(moves text_of)\<^sup>*\<^sup>* m m'" and "lock_run may text_of a0 m"
  shows "lock_run may text_of a0 m'"
  using assms by (induction rule: rtranclp_induct) (auto intro: proceeds)

text \<open>A thread alone, through accesses that do not panic.\<close>

lemma run_bare:
  assumes "run_code k (memory m) = Ok b" "\<not> fatal m" "activity m t = Inside c n (bare k) cs"
  shows "(moves text_of)\<^sup>*\<^sup>* m ((becomes m t (Leaving n cs))\<lparr>memory := b\<rparr>)"
  using assms
proof (induction k arbitrary: m)
  case Stop
  then have "goes_on text_of t m (becomes m t (Leaving n cs))" by (intro goes_on.returns) simp_all
  then have "(moves text_of)\<^sup>*\<^sup>* m (becomes m t (Leaving n cs))" by (blast intro: r_into_rtranclp)
  moreover have "(becomes m t (Leaving n cs))\<lparr>memory := b\<rparr> = becomes m t (Leaving n cs)"
    using Stop.prems(1) by (cases m) simp
  ultimately show ?case by (simp only:)
next
  case (Do f k)
  then obtain a where a: "f (memory m) = Ok a" "run_code (k (memory m)) a = Ok b" by (auto split: exec.splits)
  let ?m = "(becomes m t (Inside c n (bare (k (memory m))) cs))\<lparr>memory := a\<rparr>"
  have "goes_on text_of t m ?m"
    using goes_on.accesses [of m t c n f "\<lambda>a. bare (k a)" cs a text_of] Do.prems(2,3) a(1) by simp
  then have first: "moves text_of m ?m" by blast
  have "(moves text_of)\<^sup>*\<^sup>* ?m ((becomes ?m t (Leaving n cs))\<lparr>memory := b\<rparr>)"
    using Do.prems a(2) by (intro Do.IH [of "k (memory m)"]) auto
  moreover have "(becomes ?m t (Leaving n cs))\<lparr>memory := b\<rparr> = (becomes m t (Leaving n cs))\<lparr>memory := b\<rparr>" by simp
  ultimately have "(moves text_of)\<^sup>*\<^sup>* ?m ((becomes m t (Leaving n cs))\<lparr>memory := b\<rparr>)" by (simp only:)
  with first show ?case by (rule converse_rtranclp_into_rtranclp)
qed

subsection \<open>The work that is left\<close>

definition busy :: "('t, 'c, 's) lmachine \<Rightarrow> 't set" where
  "busy m = {t. activity m t \<noteq> Away}"

lemma busy_becomes: "busy (becomes m t x) = (if x = Away then busy m - {t} else insert t (busy m))"
  by (auto simp: busy_def)

lemma busy_fields [simp]:
  "busy (m\<lparr>locked_by := p\<rparr>) = busy m" "busy (m\<lparr>memory := a\<rparr>) = busy m" "busy (m\<lparr>fatal := b\<rparr>) = busy m"
  by (simp_all add: busy_def)

lemma goes_on_finite: "goes_on text_of t m m' \<Longrightarrow> finite (busy m) \<Longrightarrow> finite (busy m')"
  by (elim goes_onE) (simp_all add: busy_becomes)

lemma lock_run_finite: "lock_run may text_of a0 m \<Longrightarrow> finite (busy m)"
proof (induction rule: lock_run.induct)
  case starts
  then show ?case by (simp add: busy_def)
next
  case (begins m t c cs)
  then show ?case by (simp add: busy_becomes)
qed (rule goes_on_finite)

inductive subcode :: "'s lcode \<Rightarrow> 's lcode \<Rightarrow> bool" where
  "subcode (k a) (LDo f k)"
| "subcode k (LLock k)"
| "subcode k (LDeferUnlock k)"

inductive_simps subcode_simps [simp]:
  "subcode k' LStop" "subcode k' (LDo f k)" "subcode k' (LLock k)" "subcode k' (LDeferUnlock k)"

lemma subcode_wf: "wf {(k', k). subcode k' k}"
proof (rule wfUNIVI)
  fix P :: "'s lcode \<Rightarrow> bool" and k
  assume step: "\<forall>k. (\<forall>k'. (k', k) \<in> {(k', k). subcode k' k} \<longrightarrow> P k') \<longrightarrow> P k"
  have up: "P k" if "\<And>k'. subcode k' k \<Longrightarrow> P k'" for k using step that by blast
  show "P k"
    by (induction k) (rule up; auto)+
qed

text \<open>Fewer calls to make, or out of the call, or further in its text, or fewer deferred Unlocks.\<close>

fun work :: "('c, 's) activity \<Rightarrow> nat \<times> nat \<times> 's lcode \<times> nat" where
  "work Away = (0, 0, LStop, 0)"
| "work (Inside c n k cs) = (length cs, 2, k, 0)"
| "work (Leaving n cs) = (length cs, 1, LStop, n)"

definition less_work :: "((nat \<times> nat \<times> 's lcode \<times> nat) \<times> (nat \<times> nat \<times> 's lcode \<times> nat)) set" where
  "less_work = less_than <*lex*> less_than <*lex*> {(k', k). subcode k' k} <*lex*> less_than"

lemma less_work_wf: "wf less_work"
  by (simp add: less_work_def wf_lex_prod subcode_wf)

lemma no_chain:
  fixes f :: "nat \<Rightarrow> (nat \<times> nat \<times> 's lcode \<times> nat) multiset"
  shows "\<exists>i. (f (Suc i), f i) \<notin> mult less_work"
proof -
  have "wf (mult (less_work :: ((nat \<times> nat \<times> 's lcode \<times> nat) \<times> _) set))" by (rule wf_mult [OF less_work_wf])
  then show ?thesis unfolding wf_iff_no_infinite_down_chain by blast
qed

definition work_left :: "('t, 'c, 's) lmachine \<Rightarrow> (nat \<times> nat \<times> 's lcode \<times> nat) multiset" where
  "work_left m = image_mset (\<lambda>t. work (activity m t)) (mset_set (busy m))"

lemma work_left_becomes:
  assumes "finite (busy m)" and "t \<in> busy m" and "(work x, work (activity m t)) \<in> less_work"
  shows "(work_left (becomes m t x), work_left m) \<in> mult less_work"
proof -
  let ?others = "image_mset (\<lambda>t. work (activity m t)) (mset_set (busy m - {t}))"
  have others: "image_mset (\<lambda>t'. work (((activity m)(t := x)) t')) (mset_set (busy m - {t})) = ?others"
    by (rule image_mset_cong) (use assms(1) in simp)
  have "busy m = insert t (busy m - {t})" using assms(2) by blast
  then have "work_left m = ?others + {#work (activity m t)#}"
    using assms(1) unfolding work_left_def by (metis add_mset_add_single finite_Diff image_mset_add_mset
        insert_Diff_single mset_set.insert_remove)
  moreover have "work_left (becomes m t x) = ?others + (if x = Away then {#} else {#work x#})"
    using assms(1) others by (simp add: work_left_def busy_becomes mset_set.insert_remove)
  ultimately show ?thesis
    using assms(3) one_step_implies_mult [of "{#work (activity m t)#}" "{#work x#}" less_work ?others]
      one_step_implies_mult [of "{#work (activity m t)#}" "{#}" less_work ?others]
    by (cases "x = Away") simp_all
qed

lemma work_left_fields [simp]:
  "work_left (m\<lparr>locked_by := p\<rparr>) = work_left m" "work_left (m\<lparr>memory := a\<rparr>) = work_left m"
  by (simp_all add: work_left_def)

lemma goes_on_less_work:
  assumes "goes_on text_of t m m'" and "finite (busy m)" and "\<not> fatal m'"
  shows "(work_left m', work_left m) \<in> mult less_work"
proof -
  have here: "t \<in> busy m" using assms(1) by (elim goes_onE) (simp_all add: busy_def)
  have less: "(work x, work (activity m t)) \<in> less_work \<Longrightarrow> (work_left (becomes m t x), work_left m) \<in> mult less_work" for x
    using work_left_becomes [OF assms(2) here] .
  note [simp] = less_work_def
  from assms(1) show ?thesis
  proof cases
    case (locks c n k cs)
    then show ?thesis using less [of "Inside c n k cs"] by simp
  next
    case (defers c n k cs)
    then show ?thesis using less [of "Inside c (Suc n) k cs"] by simp
  next
    case (accesses c n f k cs b)
    then show ?thesis using less [of "Inside c n (k (memory m)) cs"] by auto
  next
    case (panics c n f k cs b)
    then show ?thesis using less [of "Leaving n []"] by auto
  next
    case (returns c n cs)
    then show ?thesis using less [of "Leaving n cs"] by simp
  next
    case (unlocks n cs)
    then show ?thesis using less [of "Leaving n cs"] by simp
  next
    case (calls_next c cs)
    then show ?thesis using less [of "Inside c 0 (text_of c) cs"] by simp
  next
    case goes_away
    then show ?thesis using less [of Away] by simp
  qed (use assms(3) in simp)
qed

lemma Suc_of_bool [simp]: "Suc n = of_bool b \<longleftrightarrow> b \<and> n = 0"
  by (cases b) simp_all

subsection \<open>The discipline\<close>

text \<open>
  \<open>disciplined held n k\<close>: begun with the mutex held or not, and with \<open>n\<close> deferred Unlocks, the text makes
  every access, and returns, with as many deferred Unlocks as it has locked the mutex, and never locks twice.
  \<open>guarded k\<close>: no access comes before a Lock.
\<close>

primrec disciplined :: "bool \<Rightarrow> nat \<Rightarrow> 's lcode \<Rightarrow> bool" where
  "disciplined held n LStop \<longleftrightarrow> n = of_bool held"
| "disciplined held n (LDo f k) \<longleftrightarrow> n = of_bool held \<and> (\<forall>a. disciplined held n (k a))"
| "disciplined held n (LLock k) \<longleftrightarrow> \<not> held \<and> disciplined True n k"
| "disciplined held n (LDeferUnlock k) \<longleftrightarrow> disciplined held (Suc n) k"

primrec guarded :: "'s lcode \<Rightarrow> bool" where
  "guarded LStop \<longleftrightarrow> True"
| "guarded (LDo f k) \<longleftrightarrow> False"
| "guarded (LLock k) \<longleftrightarrow> True"
| "guarded (LDeferUnlock k) \<longleftrightarrow> guarded k"

lemma disciplined_bare [simp]:
  "disciplined True (Suc 0) (bare k)" "disciplined False 0 (bare k)"
  by (induction k) simp_all

locale lock_discipline =
  fixes text_of :: "'c \<Rightarrow> 's lcode" and takes :: "'c \<Rightarrow> bool"
  assumes disciplined_text: "disciplined False 0 (text_of c)"
    and guarded_text: "takes c \<Longrightarrow> guarded (text_of c)"
begin

text \<open>The invariant, thread by thread.\<close>

fun in_order :: "bool \<Rightarrow> ('c, 's) activity \<Rightarrow> bool" where
  "in_order held Away \<longleftrightarrow> \<not> held"
| "in_order held (Inside c n k cs) \<longleftrightarrow> disciplined held n k \<and> (takes c \<longrightarrow> held \<or> guarded k)"
| "in_order held (Leaving n cs) \<longleftrightarrow> n = of_bool held"

definition sound :: "('t, 'c, 's) lmachine \<Rightarrow> bool" where
  "sound m \<longleftrightarrow> \<not> fatal m \<and> (\<forall>t. in_order (locked_by m = Some t) (activity m t))"

lemma soundD: "sound m \<Longrightarrow> in_order (locked_by m = Some t) (activity m t)"
  by (simp add: sound_def)

lemma sound_becomes:
  assumes "sound m" and "in_order (p = Some t) x" and "\<And>t'. t' \<noteq> t \<Longrightarrow> p = Some t' \<longleftrightarrow> locked_by m = Some t'"
  shows "sound ((becomes m t x)\<lparr>locked_by := p\<rparr>)"
  using assms by (auto simp: sound_def)

lemma goes_on_sound:
  assumes "goes_on text_of t m m'" and "sound m"
  shows "sound m'"
proof -
  have keep: "sound (becomes m t x)" if "in_order (locked_by m = Some t) x" for x
    using sound_becomes [OF assms(2) that] by simp
  have mem: "sound (m0\<lparr>memory := b\<rparr>) = sound m0" for m0 :: "('t, 'c, 's) lmachine" and b
    by (simp add: sound_def)
  note here = soundD [OF assms(2), of t]
  from assms(1) show ?thesis
  proof cases
    case (locks c n k cs)
    then show ?thesis using here sound_becomes [OF assms(2), of "Some t"] by simp
  next
    case (defers c n k cs)
    then show ?thesis using here keep by simp
  next
    case (accesses c n f k cs b)
    then show ?thesis using here keep by (auto simp: mem)
  next
    case (panics c n f k cs b)
    then show ?thesis using here keep by (simp add: mem)
  next
    case (returns c n cs)
    then show ?thesis using here keep by simp
  next
    case (unlocks n cs)
    then have "locked_by m = Some t" "n = 0" using here by (simp_all split: if_splits)
    then show ?thesis using unlocks sound_becomes [OF assms(2), of None] by auto
  next
    case (breaks n cs)
    then show ?thesis using here by simp
  next
    case (calls_next c cs)
    then show ?thesis using here keep disciplined_text guarded_text by (simp split: if_splits)
  next
    case goes_away
    then show ?thesis using here keep by (simp split: if_splits)
  qed
qed

lemma lock_run_sound: "lock_run may text_of a0 m \<Longrightarrow> sound m"
proof (induction rule: lock_run.induct)
  case starts
  then show ?case by (simp add: sound_def)
next
  case (begins m t c cs)
  then have "locked_by m \<noteq> Some t" using soundD [of m t] by auto
  then show ?case using sound_becomes [OF begins.IH, of "locked_by m" t] disciplined_text guarded_text by simp
qed (rule goes_on_sound)

text \<open>A thread that holds the mutex can go on; without a holder every busy thread can.\<close>

lemma holder_goes_on:
  assumes "sound m" and "activity m t \<noteq> Away" and "locked_by m = Some t \<or> locked_by m = None"
  shows "\<exists>m'. goes_on text_of t m m'"
proof -
  have alive: "\<not> fatal m" using assms(1) by (simp add: sound_def)
  note here = soundD [OF assms(1), of t]
  show ?thesis
  proof (cases "activity m t")
    case (Inside c n k cs)
    show ?thesis
    proof (cases k)
      case (LDo f k')
      then show ?thesis using Inside alive by (cases "f (memory m)") (blast intro: goes_on.accesses goes_on.panics)+
    next
      case (LLock k')
      then show ?thesis using Inside alive here assms(3) by (auto intro: goes_on.locks)
    qed (use Inside alive in \<open>blast intro: goes_on.returns goes_on.defers\<close>)+
  next
    case (Leaving n cs)
    show ?thesis
    proof (cases n)
      case 0
      then show ?thesis using Leaving alive by (cases cs) (blast intro: goes_on.calls_next goes_on.goes_away)+
    next
      case (Suc n')
      then show ?thesis using Leaving alive here by (auto intro: goes_on.unlocks split: if_splits)
    qed
  qed (use assms(2) in simp)
qed

lemma stuck_free:
  assumes "sound m" and "\<And>m'. \<not> moves text_of m m'"
  shows "activity m t = Away" and "locked_by m = None"
proof -
  show free: "locked_by m = None"
  proof (cases "locked_by m")
    case (Some t)
    then have "activity m t \<noteq> Away" using soundD [OF assms(1), of t] by auto
    with Some holder_goes_on [OF assms(1), of t] assms(2) show ?thesis by blast
  qed
  show "activity m t = Away" using holder_goes_on [OF assms(1), of t] free assms(2) by blast
qed

lemma access_owned:
  assumes "sound m" and "activity m t = Inside c n (LDo f k) cs" and "takes c"
  shows "locked_by m = Some t"
  using soundD [OF assms(1), of t] assms(2,3) by simp

text \<open>No thread goes on for ever.\<close>

lemma no_endless_run:
  assumes "lock_run may text_of a0 m" and "ms 0 = m"
  shows "\<exists>i. \<not> moves text_of (ms i) (ms (Suc i))"
proof (rule ccontr)
  assume "\<nexists>i. \<not> moves text_of (ms i) (ms (Suc i))"
  then have step: "moves text_of (ms i) (ms (Suc i))" for i by blast
  have run: "lock_run may text_of a0 (ms i)" for i
    by (induction i) (use assms step in \<open>auto intro: lock_run.proceeds\<close>)
  have chain: "(work_left (ms (Suc i)), work_left (ms i)) \<in> mult less_work" for i
    using step [of i] goes_on_less_work [OF _ lock_run_finite [OF run [of i]]] lock_run_sound [OF run [of "Suc i"]]
    by (auto simp: sound_def)
  then show False using no_chain [of "\<lambda>i. work_left (ms i)"] by blast
qed

end

end
