(* ===== verification/Aggregator_Locks.thy ===== *)
theory Aggregator_Locks
  imports Concurrency Locks
begin

section \<open>The mutex of the aggregator\<close>

text \<open>
  The methods of \<open>aggregator.go\<close> with their statements on the mutex: \<open>aggregate\<close>, \<open>SetOAuthIDP\<close> and
  \<open>DeleteOAuthIDP\<close> begin with Lock and a deferred Unlock, the others leave the mutex alone. \<open>SetOAuthIDP\<close>
  copies the types of its argument before it locks; this touches nothing that is shared. The theory shows that the
  methods follow the discipline of \<open>Locks\<close>, and that \<open>Concurrency\<close>, where the mutex is held throughout a
  call by definition, leaves out nothing: every run with explicit statements is one of its runs.
\<close>

fun method_text :: "'g gauge_api \<Rightarrow> 'g vec_with \<Rightarrow> idp_types \<Rightarrow> agg_call
    \<Rightarrow> 'g AdoptionMetricsAggregator lcode" where
  "method_text pv wth c aggregate_m = LLock (LDeferUnlock (bare (call_code pv wth c aggregate_m)))"
| "method_text pv wth c (SetOAuthIDP_m name ns ps) =
     LLock (LDeferUnlock (bare (call_code pv wth c (SetOAuthIDP_m name ns ps))))"
| "method_text pv wth c (DeleteOAuthIDP_m name ns) =
     LLock (LDeferUnlock (bare (call_code pv wth c (DeleteOAuthIDP_m name ns))))"
| "method_text pv wth c call = bare (call_code pv wth c call)"

lemma method_text_mutex:
  "method_text pv wth c call = (if takes_mutex call
     then LLock (LDeferUnlock (bare (call_code pv wth c call))) else bare (call_code pv wth c call))"
  by (cases call) simp_all

lemma accesses_text [simp]: "accesses (method_text pv wth c call) = call_code pv wth c call"
  by (simp add: method_text_mutex)

interpretation agg_locks: lock_discipline "method_text pv wth c" takes_mutex for pv wth c
  by unfold_locales (simp_all add: method_text_mutex)

subsection \<open>Runs with explicit statements are concurrent runs\<close>

lemma seq_Stop [simp]: "seq k Stop = k"
  by (induction k) simp_all

text \<open>What a thread of \<open>Concurrency\<close> is doing meanwhile; the flag tells whether it has the mutex there.\<close>

inductive follows :: "'g gauge_api \<Rightarrow> 'g vec_with \<Rightarrow> idp_types \<Rightarrow> (agg_call, 'g AdoptionMetricsAggregator) activity
    \<Rightarrow> bool \<Rightarrow> (agg_call list, 'g AdoptionMetricsAggregator) thread \<Rightarrow> bool" for pv wth c where
  away: "follows pv wth c Away False Idle"
| ended: "follows pv wth c (Leaving n []) False Idle"
| between: "\<not> holds_mutex calls \<Longrightarrow> \<not> takes_mutex d \<Longrightarrow> list_all (\<lambda>d. \<not> takes_mutex d) cs \<Longrightarrow>
    follows pv wth c (Leaving 0 (d # cs)) False (Running calls (calls_code pv wth c (d # cs)))"
| free: "\<not> holds_mutex calls \<Longrightarrow> without_mutex k \<Longrightarrow> list_all (\<lambda>d. \<not> takes_mutex d) cs \<Longrightarrow>
    follows pv wth c (Inside d 0 k cs) False (Running calls (seq (accesses k) (calls_code pv wth c cs)))"
| waits: "takes_mutex d \<Longrightarrow> follows pv wth c (Inside d 0 (method_text pv wth c d) []) False (Waiting [d])"
| locked: "takes_mutex d \<Longrightarrow> without_mutex k \<Longrightarrow>
    follows pv wth c (Inside d 0 (LDeferUnlock k) []) True (Running [d] (accesses k))"
| protected: "takes_mutex d \<Longrightarrow> without_mutex k \<Longrightarrow>
    follows pv wth c (Inside d (Suc 0) k []) True (Running [d] (accesses k))"

inductive_cases follows_awayE: "follows pv wth c Away held x"
inductive_cases follows_leavingE: "follows pv wth c (Leaving n cs) held x"
inductive_cases follows_insideE: "follows pv wth c (Inside d n k cs) held x"

definition at_access :: "'s lcode \<Rightarrow> bool" where
  "at_access k \<longleftrightarrow> k = LStop \<or> (\<exists>f k'. k = LDo f k')"

lemma at_access_simps [simp]: "at_access LStop" "at_access (LDo f k)" "\<not> at_access (LLock k')" "\<not> at_access (LDeferUnlock k')"
  by (auto simp: at_access_def)

lemma follows_accessE:
  assumes "follows pv wth c (Inside d n k cs) held x" "at_access k"
  obtains (free) calls where "n = 0" "\<not> held" "\<not> holds_mutex calls" "without_mutex k"
      "list_all (\<lambda>d. \<not> takes_mutex d) cs" "x = Running calls (seq (accesses k) (calls_code pv wth c cs))"
  | (protected) "n = Suc 0" "held" "cs = []" "takes_mutex d" "without_mutex k" "x = Running [d] (accesses k)"
  using assms by (elim follows_insideE) (auto simp: method_text_mutex intro: that)

definition shadows :: "'g gauge_api \<Rightarrow> 'g vec_with \<Rightarrow> idp_types
    \<Rightarrow> ('t, agg_call, 'g AdoptionMetricsAggregator) lmachine
    \<Rightarrow> ('t, agg_call list, 'g AdoptionMetricsAggregator) machine \<Rightarrow> bool" where
  "shadows pv wth c m M \<longleftrightarrow> shared M = memory m \<and> (\<forall>t. follows pv wth c (activity m t) (mutex M = Some t) (status M t))"

lemma shadowsD: "shadows pv wth c m M \<Longrightarrow> follows pv wth c (activity m t) (mutex M = Some t) (status M t)"
  by (simp add: shadows_def)

text \<open>The thread that moves, and the others, which see only whether they have the mutex.\<close>

lemma shadows_move:
  assumes "shadows pv wth c m M"
    and "activity m' = (activity m)(t := x)" "status M' = (status M)(t := y)" "shared M' = memory m'"
    and "follows pv wth c x (mutex M' = Some t) y"
    and "\<And>t'. t' \<noteq> t \<Longrightarrow> mutex M' = Some t' \<longleftrightarrow> mutex M = Some t'"
  shows "shadows pv wth c m' M'"
  using assms by (auto simp: shadows_def)

lemma shadows_stay:
  assumes "shadows pv wth c m M" and "activity m' = (activity m)(t := x)" "memory m' = memory m"
    and "follows pv wth c x (mutex M = Some t) (status M t)"
  shows "shadows pv wth c m' M"
  using assms by (auto simp: shadows_def)

lemma shadows_leave:
  assumes "shadows pv wth c m M" and "activity m' = (activity m)(t := Leaving n [])" "memory m' = b"
    and "mutex M = Some t \<longleftrightarrow> holds_mutex calls"
  shows "shadows pv wth c m' (leave holds_mutex t calls b M)"
proof (rule shadows_move [OF assms(1,2), where y = Idle])
  show "follows pv wth c (Leaving n []) (mutex (leave holds_mutex t calls b M) = Some t) Idle"
    using assms(4) follows.ended [of pv wth c n] by (simp add: leave_def)
qed (use assms(3,4) in \<open>auto simp: leave_def\<close>)

lemma unheld_mutex:
  assumes "shadows pv wth c m M" and sound: "agg_locks.sound m" and "locked_by m = None"
  shows "mutex M = None"
proof (rule ccontr)
  assume "mutex M \<noteq> None"
  then obtain t where "mutex M = Some t" by blast
  then have "follows pv wth c (activity m t) True (status M t)" using shadowsD [OF assms(1), of t] by simp
  moreover have "\<not> disciplined False (Suc 0) k" if "without_mutex k" for k :: "'x lcode"
    using that by (cases k) simp_all
  ultimately show False
    using agg_locks.soundD [OF sound, of t] assms(3) by cases auto
qed

definition follows_run :: "('w, 'g, 'cm, 'e) operator \<Rightarrow> 'g vec_with
    \<Rightarrow> (actor, agg_call, 'g AdoptionMetricsAggregator) lmachine
    \<Rightarrow> (actor, agg_call list, 'g AdoptionMetricsAggregator) machine \<Rightarrow> bool" where
  "follows_run oper wth m' M \<longleftrightarrow>
     (\<exists>M'. concurrent_run oper wth M M' \<and> shadows (op_gauges oper) wth (op_idp_types oper) m' M')"

lemma follows_no_step:
  "shadows (op_gauges oper) wth (op_idp_types oper) m' M \<Longrightarrow> follows_run oper wth m' M"
  unfolding follows_run_def concurrent_run_def by (blast intro: interleaved.no_step)

lemma follows_one_step:
  assumes "thread_step (makes oper) (calls_code (op_gauges oper) wth (op_idp_types oper)) holds_mutex t M M'"
    and "shadows (op_gauges oper) wth (op_idp_types oper) m' M'"
  shows "follows_run oper wth m' M"
  using assms unfolding follows_run_def concurrent_run_def by (blast intro: interleaved.intros)

lemma goes_on_followed:
  assumes sh: "shadows (op_gauges oper) wth (op_idp_types oper) m M" and sound: "agg_locks.sound m"
    and step: "goes_on (method_text (op_gauges oper) wth (op_idp_types oper)) t m m'"
  shows "follows_run oper wth m' M"
proof -
  let ?code = "calls_code (op_gauges oper) wth (op_idp_types oper)"
  note here = shadowsD [OF sh, of t] and mem = sh [unfolded shadows_def, THEN conjunct1]
  note move = shadows_move [OF sh, where t = t]
  from step show ?thesis
  proof cases
    case (locks c n k cs)
    with here obtain k' where k: "takes_mutex c" "cs = []" "n = 0" "status M t = Waiting [c]"
        "k = LDeferUnlock (bare (call_code (op_gauges oper) wth (op_idp_types oper) c))"
      by (auto simp: method_text_mutex elim!: follows_insideE)
    note free = unheld_mutex [OF sh sound locks(4)]
    show ?thesis
      by (rule follows_one_step [OF thread_step.acquire [OF k(4) free]],
          rule move [where x = "Inside c n k cs" and y = "Running [c] (?code [c])"])
        (use locks k mem free follows.locked [of c "bare k" for k] in simp_all)
  next
    case (defers c n k cs)
    with here obtain k': "takes_mutex c" "without_mutex k" "cs = []" "n = 0" "mutex M = Some t" "status M t = Running [c] (accesses k)"
      by (auto simp: method_text_mutex elim!: follows_insideE)
    show ?thesis
    proof (rule follows_no_step, rule shadows_stay [OF sh, where x = "Inside c (Suc n) k cs"])
      show "follows (op_gauges oper) wth (op_idp_types oper) (Inside c (Suc n) k cs) (mutex M = Some t) (status M t)"
        unfolding k' by (simp add: follows.protected k')
    qed (use defers in simp_all)
  next
    case (accesses c n f k cs b)
    from here [unfolded accesses(3)] at_access_simps(2) show ?thesis
    proof (cases rule: follows_accessE)
      case (free calls)
      then have run: "status M t = Running calls (Do f (\<lambda>a. seq (Locks.accesses (k a)) (?code cs)))" by simp
      show ?thesis
        by (rule follows_one_step [OF thread_step.access [OF run]], unfold mem, rule accesses(4),
            rule move [where x = "Inside c n (k (memory m)) cs"])
          (use accesses free mem in \<open>auto intro: follows.free\<close>)
    next
      case protected
      then have run: "status M t = Running [c] (Do f (\<lambda>a. Locks.accesses (k a)))" by simp
      show ?thesis
        by (rule follows_one_step [OF thread_step.access [OF run]], unfold mem, rule accesses(4),
            rule move [where x = "Inside c n (k (memory m)) cs"])
          (use accesses protected mem in \<open>auto intro: follows.protected\<close>)
    qed
  next
    case (panics c n f k cs b)
    from here [unfolded panics(3)] at_access_simps(2) show ?thesis
    proof (cases rule: follows_accessE)
      case (free calls)
      then have run: "status M t = Running calls (Do f (\<lambda>a. seq (Locks.accesses (k a)) (?code cs)))" by simp
      show ?thesis
        by (rule follows_one_step [OF thread_step.panic [OF run]], unfold mem, rule panics(4),
            rule shadows_leave [OF sh]) (use panics free in auto)
    next
      case protected
      then have run: "status M t = Running [c] (Do f (\<lambda>a. Locks.accesses (k a)))" by simp
      show ?thesis
        by (rule follows_one_step [OF thread_step.panic [OF run]], unfold mem, rule panics(4),
            rule shadows_leave [OF sh]) (use panics protected in \<open>auto simp: holds_mutex_def\<close>)
    qed
  next
    case (returns c n cs)
    from here [unfolded returns(3)] at_access_simps(1) show ?thesis
    proof (cases rule: follows_accessE)
      case (free calls)
      show ?thesis
      proof (cases cs)
        case Nil
        with free have run: "status M t = Running calls Stop" by simp
        show ?thesis
          by (rule follows_one_step [OF thread_step.return [OF run]], unfold mem,
              rule shadows_leave [OF sh]) (use returns free Nil in auto)
      next
        case (Cons d ds)
        show ?thesis
        proof (rule follows_no_step, rule shadows_stay [OF sh])
          show "follows (op_gauges oper) wth (op_idp_types oper) (Leaving n cs) (mutex M = Some t) (status M t)"
            using free Cons follows.between [of calls d ds] by simp
        qed (use returns in simp_all)
      qed
    next
      case protected
      then have run: "status M t = Running [c] Stop" by simp
      show ?thesis
        by (rule follows_one_step [OF thread_step.return [OF run]], unfold mem,
            rule shadows_leave [OF sh]) (use returns protected in \<open>auto simp: holds_mutex_def\<close>)
    qed
  next
    case (unlocks n cs)
    with here have "status M t = Idle" "mutex M \<noteq> Some t" "cs = []" by (auto elim!: follows_leavingE)
    then show ?thesis
      by (intro follows_no_step shadows_stay [OF sh, where t = t and x = "Leaving n cs"]) (use unlocks in \<open>simp_all add: follows.ended\<close>)
  next
    case (breaks n cs)
    then show ?thesis using agg_locks.soundD [OF sound, of t] by simp
  next
    case (calls_next c cs)
    with here obtain calls where calls: "\<not> holds_mutex calls" "\<not> takes_mutex c" "list_all (\<lambda>d. \<not> takes_mutex d) cs"
        "status M t = Running calls (?code (c # cs))" "mutex M \<noteq> Some t"
      by (auto elim!: follows_leavingE)
    show ?thesis
    proof (rule follows_no_step, rule shadows_stay [OF sh, where t = t])
      show "activity m' = (activity m)(t := Inside c 0 (method_text (op_gauges oper) wth (op_idp_types oper) c) cs)"
        "memory m' = memory m" by (simp_all add: calls_next)
      show "follows (op_gauges oper) wth (op_idp_types oper)
          (Inside c 0 (method_text (op_gauges oper) wth (op_idp_types oper) c) cs) (mutex M = Some t) (status M t)"
        using follows.free [OF calls(1) without_mutex_bare calls(3)] calls(2,4,5) by (simp add: method_text_mutex)
    qed
  next
    case goes_away
    then have "status M t = Idle" "mutex M \<noteq> Some t" using here by (auto elim!: follows_leavingE)
    then show ?thesis using goes_away mem
      by (intro follows_no_step shadows_stay [OF sh, where x = Away]) (auto intro: follows.away)
  qed
qed

text \<open>A thread that begins the calls of a reconcile.\<close>

lemma begins_followed:
  assumes sh: "shadows (op_gauges oper) wth (op_idp_types oper) m M"
    and away: "activity m t = Away" and made: "makes oper t (d # cs)"
  shows "follows_run oper wth (becomes m t (Inside d 0 (method_text (op_gauges oper) wth (op_idp_types oper) d) cs)) M"
proof -
  have idle: "status M t = Idle" "mutex M \<noteq> Some t"
    using shadowsD [OF sh, of t] away by (auto elim: follows_awayE)
  have mem: "shared M = memory m" using sh by (simp add: shadows_def)
  have home: "takes_mutex c \<longleftrightarrow> home t = Providers_R" if "c \<in> set (d # cs)" for c
    using made that unfolding makes_def by (auto simp: mutex_region)
  show ?thesis
  proof (cases "takes_mutex d")
    case True
    with made home [of d] have cs: "cs = []" by (simp add: makes_def)
    have "thread_step (makes oper) (calls_code (op_gauges oper) wth (op_idp_types oper)) holds_mutex t M
        (M\<lparr>status := (status M)(t := Waiting [d])\<rparr>)"
      by (rule thread_step.request) (use idle made cs True in \<open>simp_all add: holds_mutex_def\<close>)
    then show ?thesis
    proof (rule follows_one_step)
      show "shadows (op_gauges oper) wth (op_idp_types oper)
          (becomes m t (Inside d 0 (method_text (op_gauges oper) wth (op_idp_types oper) d) cs))
          (M\<lparr>status := (status M)(t := Waiting [d])\<rparr>)"
      proof (rule shadows_move [OF sh, where t = t and y = "Waiting [d]"])
        have "follows (op_gauges oper) wth (op_idp_types oper)
            (Inside d 0 (method_text (op_gauges oper) wth (op_idp_types oper) d) []) False (Waiting [d])"
          by (rule follows.waits [OF True])
        then show "follows (op_gauges oper) wth (op_idp_types oper)
            (Inside d 0 (method_text (op_gauges oper) wth (op_idp_types oper) d) cs)
            (mutex (M\<lparr>status := (status M)(t := Waiting [d])\<rparr>) = Some t) (Waiting [d])"
          using idle(2) cs by simp
      qed (use mem in simp_all)
    qed
  next
    case False
    have others: "list_all (\<lambda>d. \<not> takes_mutex d) cs" using False home by (auto simp: list_all_iff)
    have free: "\<not> holds_mutex (d # cs)" using False by (simp add: holds_mutex_def)
    let ?run = "Running (d # cs) (calls_code (op_gauges oper) wth (op_idp_types oper) (d # cs))"
    have "thread_step (makes oper) (calls_code (op_gauges oper) wth (op_idp_types oper)) holds_mutex t M
        (M\<lparr>status := (status M)(t := ?run)\<rparr>)"
      by (rule thread_step.invoke) (use idle made free in simp_all)
    then show ?thesis
    proof (rule follows_one_step)
      show "shadows (op_gauges oper) wth (op_idp_types oper)
          (becomes m t (Inside d 0 (method_text (op_gauges oper) wth (op_idp_types oper) d) cs))
          (M\<lparr>status := (status M)(t := ?run)\<rparr>)"
      proof (rule shadows_move [OF sh, where t = t and y = ?run])
        show "follows (op_gauges oper) wth (op_idp_types oper)
            (Inside d 0 (method_text (op_gauges oper) wth (op_idp_types oper) d) cs)
            (mutex (M\<lparr>status := (status M)(t := ?run)\<rparr>) = Some t) ?run"
          using follows.free [OF free without_mutex_bare others] False idle(2) by (simp add: method_text_mutex)
      qed (use mem in simp_all)
    qed
  qed
qed

lemma lock_run_followed:
  assumes "lock_run (makes oper) (method_text (op_gauges oper) wth (op_idp_types oper)) a0 m"
  shows "\<exists>M. concurrent_run oper wth (started_machine a0) M \<and> shadows (op_gauges oper) wth (op_idp_types oper) m M"
  using assms
proof (induction rule: lock_run.induct)
  case starts
  have "shadows (op_gauges oper) wth (op_idp_types oper)
      \<lparr>activity = (\<lambda>_. Away), locked_by = None, memory = a0, fatal = False\<rparr> (started_machine a0)"
    by (simp add: shadows_def started_machine_def follows.away)
  then show ?case unfolding concurrent_run_def by (blast intro: interleaved.no_step)
next
  case (begins m t c cs)
  then show ?case using begins_followed unfolding follows_run_def by (blast intro: concurrent_run_trans)
next
  case (proceeds m t m')
  then show ?case using goes_on_followed [OF _ agg_locks.lock_run_sound [OF proceeds.hyps(1)] proceeds.hyps(2)]
    unfolding follows_run_def by (blast intro: concurrent_run_trans)
qed

lemma shadows_quiescent:
  assumes "shadows pv wth c m M" and "\<And>t. activity m t = Away"
  shows "quiescent M"
  unfolding quiescent_def
proof
  fix t
  from shadowsD [OF assms(1), of t] assms(2) [of t] show "status M t = Idle" by (auto elim: follows_awayE)
qed

subsection \<open>Properties\<close>

text \<open>
  C20: The mutex is used as it must be. Let any threads call any methods of the aggregator, with any arguments,
  one after the other, Lock and the deferred Unlock being statements of the methods, and let a panic end a call at any
  access. Then no Unlock ever meets a mutex that is not locked, which would end the program. The accesses of \<open>aggregate\<close>,
  \<open>SetOAuthIDP\<close> and \<open>DeleteOAuthIDP\<close> are made only while their own thread has the mutex. There is no deadlock: as long as
  some thread is inside a call, some thread can go on. When no thread is inside a call the mutex is free. And the
  calls that have begun come to an end, in whatever order the threads go on: there is no endless run in which no
  further call begins.
\<close>

theorem mutex_used_properly:
  assumes "lock_run may (method_text pv wth c) a0 m"
  shows "\<not> fatal m
    \<and> (\<forall>t call n f k cs. activity m t = Inside call n (LDo f k) cs \<and> takes_mutex call \<longrightarrow> locked_by m = Some t)
    \<and> ((\<exists>t. activity m t \<noteq> Away) \<longrightarrow> (\<exists>m'. moves (method_text pv wth c) m m'))
    \<and> ((\<forall>t. activity m t = Away) \<longrightarrow> locked_by m = None)
    \<and> (\<forall>ms. ms 0 = m \<longrightarrow> (\<exists>i. \<not> moves (method_text pv wth c) (ms i) (ms (Suc i))))"
proof -
  have sound: "agg_locks.sound m" using agg_locks.lock_run_sound [OF assms] .
  have "\<exists>m'. moves (method_text pv wth c) m m'" if "activity m t \<noteq> Away" for t
    using agg_locks.stuck_free(1) [OF sound, of pv wth c t] that by blast
  moreover have "locked_by m = None" if "\<forall>t. activity m t = Away"
  proof (rule ccontr)
    assume "locked_by m \<noteq> None"
    then obtain t where "locked_by m = Some t" by blast
    with agg_locks.soundD [OF sound, of t] that show False by simp
  qed
  moreover have "\<not> fatal m" using sound by (simp add: agg_locks.sound_def)
  ultimately show ?thesis
    using agg_locks.access_owned [OF sound] agg_locks.no_endless_run [OF assms] by blast
qed

text \<open>One thread counts the providers, another one waits to enter some.\<close>

theorem mutex_used_properly_witness:
  "\<exists>m m'. lock_run (\<lambda>t calls. True) (method_text map_api map_with api_idp_types) (new_collector map_api Minute) m
    \<and> locked_by m = Some ''loop'' \<and> (\<exists>k. activity m ''oauth'' = Inside (SetOAuthIDP_m ''cluster'' '''' []) 0 (LLock k) [])
    \<and> \<not> fatal m \<and> moves (method_text map_api map_with api_idp_types) m m'"
proof -
  let ?text = "method_text map_api map_with api_idp_types" and ?a = "new_collector map_api Minute"
  let ?set = "SetOAuthIDP_m ''cluster'' '''' []" and ?may = "\<lambda>t calls. True"
  define m1 where "m1 = \<lparr>activity = (\<lambda>_. Away)(''loop'' := Inside aggregate_m 0 (?text aggregate_m) []),
    locked_by = None, memory = ?a, fatal = False\<rparr>"
  define m2 where "m2 = m1\<lparr>activity := (\<lambda>_. Away)(''loop'' := Inside aggregate_m 0
    (LDeferUnlock (bare (call_code map_api map_with api_idp_types aggregate_m))) []), locked_by := Some ''loop''\<rparr>"
  define m3 where "m3 = becomes m2 ''oauth'' (Inside ?set 0 (?text ?set) [])"
  have "lock_run ?may ?text ?a m1"
    using lock_run.begins [where may = ?may and t = "''loop''" and c = aggregate_m and cs = "[]",
        OF lock_run.starts [of ?may ?text ?a]] by (simp add: m1_def)
  moreover have "goes_on ?text ''loop'' m1 m2"
    using goes_on.locks [of m1 "''loop''" aggregate_m 0 _ "[]" ?text] by (simp add: m1_def m2_def)
  ultimately have m2: "lock_run ?may ?text ?a m2" by (rule lock_run.proceeds)
  have m3: "lock_run ?may ?text ?a m3"
    unfolding m3_def by (rule lock_run.begins [OF m2]) (simp_all add: m2_def m1_def)
  have m3_parts: "locked_by m3 = Some ''loop''" "activity m3 ''oauth'' = Inside ?set 0 (?text ?set) []"
    by (simp_all add: m3_def m2_def m1_def)
  with mutex_used_properly [OF m3] obtain m' where "moves ?text m3 m'" "\<not> fatal m3"
    by (metis activity.distinct(1))
  with m3 m3_parts show ?thesis by auto
qed

end
