(* ===== verification/Convergence.thy ===== *)
theory Convergence
  imports System
begin

section \<open>While the objects rest\<close>

text \<open>
  What the metrics come to when the objects behind them no longer change: after the controller of
  a metric has run once more, the metric shows its object, and whatever else runs in between or
  later - other controllers, the loop, the same controller again - it stays so.
\<close>

fun settled :: "('w, 'g, 'cm, 'e) operator \<Rightarrow> 'w \<Rightarrow> controller \<Rightarrow> exposition \<Rightarrow> bool" where
  "settled oper w LimitedSupport_C e =
     (case Get (op_configmap_client oper) w limited_support_key of
       Inr _ \<Rightarrow> e Limited_Support_Enabled [op_clusterId oper] = Some 1
     | Inl err \<Rightarrow> IsNotFound (op_configmap_client oper) err \<longrightarrow>
         e Limited_Support_Enabled [op_clusterId oper] = Some 0)"
| "settled oper w ConfigMap_C e =
     (case Get (op_configmap_client oper) w (ca_bundle_key (op_network_operator oper)) of
       Inl _ \<Rightarrow> e Cluster_Proxy_CA_Expiry = Map.empty \<and> e Cluster_Proxy_CA_Valid = Map.empty
     | Inr cm \<Rightarrow>
         (case TrustBundleConfigMap (op_network_operator oper) cm
             (TRUSTED_CA_BUNDLE_CONFIGMAP_KEY (op_network_operator oper)) of
           Inl err \<Rightarrow> e Cluster_Proxy_CA_Expiry = Map.empty
             \<and> e Cluster_Proxy_CA_Valid =
               (if strings_Contains (Error_text (op_network_operator oper) err) ''failed parsing certificate''
                then [[op_clusterId oper] \<mapsto> 0] else Map.empty)
         | Inr certs \<Rightarrow> e Cluster_Proxy_CA_Expiry = expiry_series (op_clusterId oper) certs
             \<and> e Cluster_Proxy_CA_Valid = (if certs = [] then Map.empty else [[op_clusterId oper] \<mapsto> 1])))"
| "settled oper w PullSecret_C e =
     (case Get (op_secret_client oper) w pull_secret_key of
       Inr s \<Rightarrow> e Pull_Secret_Valid = [[op_clusterId oper, secret_reason (Some s)] \<mapsto>
         of_bool (secret_reason (Some s) = ReasonValid)]
     | Inl err \<Rightarrow> IsNotFound (op_secret_client oper) err \<longrightarrow>
         e Pull_Secret_Valid = [[op_clusterId oper, secret_reason None] \<mapsto> 0])"
| "settled oper w CPMS_C e =
     (case Get (op_cpms_client oper) w cpms_key of
       Inl _ \<Rightarrow> True
     | Inr obj \<Rightarrow>
         (case instance_type_of (op_decoders oper) obj of
           Known t \<Rightarrow> e CPMS_Enabled = [[op_clusterId oper, t] \<mapsto> of_bool (cpms_State obj = ''Active'')]
         | _ \<Rightarrow> True))"
| "settled oper w Proxy_C e = (e Cluster_ID [op_clusterId oper] = Some 1)"
| "settled oper w _ e = True"

text \<open>The objects that decide these metrics are as they were.\<close>

definition at_rest :: "('w, 'g, 'cm, 'e) operator \<Rightarrow> 'w \<Rightarrow> 'w \<Rightarrow> bool" where
  "at_rest oper w0 w \<longleftrightarrow>
     Get (op_configmap_client oper) w limited_support_key = Get (op_configmap_client oper) w0 limited_support_key
     \<and> Get (op_configmap_client oper) w (ca_bundle_key (op_network_operator oper)) =
         Get (op_configmap_client oper) w0 (ca_bundle_key (op_network_operator oper))
     \<and> Get (op_secret_client oper) w pull_secret_key = Get (op_secret_client oper) w0 pull_secret_key
     \<and> Get (op_cpms_client oper) w cpms_key = Get (op_cpms_client oper) w0 cpms_key"

inductive quiet_run :: "('w, 'g, 'cm, 'e) operator \<Rightarrow> 'w \<times> 'g AdoptionMetricsAggregator \<Rightarrow> actor list
    \<Rightarrow> 'w \<times> 'g AdoptionMetricsAggregator \<Rightarrow> bool" for oper s where
  quiet_start: "quiet_run oper s [] s"
| quiet_step: "quiet_run oper s ls (w, a) \<Longrightarrow> system_step oper l (w, a) (w', a') \<Longrightarrow>
    at_rest oper (fst s) w' \<Longrightarrow> quiet_run oper s (ls @ [l]) (w', a')"

lemma at_rest_refl: "at_rest oper w w"
  by (simp add: at_rest_def)

lemma settled_at_rest: "at_rest oper w0 w \<Longrightarrow> settled oper w c e = settled oper w0 c e"
  by (cases c) (simp_all add: at_rest_def)

lemma settled_owner:
  assumes "\<And>v. owner v = Ran c \<Longrightarrow> e' v = e v" shows "settled oper w c e' = settled oper w c e"
  using assms by (cases c) (simp_all split: sum.split instance_type.split)

lemma quiet_run_reachable:
  assumes "quiet_run oper s ls s'" and "reachable oper s"
  shows "reachable oper s' \<and> at_rest oper (fst s) (fst s')"
  using assms by induction (auto intro: reachable.stepped at_rest_refl)

text \<open>One run of a controller makes its metrics show the objects that it has read.\<close>

lemma step_settles:
  assumes ok: "operator_ok oper" and wf: "agg_wf (op_gauges oper) a"
    and step: "system_step oper (Ran c) (w, a) (w', a')"
  shows "settled oper w c (scraped oper a')"
proof -
  have laws: "gauge_vec (op_gauges oper)" "ValidString (op_clusterId oper)"
    and subjects: "valid_subjects (op_network_operator oper)"
    and instances: "valid_instance_types (op_decoders oper)"
    using ok by (simp_all add: operator_ok_def)
  from step show ?thesis
  proof cases
    case (configmap req out)
    with configmap_report [OF laws wf subjects, of "op_configmap_client oper" req w]
    show ?thesis by (auto simp: expo_ca_def split: sum.splits)
  next
    case (limited_support req out)
    with limited_support_cases [OF laws wf, of "op_configmap_client oper" req w]
    show ?thesis by (auto simp: expo_set_def split: sum.splits)
  next
    case (proxy req out)
    with proxy_cases [OF laws wf, of "op_proxy_client oper" req w]
    show ?thesis by (auto simp: expo_set_def split: sum.splits)
  next
    case (pull_secret req out)
    with pull_secret_cases [OF laws wf, of "op_secret_client oper" req w]
    show ?thesis by (auto simp: expo_only_def split: sum.splits)
  next
    case (cpms req out)
    with cpms_report [OF laws wf instances, of "op_cpms_client oper" req w]
    show ?thesis by (auto simp: expo_only_def split: sum.splits instance_type.splits)
  qed simp_all
qed

text \<open>A step of another actor does not touch them.\<close>

lemma others_keep_settled:
  assumes ok: "operator_ok oper" and wf: "agg_wf (op_gauges oper) a"
    and step: "system_step oper l (w, a) (w', a')" and "l \<noteq> Ran c"
  shows "settled oper u c (scraped oper a') = settled oper u c (scraped oper a)"
proof (rule settled_owner)
  fix v assume "owner v = Ran c"
  with \<open>l \<noteq> Ran c\<close> system_step_expo [OF ok step wf] show "scraped oper a' v = scraped oper a v"
    by (metis expo_step_owner)
qed

end
