(* ===== verification/Startup_Properties.thy ===== *)
theory Startup_Properties
  imports Startup
begin

section \<open>Properties of the start-up\<close>

text \<open>
  What holds of \<open>main\<close> on every path (one aggregator, to which all pointers lead), what a start-up
  without failures amounts to, what it needs, that the types of all watches are known to the
  scheme, and how the command line reaches the manager.
\<close>

subsection \<open>All outcomes\<close>

fun all_outcomes :: "('p \<Rightarrow> bool) \<Rightarrow> 'p run_result \<Rightarrow> bool" where
  "all_outcomes P (Next p) \<longleftrightarrow> P p"
| "all_outcomes P (Exited msg p) \<longleftrightarrow> P p"
| "all_outcomes P (Usage status) \<longleftrightarrow> True"
| "all_outcomes P (Crashed p) \<longleftrightarrow> P p"

lemma all_outcomes_bind:
  assumes "all_outcomes P x" and "\<And>p. P p \<Longrightarrow> all_outcomes P (f p)"
  shows "all_outcomes P (run_bind x f)"
  using assms by (cases x) simp_all

lemma all_outcomes_mono:
  assumes "all_outcomes P x" and "\<And>p. P p \<Longrightarrow> Q p" shows "all_outcomes Q x"
  using assms by (cases x) simp_all

lemma all_outcomes_exit_on [simp]: "all_outcomes P (exit_on err msg p) \<longleftrightarrow> P p"
  by (simp add: exit_on_def split: option.split)

text \<open>
  A process has no aggregator and no pointer to one, or exactly one aggregator to which every pointer
  leads: the global variable, the reconcilers and the goroutine of the loop; the collectors served are
  the vectors of this aggregator.
\<close>

definition pointers :: "('g, 'k, 's) process \<Rightarrow> agg_ptr set" where
  "pointers p = set_option (aggregator p) \<union> set (ticking p)
     \<union> (\<Union>(r, reg) \<in> set (reconcilers p). set_option (MetricsAggregator_of r))"

definition one_cell :: "('g, 'k, 's) process \<Rightarrow> bool" where
  "one_cell p \<longleftrightarrow>
     (if aggregator p = None then heap p = [] \<and> pointers p = {} \<and> exposed p = None
      else (\<exists>a. heap p = [a] \<and> aggregator p = Some 0 \<and> pointers p = {0}
        \<and> (exposed p = None \<or> exposed p = Some (metricsConfig (GetMetrics a)))))"

definition idle_cell :: "('g, 'k, 's) process \<Rightarrow> bool" where
  "idle_cell p \<longleftrightarrow> one_cell p \<and> ticking p = []"

lemma use_aggregator_outcomes:
  assumes "one_cell p" and "P p"
    and "\<And>hp. P (p\<lparr>heap := hp, aggregator := Some 0\<rparr>) \<longleftrightarrow> P p"
    and "\<And>q. one_cell q \<Longrightarrow> aggregator q = Some 0 \<Longrightarrow> P q \<Longrightarrow> all_outcomes Q (f 0 q)"
    and "\<And>q. one_cell q \<Longrightarrow> P q \<Longrightarrow> Q q"
  shows "all_outcomes Q (use_aggregator pv clusterId f p)"
proof (cases "aggregator p")
  case None
  then have empty: "heap p = []" "pointers p = {}" "exposed p = None"
    using assms(1) by (simp_all add: one_cell_def)
  then have "one_cell (p\<lparr>heap := [a], aggregator := Some 0\<rparr>)" for a
    using None by (simp add: one_cell_def pointers_def)
  then show ?thesis
    using assms(2-5) assms(1)
    by (simp add: use_aggregator_first [OF empty(1) None] split: exec.split)
next
  case (Some ptr)
  moreover from this have "ptr = 0" using assms(1) by (auto simp: one_cell_def split: if_splits)
  ultimately show ?thesis
    using assms(1,2,4) by (simp add: use_aggregator_again)
qed

lemma set_up_outcomes:
  assumes "idle_cell p" and "set_option (MetricsAggregator_of r) \<subseteq> set_option (aggregator p)"
  shows "all_outcomes idle_cell (set_up env mgr r p)"
proof -
  have "pointers (p\<lparr>reconcilers := reconcilers p @ [(r, reg)]\<rparr>) = pointers p" for reg
    using assms(2) by (auto simp: pointers_def)
  then have "idle_cell (p\<lparr>reconcilers := reconcilers p @ [(r, reg)]\<rparr>)" for reg
    using assms(1) by (simp add: idle_cell_def one_cell_def)
  then show ?thesis
    using assms(1) by (simp add: set_up_def split: sum.split)
qed

lemma set_up_all_outcomes:
  assumes "idle_cell p" and "\<forall>mk \<in> set mks. MetricsAggregator_of (mk 0) = Some 0"
  shows "all_outcomes idle_cell (set_up_all pv env mgr clusterId mks p)"
  using assms
proof (induction mks arbitrary: p)
  case (Cons mk mks)
  have "all_outcomes idle_cell (use_aggregator pv clusterId (\<lambda>ptr. set_up env mgr (mk ptr)) p)"
  proof (rule use_aggregator_outcomes [where P = "\<lambda>q. ticking q = []"])
    show "all_outcomes idle_cell (set_up env mgr (mk 0) q)"
      if "one_cell q" "aggregator q = Some 0" "ticking q = []" for q
      using that Cons.prems(2) by (intro set_up_outcomes) (simp_all add: idle_cell_def)
  qed (use Cons.prems(1) in \<open>simp_all add: idle_cell_def\<close>)
  then show ?case
    using Cons by (auto intro: all_outcomes_bind)
qed simp

lemma set_up_controllers_outcomes: "all_outcomes idle_cell (set_up_controllers pv env mgr clusterId new_process)"
proof -
  have "idle_cell new_process" by (simp add: idle_cell_def one_cell_def pointers_def new_process_def)
  moreover have "MetricsAggregator_of (mk 0) = Some 0" if "mk \<in> set (shared_reconcilers k s clusterId)" for k s mk
    using that by (auto simp: shared_reconcilers_def)
  ultimately show ?thesis
    unfolding set_up_controllers_def Let_def
    by (intro all_outcomes_bind set_up_outcomes set_up_all_outcomes)
      (auto intro!: set_up_all_outcomes simp: cpms_reconciler_def simp del: set_up_all.simps)
qed

lemma expose_outcomes:
  assumes "one_cell p" and "aggregator p = Some 0"
  shows "all_outcomes one_cell (expose env 0 p)"
proof -
  obtain a where a: "heap p = [a]" using assms by (auto simp: one_cell_def)
  then have "one_cell (p\<lparr>exposed := Some (metricsConfig (GetMetrics a))\<rparr>)"
    using assms by (simp add: one_cell_def pointers_def)
  then show ?thesis
    using a assms(1)
    by (cases "ConfigureMetrics_error env (metricsConfig (GetMetrics a))")
      (simp_all add: expose_def deref_def exit_on_def)
qed

lemma serve_outcomes:
  assumes "idle_cell p"
  shows "all_outcomes one_cell (serve pv env clusterId p)"
proof -
  have tick: "all_outcomes one_cell (use_aggregator pv clusterId (\<lambda>ptr p. Next (p\<lparr>ticking := ticking p @ [ptr]\<rparr>)) q)"
    if "one_cell q" for q
  proof (rule use_aggregator_outcomes [where P = "\<lambda>_. True", OF that])
    show "all_outcomes one_cell (Next (q\<lparr>ticking := ticking q @ [0]\<rparr>))"
      if "one_cell q" "aggregator q = Some 0" for q
      using that by (auto simp: one_cell_def pointers_def)
  qed simp_all
  have publish: "all_outcomes one_cell (use_aggregator pv clusterId (expose env) q)" if "one_cell q" for q
    by (rule use_aggregator_outcomes [where P = "\<lambda>_. True", OF that]) (simp_all add: expose_outcomes)
  show ?thesis
    unfolding serve_def
    by (intro all_outcomes_bind tick publish) (use assms in \<open>simp_all add: idle_cell_def\<close>)
qed

subsection \<open>What each controller watches\<close>

fun watched :: "controller \<Rightarrow> object_kind" where
  "watched ClusterRole_C = ClusterRole_K"
| "watched ConfigMap_C = ConfigMap_K"
| "watched Group_C = Group_K"
| "watched LimitedSupport_C = ConfigMap_K"
| "watched Machine_C = Machine_K"
| "watched OAuth_C = OAuth_K"
| "watched Proxy_C = Proxy_K"
| "watched PullSecret_C = Secret_K"
| "watched CPMS_C = ControlPlaneMachineSet_K"

text \<open>The name of a controller is the one it is given, or the kind it watches in lower case.\<close>

fun kind_name :: "object_kind \<Rightarrow> string" where
  "kind_name ClusterVersion_K = ''clusterversion''"
| "kind_name ClusterRole_K = ''clusterrole''"
| "kind_name ConfigMap_K = ''configmap''"
| "kind_name Group_K = ''group''"
| "kind_name Machine_K = ''machine''"
| "kind_name Event_K = ''event''"
| "kind_name OAuth_K = ''oauth''"
| "kind_name Proxy_K = ''proxy''"
| "kind_name Secret_K = ''secret''"
| "kind_name ControlPlaneMachineSet_K = ''controlplanemachineset''"

definition controller_name :: "registration \<Rightarrow> string" where
  "controller_name reg = (case reg_Name reg of None \<Rightarrow> kind_name (reg_For reg) | Some name \<Rightarrow> name)"

definition expected_name :: "controller \<Rightarrow> string" where
  "expected_name c = (if c = LimitedSupport_C then limitedSupportName else kind_name (watched c))"

lemmas setup_defs =
  ClusterRoleSetupWithManager_def ConfigMapSetupWithManager_def GroupSetupWithManager_def
  LimitedSupportSetupWithManager_def MachineSetupWithManager_def OAuthSetupWithManager_def
  ProxySetupWithManager_def PullSecretSetupWithManager_def CPMSSetupWithManager_def completed_def

lemma set_up_with_For:
  "set_up_with env mgr r reg \<Longrightarrow> reg_For reg = watched (controller_of r)"
  by (cases r) (auto simp: set_up_with_def setup_defs split: option.splits)

lemma set_up_with_name:
  "set_up_with env mgr r reg \<Longrightarrow> controller_name reg = expected_name (controller_of r)"
  by (cases r) (auto simp: set_up_with_def setup_defs controller_name_def expected_name_def split: option.splits)

text \<open>Nothing that the manager offers to the controllers fails.\<close>

definition willing :: "('k, 's, 'e) builder \<Rightarrow> bool" where
  "willing b \<longleftrightarrow> (\<forall>kind name f. IndexField b kind name f = None) \<and> (\<forall>reg r. Complete b reg r = None)"

lemma willing_set_up:
  assumes "willing (Builder env mgr)"
  obtains reg where "set_up_with env mgr r reg"
  using assms that by (cases r) (simp_all add: willing_def set_up_with_def setup_defs)

lemma willing_set_up_all:
  assumes "willing (Builder env mgr)"
  obtains regs where "list_all2 (set_up_with env mgr) rs regs"
proof -
  have "\<exists>regs. list_all2 (set_up_with env mgr) rs regs"
  proof (induction rs)
    case (Cons r rs)
    then obtain regs where "list_all2 (set_up_with env mgr) rs regs" by blast
    moreover obtain reg where "set_up_with env mgr r reg" by (rule willing_set_up [OF assms])
    ultimately have "list_all2 (set_up_with env mgr) (r # rs) (reg # regs)" by simp
    then show ?case by blast
  qed simp
  with that show ?thesis by blast
qed

lemma registrations_For:
  "list_all2 (set_up_with env mgr) rs regs \<Longrightarrow> map reg_For regs = map (watched \<circ> controller_of) rs"
  by (induction rs regs rule: list_all2_induct) (simp_all add: set_up_with_For)

lemma registrations_name:
  "list_all2 (set_up_with env mgr) rs regs \<Longrightarrow>
   map controller_name regs = map expected_name (map controller_of rs)"
  by (induction rs regs rule: list_all2_induct) (simp_all add: set_up_with_name)

lemma zip_registrations:
  assumes "list_all2 (set_up_with env mgr) rs regs" and "(r, reg) \<in> set (zip rs regs)"
  shows "r \<in> set rs" and "set_up_with env mgr r reg"
  using assms by (auto simp: list_all2_iff dest: set_zip_leftD)

text \<open>The controllers that a complete start-up sets up, in order.\<close>

definition wanted_controllers :: "('g, 's, 'm, 'k, 'cm, 'd, 'e) main_env \<Rightarrow> controller list" where
  "wanted_controllers env =
     [ClusterRole_C, ConfigMap_C, Group_C, LimitedSupport_C, Machine_C, OAuth_C, Proxy_C, PullSecret_C]
     @ (if fst (hasCpmsCrd env) then [CPMS_C] else [])"

lemma wanted_reconcilers_controllers:
  "map controller_of (wanted_reconcilers env mgr clusterId) = wanted_controllers env"
  by (simp add: wanted_reconcilers_def wanted_controllers_def shared_reconcilers_def cpms_reconciler_def Let_def)

lemma wanted_names_distinct: "distinct (map expected_name (wanted_controllers env))"
  by (simp add: wanted_controllers_def expected_name_def limitedSupportName_def)

lemma wanted_reconcilers_fields:
  "\<forall>r \<in> set (wanted_reconcilers env mgr clusterId). Client_of r = GetClient env mgr
     \<and> Scheme_of r = GetScheme env mgr"
  by (simp add: wanted_reconcilers_def shared_reconcilers_def cpms_reconciler_def Let_def)

subsection \<open>Properties\<close>

text \<open>
  C17: However start-up ends - regularly, by an error, or by a panic - at most one aggregator has
  been created, and every pointer leads to it: the global variable, the field of every reconciler that
  was set up, the goroutine of the aggregation loop; and if collectors are served, they are the
  vectors of that aggregator.
\<close>

theorem one_aggregator: "all_outcomes one_cell (main pv env)"
proof -
  have new: "one_cell new_process" by (simp add: one_cell_def pointers_def new_process_def)
  have "all_outcomes one_cell (run_bind (set_up_controllers pv env mgr clusterId new_process)
      (serve pv env clusterId))" for mgr clusterId
  proof (cases "set_up_controllers pv env mgr clusterId new_process")
    case (Next p)
    then show ?thesis using set_up_controllers_outcomes [of pv env mgr clusterId] serve_outcomes by simp
  next
    case (Exited msg p)
    then show ?thesis
      using set_up_controllers_outcomes [of pv env mgr clusterId] by (simp add: idle_cell_def)
  next
    case (Crashed p)
    then show ?thesis
      using set_up_controllers_outcomes [of pv env mgr clusterId] by (simp add: idle_cell_def)
  qed simp
  then show ?thesis
    by (simp add: main_def new split: exec.split flag_result.split option.split sum.split)
qed

text \<open>An environment in which every call succeeds, with or without the CRD.\<close>

definition good_env :: "bool \<Rightarrow> string list
    \<Rightarrow> (map_vec, api_package list, api_package list manager_options, unit, Certificate list, mem_error,
        mem_error) main_env" where
  "good_env crd args = \<lparr>Args = args, Other_flags = [], Type_scheme = list_scheme, GetConfig_error = None,
     NewManager = Inr,
     GetClient = (\<lambda>m. ()), GetScheme = opt_Scheme, ClusterVersion_Get = (\<lambda>key. Inr ''c1''),
     Network_operator = one_cert_operator,
     Builder = (\<lambda>m. \<lparr>IndexField = (\<lambda>kind name f. None), Complete = (\<lambda>reg r. None)\<rparr>),
     NewDiscoveryClient_error = None, IsResourceEnabled = (\<lambda>r. (crd, None)),
     AddHealthzCheck_error = None, AddReadyzCheck_error = None,
     ConfigureMetrics_error = (\<lambda>c. None), Start_error = None\<rparr>"

definition all_calls_succeed :: "('g, 's, 'm, 'k, 'cm, 'd, 'e) main_env \<Rightarrow> 'm \<Rightarrow> bool" where
  "all_calls_succeed env mgr \<longleftrightarrow> GetConfig_error env = None \<and> willing (Builder env mgr)
     \<and> AddHealthzCheck_error env = None \<and> AddReadyzCheck_error env = None
     \<and> (\<forall>c. ConfigureMetrics_error env c = None) \<and> Start_error env = None"

lemma good_env_succeeds: "all_calls_succeed (good_env crd args) mgr"
  by (simp add: all_calls_succeed_def good_env_def willing_def)

lemma good_env_simps [simp]:
  "Args (good_env crd args) = args" "Other_flags (good_env crd args) = []"
  "Type_scheme (good_env crd args) = list_scheme" "NewManager (good_env crd args) = Inr"
  "GetScheme (good_env crd args) = opt_Scheme" "ClusterVersion_Get (good_env crd args) key = Inr ''c1''"
  "fst (hasCpmsCrd (good_env crd args)) = crd"
  by (simp_all add: good_env_def hasCpmsCrd_def)

definition all_packages :: "api_package list" where
  "all_packages = [Userv1, Routev1, Rbacv1, PromOperatorv1, Machinev1beta1, Configv1, Corev1, Machinev1,
     Clientgoscheme]"

lemma init_list_scheme [simp]: "init_scheme list_scheme = Ok all_packages"
  by (simp add: init_scheme_def list_scheme_def Must_def all_packages_def)

text \<open>
  C18: If every call succeeds, start-up sets all controllers up in order, each watching its kind
  under a name of its own, although two of them watch config maps, the control plane machine set controller exactly if its CRD is enabled, all on one aggregator that is
  created once for the cluster id of the API; it starts one aggregation loop and serves the ten
  vectors of that aggregator, which satisfies the invariant and exports the two admin flags as 0.
\<close>

theorem startup_complete:
  assumes "gauge_vec pv" and "init_scheme (Type_scheme env) = Ok scheme"
    and "parse_flags (main_flags @ Other_flags env) (Args env) [] = Parsed vals rest"
    and "NewManager env (manager_options scheme (probeAddr vals) (enableLeaderElection vals)) = Inr mgr"
    and "ClusterVersion_Get env \<lparr>nn_Namespace = '''', nn_Name = ''version''\<rparr> = Inr clusterId"
    and "clusterId \<noteq> ''''" and "ValidString clusterId" and "all_calls_succeed env mgr"
  shows "\<exists>a rs regs. main pv env = Next \<lparr>heap = [a], aggregator = Some 0, reconcilers = zip rs regs,
        ticking = [0], exposed = Some (metricsConfig (GetMetrics a))\<rparr>
    \<and> map controller_of rs = wanted_controllers env
    \<and> map reg_For regs = map watched (wanted_controllers env) \<and> distinct (map controller_name regs)
    \<and> agg_wf pv a \<and> exported pv a = expo_set Limited_Support_Enabled [clusterId] 0
        (expo_set Cluster_Admin_Enabled [clusterId] 0 (\<lambda>_. Map.empty))"
proof -
  obtain a where a: "NewMetricsAggregator pv aggregatorResyncInterval clusterId = Ok a" "agg_wf pv a"
      "exported pv a = expo_set Limited_Support_Enabled [clusterId] 0
        (expo_set Cluster_Admin_Enabled [clusterId] 0 (\<lambda>_. Map.empty))"
    using NewMetricsAggregator_ok [OF assms(1,7)] by blast
  let ?rs = "wanted_reconcilers env mgr clusterId"
  obtain regs where regs: "list_all2 (set_up_with env mgr) ?rs regs"
    using assms(8) by (auto simp: all_calls_succeed_def elim: willing_set_up_all)
  have "main pv env = Next (started_process a ?rs regs)"
    unfolding main_Next_iff getClusterID_Inr using assms a regs by (auto simp: all_calls_succeed_def)
  moreover have "map reg_For regs = map watched (map controller_of ?rs)"
    using registrations_For [OF regs] by simp
  moreover have "distinct (map controller_name regs)"
    unfolding registrations_name [OF regs] wanted_reconcilers_controllers by (rule wanted_names_distinct)
  ultimately show ?thesis
    using a wanted_reconcilers_controllers [of env mgr clusterId] unfolding started_process_def by metis
qed

theorem startup_complete_witness:
  "\<exists>a rs regs. main map_api (good_env False [''--enable-leader-election'']) = Next \<lparr>heap = [a],
      aggregator = Some 0, reconcilers = zip rs regs, ticking = [0],
      exposed = Some (metricsConfig (GetMetrics a))\<rparr>
    \<and> map reg_For regs = [ClusterRole_K, ConfigMap_K, Group_K, ConfigMap_K, Machine_K, OAuth_K, Proxy_K,
        Secret_K]
    \<and> exported map_api a Limited_Support_Enabled [''c1''] = Some 0"
proof -
  let ?env = "good_env False [''--enable-leader-election'']"
  have flags: "parse_flags (main_flags @ Other_flags ?env) (Args ?env) [] =
      Parsed [(''enable-leader-election'', ''true'')] []"
    by (simp add: main_flags_def flag_token_def map_put_def)
  have id: "ClusterVersion_Get ?env \<lparr>nn_Namespace = '''', nn_Name = ''version''\<rparr> = Inr ''c1''"
    "ValidString ''c1''" "''c1'' \<noteq> ''''" by (simp_all add: byte_def)
  have scheme: "init_scheme (Type_scheme ?env) = Ok all_packages" by simp
  have wanted: "map watched (wanted_controllers ?env) =
      [ClusterRole_K, ConfigMap_K, Group_K, ConfigMap_K, Machine_K, OAuth_K, Proxy_K, Secret_K]"
    by (simp add: wanted_controllers_def)
  have mgr: "NewManager ?env opts = Inr opts" for opts by simp
  have "expo_set Limited_Support_Enabled [''c1''] 0 e Limited_Support_Enabled [''c1''] = Some 0" for e
    by (simp add: expo_set_def)
  then show ?thesis
    using startup_complete [OF map_api_gauges scheme flags mgr id(1,3,2) good_env_succeeds]
    unfolding wanted by metis
qed

lemma good_main:
  assumes "parse_flags main_flags args [] = Parsed vals rest"
  obtains p a where "main map_api (good_env crd args) = Next p"
    and "NewMetricsAggregator map_api aggregatorResyncInterval ''c1'' = Ok a"
    and "reconcilers p \<noteq> []"
proof -
  let ?env = "good_env crd args"
  let ?mgr = "manager_options all_packages (probeAddr vals) (enableLeaderElection vals)"
  let ?rs = "wanted_reconcilers ?env ?mgr ''c1''"
  have "ValidString ''c1''" by (simp add: byte_def)
  then obtain a where a: "NewMetricsAggregator map_api aggregatorResyncInterval ''c1'' = Ok a"
    using NewMetricsAggregator_ok [OF map_api_gauges] by blast
  have succeeds: "all_calls_succeed ?env ?mgr" by (rule good_env_succeeds)
  then obtain regs where regs: "list_all2 (set_up_with ?env ?mgr) ?rs regs"
    by (auto simp: all_calls_succeed_def elim: willing_set_up_all)
  then have "main map_api ?env = Next (started_process a ?rs regs)"
    unfolding main_Next_iff getClusterID_Inr using a assms succeeds
    by (auto simp: all_calls_succeed_def)
  moreover have "reconcilers (started_process a ?rs regs) \<noteq> []"
    using regs by (auto simp: started_process_def wanted_reconcilers_def Let_def list_all2_Cons1)
  ultimately show ?thesis using that a by blast
qed

text \<open>
  C33: The process runs to a regular end only if the types could be added, the flags could be read,
  the configuration was there, the manager could be made, the API has given a non-empty cluster id, every controller - the
  control plane machine set controller if its CRD is enabled - has been set up with the client and
  the scheme of the manager, and the checks, the metrics service and the manager have reported no
  error: no failure but that of the CRD lookup is passed over.
\<close>

theorem startup_fails_fast:
  assumes "main pv env = Next p"
  shows "\<exists>scheme vals rest mgr clusterId cfg.
      init_scheme (Type_scheme env) = Ok scheme \<and> GetConfig_error env = None
    \<and> parse_flags (main_flags @ Other_flags env) (Args env) [] = Parsed vals rest
    \<and> NewManager env (manager_options scheme (probeAddr vals) (enableLeaderElection vals)) = Inr mgr
    \<and> ClusterVersion_Get env \<lparr>nn_Namespace = '''', nn_Name = ''version''\<rparr> = Inr clusterId \<and> clusterId \<noteq> ''''
    \<and> map (controller_of \<circ> fst) (reconcilers p) = wanted_controllers env
    \<and> (\<forall>(r, reg) \<in> set (reconcilers p).
         SetupWithManager (Network_operator env) (Builder env mgr) r = Inr reg
         \<and> Client_of r = GetClient env mgr \<and> Scheme_of r = GetScheme env mgr)
    \<and> AddHealthzCheck_error env = None \<and> AddReadyzCheck_error env = None
    \<and> exposed p = Some cfg \<and> ConfigureMetrics_error env cfg = None \<and> Start_error env = None"
proof -
  obtain scheme vals rest mgr clusterId a regs where config: "GetConfig_error env = None" and run:
      "init_scheme (Type_scheme env) = Ok scheme"
      "parse_flags (main_flags @ Other_flags env) (Args env) [] = Parsed vals rest"
      "NewManager env (manager_options scheme (probeAddr vals) (enableLeaderElection vals)) = Inr mgr"
      "getClusterID (ClusterVersion_Get env) = Inr clusterId"
      "AddHealthzCheck_error env = None" "AddReadyzCheck_error env = None"
      "ConfigureMetrics_error env (metricsConfig (GetMetrics a)) = None" "Start_error env = None"
    and regs: "list_all2 (set_up_with env mgr) (wanted_reconcilers env mgr clusterId) regs"
    and p: "p = started_process a (wanted_reconcilers env mgr clusterId) regs"
    using assms unfolding main_Next_iff by blast
  let ?rs = "wanted_reconcilers env mgr clusterId"
  have "length ?rs = length regs" using regs by (simp add: list_all2_lengthD)
  then have "map (controller_of \<circ> fst) (reconcilers p) = map controller_of ?rs"
    by (simp add: p started_process_def flip: map_map)
  then have "map (controller_of \<circ> fst) (reconcilers p) = wanted_controllers env"
    by (simp only: wanted_reconcilers_controllers)
  moreover have "\<forall>(r, reg) \<in> set (reconcilers p).
         SetupWithManager (Network_operator env) (Builder env mgr) r = Inr reg
         \<and> Client_of r = GetClient env mgr \<and> Scheme_of r = GetScheme env mgr"
    using zip_registrations [OF regs] wanted_reconcilers_fields [of env mgr clusterId]
    by (auto simp: p started_process_def set_up_with_def)
  moreover have "exposed p = Some (metricsConfig (GetMetrics a))" by (simp add: p started_process_def)
  ultimately show ?thesis using config run(1-3,5-8) run(4) [unfolded getClusterID_Inr] by blast
qed

theorem startup_fails_fast_witness:
  "\<exists>p. main map_api (good_env True []) = Next p \<and> length (reconcilers p) = 9"
proof -
  have "parse_flags main_flags [] [] = Parsed [] []" by simp
  then obtain p where p: "main map_api (good_env True []) = Next p" by (rule good_main) blast
  from startup_fails_fast [OF p]
  have "map (controller_of \<circ> fst) (reconcilers p) = wanted_controllers (good_env True [])" by blast
  then have "length (reconcilers p) = length (wanted_controllers (good_env True []))"
    by (metis length_map)
  with p show ?thesis by (simp add: wanted_controllers_def)
qed

text \<open>
  C21: The type scheme fits the program. If the packages add the types that are named after them, and
  the manager keeps the scheme it is given, then after a complete start-up the scheme of every
  reconciler knows the type that its controller watches, and every other type that the program
  reads.
\<close>

theorem watched_kinds_known:
  assumes "main pv env = Next p" and "type_scheme (Type_scheme env)"
    and "\<And>opts mgr. NewManager env opts = Inr mgr \<Longrightarrow> GetScheme env mgr = opt_Scheme opts"
    and "(r, reg) \<in> set (reconcilers p)"
  shows "Recognizes (Type_scheme env) (Scheme_of r) (reg_For reg)
    \<and> reg_For reg = watched (controller_of r) \<and> (\<forall>kind. Recognizes (Type_scheme env) (Scheme_of r) kind)"
proof -
  obtain scheme vals rest mgr clusterId a regs where run:
      "init_scheme (Type_scheme env) = Ok scheme"
      "NewManager env (manager_options scheme (probeAddr vals) (enableLeaderElection vals)) = Inr mgr"
    and regs: "list_all2 (set_up_with env mgr) (wanted_reconcilers env mgr clusterId) regs"
    and p: "p = started_process a (wanted_reconcilers env mgr clusterId) regs"
    using assms(1) unfolding main_Next_iff by blast
  have r: "r \<in> set (wanted_reconcilers env mgr clusterId)" "set_up_with env mgr r reg"
    using zip_registrations [OF regs] assms(4) by (auto simp: p started_process_def)
  have "Scheme_of r = GetScheme env mgr" using wanted_reconcilers_fields [of env mgr clusterId] r(1) by blast
  also have "\<dots> = scheme" using assms(3) [OF run(2)] by (simp add: manager_options_def)
  finally have "\<forall>kind. Recognizes (Type_scheme env) (Scheme_of r) kind"
    using type_scheme.init_recognizes [OF assms(2) run(1)] by blast
  with set_up_with_For [OF r(2)] show ?thesis by blast
qed

theorem watched_kinds_known_witness:
  "\<exists>p r reg. main map_api (good_env True []) = Next p \<and> (r, reg) \<in> set (reconcilers p)
     \<and> Recognizes (Type_scheme (good_env True [])) (Scheme_of r) Event_K"
proof -
  have "parse_flags main_flags [] [] = Parsed [] []" by simp
  then obtain p where p: "main map_api (good_env True []) = Next p" "reconcilers p \<noteq> []"
    by (rule good_main) blast
  then obtain r reg where r: "(r, reg) \<in> set (reconcilers p)" by (metis last_in_set surj_pair)
  have scheme: "type_scheme (Type_scheme (good_env True []))"
    by (simp add: list_scheme.type_scheme_axioms)
  have "\<forall>kind. Recognizes (Type_scheme (good_env True [])) (Scheme_of r) kind"
    using watched_kinds_known [OF p(1) scheme _ r] by simp
  with p(1) r show ?thesis by blast
qed

text \<open>
  The command line reaches the manager. Flags written as \<open>--name=value\<close> are read back by the
  parser, whatever text the address of the probes is, later ones overriding earlier ones; without
  them the probes are served on \<open>:8081\<close> and there is no leader election. Whatever is given, the
  metrics server of the manager stays off and Secrets are cached in \<open>openshift-config\<close> only.
\<close>

theorem command_line_read_back:
  assumes "\<forall>f \<in> set fs. good_flag main_flags f"
  shows "\<exists>vals. parse_flags (main_flags @ other) (map write_flag fs) [] = Parsed vals []
    \<and> manager_options scheme (probeAddr vals) (enableLeaderElection vals) = \<lparr>
        opt_Scheme = scheme, opt_Metrics_BindAddress = ''0'', opt_WebhookServer_Port = 9443,
        opt_HealthProbeBindAddress =
          (case map_of (rev fs) ''health-probe-bind-address'' of None \<Rightarrow> '':8081'' | Some v \<Rightarrow> v),
        opt_LeaderElection =
          (case map_of (rev fs) ''enable-leader-election'' of None \<Rightarrow> False | Some v \<Rightarrow> ParseBool v = Some True),
        opt_LeaderElectionID = ''osd-metrics-exporter-lock'',
        opt_Cache = \<lparr>DefaultNamespaces = watchNamespaces,
          ByObject_Namespaces = [(Secret_K, [(''openshift-config'', ())])]\<rparr>\<rparr>"
proof -
  let ?vals = "fold (\<lambda>f. map_put (fst f) (snd f)) fs []"
  have "good_flag (main_flags @ other) f" if "good_flag main_flags f" for f
    using that by (auto simp: good_flag_def map_add_def split: option.splits)
  with assms have "parse_flags (main_flags @ other) (map write_flag fs) [] = Parsed ?vals []"
    using parse_written [of fs "main_flags @ other" "[]" "[]"] by simp
  moreover have vals: "map_of ?vals = map_of (rev fs)" by (rule map_of_fold_put)
  have "ParseBool v \<noteq> None" if "map_of (rev fs) ''enable-leader-election'' = Some v" for v
  proof -
    from that have "(''enable-leader-election'', v) \<in> set fs" by (auto dest: map_of_SomeD)
    with assms have "good_flag main_flags (''enable-leader-election'', v)" by blast
    then show ?thesis by (simp add: good_flag_def main_flags_def)
  qed
  then have "enableLeaderElection ?vals =
      (case map_of (rev fs) ''enable-leader-election'' of None \<Rightarrow> False | Some v \<Rightarrow> ParseBool v = Some True)"
    by (cases "map_of (rev fs) ''enable-leader-election''")
      (auto simp: enableLeaderElection_def flag_bool_def vals)
  moreover have "probeAddr ?vals =
      (case map_of (rev fs) ''health-probe-bind-address'' of None \<Rightarrow> '':8081'' | Some v \<Rightarrow> v)"
    by (simp add: probeAddr_def flag_string_def vals)
  ultimately show ?thesis unfolding manager_options_def by blast
qed

theorem command_line_read_back_witness:
  "\<exists>vals. parse_flags main_flags [''--enable-leader-election=T'', ''--health-probe-bind-address=:80=x'',
        ''--enable-leader-election=0''] [] = Parsed vals []
    \<and> opt_HealthProbeBindAddress (manager_options () (probeAddr vals) (enableLeaderElection vals)) = '':80=x''
    \<and> \<not> opt_LeaderElection (manager_options () (probeAddr vals) (enableLeaderElection vals))"
proof -
  let ?fs = "[(''enable-leader-election'', ''T''), (''health-probe-bind-address'', '':80=x''),
    (''enable-leader-election'', ''0'')]"
  have "\<forall>f \<in> set ?fs. good_flag main_flags f" by (simp add: good_flag_def main_flags_def ParseBool_def)
  from command_line_read_back [OF this, of "[]" "()"] show ?thesis
    by (auto simp: write_flag_def ParseBool_def)
qed

end
