(* ===== verification/Cached_Reads.thy ===== *)
theory Cached_Reads
  imports Manager
begin

section \<open>Reading through the caches of the manager\<close>

text \<open>
  The client of the manager answers reads from caches, which hold the namespaces that \<open>main\<close> lists
  in its options and, of cluster-scoped types, every object; outside them a read fails with an error that is not
  the one for a missing object. The reconcilers use fixed namespaces of their own, so whether the two lists fit each
  other is a property of the whole program. Which namespaces a cache holds is a parameter with the documented behaviour of
  the options as its laws. A client with these caches is compared with one whose caches hold all namespaces,
  in whatever state the caches are: nothing is assumed about how far they are behind the API server.
\<close>

fun namespaced :: "object_kind \<Rightarrow> bool" where
  "namespaced ConfigMap_K = True"
| "namespaced Machine_K = True"
| "namespaced Event_K = True"
| "namespaced Secret_K = True"
| "namespaced ControlPlaneMachineSet_K = True"
| "namespaced kind = False"

locale namespace_cache =
  fixes holds :: "cache_options \<Rightarrow> object_kind \<Rightarrow> string \<Rightarrow> bool"
  assumes by_object: "namespaced kind \<Longrightarrow> map_of (ByObject_Namespaces c) kind = Some m \<Longrightarrow>
      ns \<in> dom (map_of m) \<Longrightarrow> holds c kind ns"
    and by_default: "namespaced kind \<Longrightarrow> map_of (ByObject_Namespaces c) kind = None \<Longrightarrow>
      ns \<in> dom (map_of (DefaultNamespaces c)) \<Longrightarrow> holds c kind ns"
    and cluster_scoped: "\<not> namespaced kind \<Longrightarrow> holds c kind ''''"
begin

lemma holds_default:
  assumes "ns \<in> {''openshift-osd-metrics'', ''openshift-config'', ''openshift-machine-api''}"
    and "namespaced kind" and "kind \<noteq> Secret_K"
  shows "holds (opt_Cache (manager_options scheme addr leader)) kind ns"
  using assms by (intro by_default) (auto simp: manager_options_def watchNamespaces_def)

lemma holds_secrets: "holds (opt_Cache (manager_options scheme addr leader)) Secret_K ''openshift-config''"
  by (rule by_object [where m = "[(''openshift-config'', ())]"]) (simp_all add: manager_options_def)

end

text \<open>A cache with exactly the namespaces that are listed.\<close>

definition listed :: "cache_options \<Rightarrow> object_kind \<Rightarrow> string \<Rightarrow> bool" where
  "listed c kind ns =
     (if namespaced kind
      then ns \<in> fst ` set (case map_of (ByObject_Namespaces c) kind of None \<Rightarrow> DefaultNamespaces c | Some m \<Rightarrow> m)
      else ns = '''')"

interpretation listed: namespace_cache listed
  by unfold_locales (auto simp: listed_def dom_map_of_conv_image_fst)

text \<open>Two clients that write alike and give the same answers, right or outdated, about the namespaces held.\<close>

definition reads_through :: "(string \<Rightarrow> bool) \<Rightarrow> ('w, 'o, 'e) client \<Rightarrow> ('w, 'o, 'e) client \<Rightarrow> bool" where
  "reads_through held k kc \<longleftrightarrow>
     Update kc = Update k \<and> IsNotFound kc = IsNotFound k \<and> AddFinalizer kc = AddFinalizer k
     \<and> RemoveFinalizer kc = RemoveFinalizer k
     \<and> (\<forall>w key. held (nn_Namespace key) \<longrightarrow> Get kc w key = Get k w key)"

definition lists_through :: "(string \<Rightarrow> bool) \<Rightarrow> ('w, 'e) event_lister \<Rightarrow> ('w, 'e) event_lister \<Rightarrow> bool" where
  "lists_through held el elc \<longleftrightarrow> (\<forall>w ns name. held ns \<longrightarrow> elc w ns name = el w ns name)"

text \<open>
  What the options do to a client: a read outside the namespaces held fails, everything else is as with caches of
  all namespaces.
\<close>

definition restricted :: "(string \<Rightarrow> bool) \<Rightarrow> 'e \<Rightarrow> ('w, 'o, 'e) client \<Rightarrow> ('w, 'o, 'e) client \<Rightarrow> bool" where
  "restricted held outside k kc \<longleftrightarrow> reads_through held k kc \<and> \<not> IsNotFound k outside
     \<and> (\<forall>w key. \<not> held (nn_Namespace key) \<longrightarrow> Get kc w key = Inl outside)"

text \<open>The client that misses where nothing is held.\<close>

definition cached :: "(string \<Rightarrow> bool) \<Rightarrow> 'e \<Rightarrow> ('w, 'o, 'e) client \<Rightarrow> ('w, 'o, 'e) client" where
  "cached held miss k = k\<lparr>Get := \<lambda>w key. if held (nn_Namespace key) then Get k w key else Inl miss\<rparr>"

lemma cached_restricted: "\<not> IsNotFound k miss \<Longrightarrow> restricted held miss k (cached held miss k)"
  by (simp add: restricted_def reads_through_def cached_def)

lemma restricted_reads: "restricted held outside k kc \<Longrightarrow> reads_through held k kc"
  by (simp add: restricted_def)

lemma restricted_fails:
  assumes "restricted held outside k kc" and "\<not> held ns" and "nn_Namespace key = ns"
  shows "Get kc w key = Inl outside" and "\<not> IsNotFound kc outside"
  using assms by (auto simp: restricted_def reads_through_def)

named_theorems cached_reconcile "a reconciler behind a cache does what it does without one"

lemma reads_through_same:
  assumes "reads_through held k kc"
  shows "Update kc = Update k" and "IsNotFound kc = IsNotFound k" and "AddFinalizer kc = AddFinalizer k"
    and "RemoveFinalizer kc = RemoveFinalizer k"
  using assms by (simp_all add: reads_through_def)

lemma reads_through_get:
  "reads_through held k kc \<Longrightarrow> nn_Namespace key = ns \<Longrightarrow> held ns \<Longrightarrow> Get kc w key = Get k w key"
  by (simp add: reads_through_def)

lemma ClusterRole_cached [cached_reconcile]:
  assumes "reads_through held k kc" and "held (nn_Namespace req)"
  shows "ClusterRoleReconcile kc req w = ClusterRoleReconcile k req w"
  unfolding ClusterRoleReconcile_def reads_through_same [OF assms(1)]
    reads_through_get [OF assms(1) refl assms(2)] ..

lemma ConfigMap_cached [cached_reconcile]:
  assumes "reads_through held k kc" and "held (ADDL_TRUST_BUNDLE_CONFIGMAP_NS cno)"
  shows "ConfigMapReconcile kc cno pv cid req w a = ConfigMapReconcile k cno pv cid req w a"
proof -
  have "nn_Namespace (ca_bundle_key cno) = ADDL_TRUST_BUNDLE_CONFIGMAP_NS cno" by (simp add: ca_bundle_key_def)
  from reads_through_get [OF assms(1) this assms(2)] show ?thesis
    unfolding ConfigMapReconcile_def reads_through_same [OF assms(1)] by presburger
qed

lemma Group_cached [cached_reconcile]:
  assumes "reads_through held k kc" and "held (nn_Namespace req)"
  shows "GroupReconcile kc pv cid req w a = GroupReconcile k pv cid req w a"
  unfolding GroupReconcile_def reads_through_same [OF assms(1)]
    reads_through_get [OF assms(1) refl assms(2)] ..

lemma fixed_keys:
  "nn_Namespace limited_support_key = limitedSupportConfigMapNamespace"
  "nn_Namespace pull_secret_key = pullSecretNamespace"
  "nn_Namespace cpms_key = cpmsNamespace"
  "nn_Namespace (machine_key req) = machineNamespace"
  by (simp_all add: limited_support_key_def pull_secret_key_def cpms_key_def)

lemma LimitedSupport_cached [cached_reconcile]:
  assumes "reads_through held k kc" and "held limitedSupportConfigMapNamespace"
  shows "LimitedSupportReconcile kc pv cid req w a = LimitedSupportReconcile k pv cid req w a"
  unfolding LimitedSupportReconcile_def reads_through_same [OF assms(1)]
    reads_through_get [OF assms(1) fixed_keys(1) assms(2)] ..

lemma Machine_cached [cached_reconcile]:
  assumes "reads_through held k kc" and "lists_through held' el elc"
    and "held machineNamespace" and "held' machineNamespace"
  shows "MachineReconcile kc elc pv now req w a = MachineReconcile k el pv now req w a"
proof -
  have events: "elc w ''openshift-machine-api'' name = el w ''openshift-machine-api'' name" for w name
    using assms(2,4) by (simp add: lists_through_def machineNamespace_def)
  have eval: "evaluateDeletingMachine elc pv now machine w a = evaluateDeletingMachine el pv now machine w a"
    for machine w a unfolding evaluateDeletingMachine_def events ..
  show ?thesis
    unfolding MachineReconcile_def reads_through_same [OF assms(1)] eval
      reads_through_get [OF assms(1) fixed_keys(4) assms(3)] ..
qed

lemma OAuth_cached [cached_reconcile]:
  assumes "reads_through held k kc" and "held (nn_Namespace req)"
  shows "OAuthReconcile kc req w a = OAuthReconcile k req w a"
  unfolding OAuthReconcile_def reads_through_same [OF assms(1)]
    reads_through_get [OF assms(1) refl assms(2)] ..

lemma Proxy_cached [cached_reconcile]:
  assumes "reads_through held k kc" and "held (nn_Namespace req)"
  shows "ProxyReconcile kc pv cid req w a = ProxyReconcile k pv cid req w a"
  unfolding ProxyReconcile_def reads_through_same [OF assms(1)]
    reads_through_get [OF assms(1) refl assms(2)] ..

lemma PullSecret_cached [cached_reconcile]:
  assumes "reads_through held k kc" and "held pullSecretNamespace"
  shows "PullSecretReconcile kc pv cid req w a = PullSecretReconcile k pv cid req w a"
  unfolding PullSecretReconcile_def reads_through_same [OF assms(1)]
    reads_through_get [OF assms(1) fixed_keys(2) assms(2)] ..

lemma CPMS_cached [cached_reconcile]:
  assumes "reads_through held k kc" and "held cpmsNamespace"
  shows "CPMSReconcile kc dec pv cid req w a = CPMSReconcile k dec pv cid req w a"
  unfolding CPMSReconcile_def reads_through_same [OF assms(1)]
    reads_through_get [OF assms(1) fixed_keys(3) assms(2)] ..

text \<open>
  C13: The namespaces that \<open>main\<close> lists for its caches are enough for its reconcilers, and each of the fixed ones is
  needed. With these options every reconciler gives the same outcome, the same writes and the same metrics as with caches
  that hold all namespaces, in whatever state the caches are (they may lag behind the API server): the namespaces of the limited
  support config map, the CA bundle (the network operator's constant for it being openshift-config), the pull secret, the machines with their events and the
  control plane machine set are all held, and the other types are cluster-scoped, so that requests for them have no namespace. With options under which one of these
  namespaces is not held, the reconciler that reads there fails whatever the cluster holds, with the error of the cache,
  and it reports nothing (the one for the CA bundle only withdraws what it has reported before).
\<close>

theorem cache_is_invisible:
  assumes "namespace_cache holds" and "cache = opt_Cache (manager_options scheme addr leader)"
    and "\<And>c. restricted (holds c ClusterRole_K) outside k_role (k_role' c)"
    and "\<And>c. restricted (holds c ConfigMap_K) outside k_cm (k_cm' c)"
    and "\<And>c. restricted (holds c Group_K) outside k_group (k_group' c)"
    and "\<And>c. restricted (holds c Machine_K) outside k_machine (k_machine' c)"
    and "\<And>c. lists_through (holds c Event_K) el (el' c)"
    and "\<And>c. restricted (holds c OAuth_K) outside k_oauth (k_oauth' c)"
    and "\<And>c. restricted (holds c Proxy_K) outside k_proxy (k_proxy' c)"
    and "\<And>c. restricted (holds c Secret_K) outside k_secret (k_secret' c)"
    and "\<And>c. restricted (holds c ControlPlaneMachineSet_K) outside k_cpms (k_cpms' c)"
    and "ADDL_TRUST_BUNDLE_CONFIGMAP_NS cno = ''openshift-config''"
    and "nn_Namespace unscoped = ''''"
  shows "ClusterRoleReconcile (k_role' cache) unscoped w = ClusterRoleReconcile k_role unscoped w
    \<and> ConfigMapReconcile (k_cm' cache) cno pv cid req w a = ConfigMapReconcile k_cm cno pv cid req w a
    \<and> GroupReconcile (k_group' cache) pv cid unscoped w a = GroupReconcile k_group pv cid unscoped w a
    \<and> LimitedSupportReconcile (k_cm' cache) pv cid req w a = LimitedSupportReconcile k_cm pv cid req w a
    \<and> MachineReconcile (k_machine' cache) (el' cache) pv now req w a = MachineReconcile k_machine el pv now req w a
    \<and> OAuthReconcile (k_oauth' cache) unscoped w a = OAuthReconcile k_oauth unscoped w a
    \<and> ProxyReconcile (k_proxy' cache) pv cid unscoped w a = ProxyReconcile k_proxy pv cid unscoped w a
    \<and> PullSecretReconcile (k_secret' cache) pv cid req w a = PullSecretReconcile k_secret pv cid req w a
    \<and> CPMSReconcile (k_cpms' cache) dec pv cid req w a = CPMSReconcile k_cpms dec pv cid req w a
    \<and> (\<not> holds c ConfigMap_K ''openshift-config'' \<longrightarrow> ConfigMapReconcile (k_cm' c) cno pv cid req w a =
        (Returned empty_Result (Some (LibError outside)), w, ResetClusterProxyCAValid pv (ResetClusterProxyCAExpiry pv a)))
    \<and> (\<not> holds c ConfigMap_K ''openshift-osd-metrics'' \<longrightarrow> LimitedSupportReconcile (k_cm' c) pv cid req w a =
        (Returned empty_Result (Some (LibError outside)), w, a))
    \<and> (\<not> holds c Machine_K ''openshift-machine-api'' \<longrightarrow> MachineReconcile (k_machine' c) (el' c) pv now req w a =
        (RequeueWithError (LibError outside), w, a))
    \<and> (\<not> holds c Secret_K ''openshift-config'' \<longrightarrow> PullSecretReconcile (k_secret' c) pv cid req w a =
        (Returned empty_Result (Some (LibError outside)), w, a))
    \<and> (\<not> holds c ControlPlaneMachineSet_K ''openshift-machine-api'' \<longrightarrow> CPMSReconcile (k_cpms' c) dec pv cid req w a =
        (RequeueWithError (LibError outside), w, a))"
proof -
  note cache = namespace_cache.holds_default [OF assms(1)] namespace_cache.holds_secrets [OF assms(1)]
    namespace_cache.cluster_scoped [OF assms(1)]
  have "holds cache ConfigMap_K ''openshift-config''" "holds cache ConfigMap_K ''openshift-osd-metrics''"
    "holds cache Machine_K machineNamespace" "holds cache Event_K machineNamespace"
    "holds cache Secret_K pullSecretNamespace" "holds cache ControlPlaneMachineSet_K cpmsNamespace"
    "holds cache ClusterRole_K ''''" "holds cache Group_K ''''" "holds cache OAuth_K ''''" "holds cache Proxy_K ''''"
    by (simp_all add: assms(2) cache machineNamespace_def pullSecretNamespace_def cpmsNamespace_def)
  then have "ClusterRoleReconcile (k_role' cache) unscoped w = ClusterRoleReconcile k_role unscoped w
    \<and> ConfigMapReconcile (k_cm' cache) cno pv cid req w a = ConfigMapReconcile k_cm cno pv cid req w a
    \<and> GroupReconcile (k_group' cache) pv cid unscoped w a = GroupReconcile k_group pv cid unscoped w a
    \<and> LimitedSupportReconcile (k_cm' cache) pv cid req w a = LimitedSupportReconcile k_cm pv cid req w a
    \<and> MachineReconcile (k_machine' cache) (el' cache) pv now req w a = MachineReconcile k_machine el pv now req w a
    \<and> OAuthReconcile (k_oauth' cache) unscoped w a = OAuthReconcile k_oauth unscoped w a
    \<and> ProxyReconcile (k_proxy' cache) pv cid unscoped w a = ProxyReconcile k_proxy pv cid unscoped w a
    \<and> PullSecretReconcile (k_secret' cache) pv cid req w a = PullSecretReconcile k_secret pv cid req w a
    \<and> CPMSReconcile (k_cpms' cache) dec pv cid req w a = CPMSReconcile k_cpms dec pv cid req w a"
    using assms(3-6,8-11) [of cache, THEN restricted_reads] assms(7) [of cache] assms(12,13)
    by (intro conjI cached_reconcile) (assumption | simp add: limitedSupportConfigMapNamespace_def)+
  moreover have "ConfigMapReconcile (k_cm' c) cno pv cid req w a =
      (Returned empty_Result (Some (LibError outside)), w, ResetClusterProxyCAValid pv (ResetClusterProxyCAExpiry pv a))"
    if "\<not> holds c ConfigMap_K ''openshift-config''"
    using restricted_fails [OF assms(4) that, of "ca_bundle_key cno"] assms(12)
    by (simp add: ConfigMapReconcile_def ca_bundle_key_def Let_def)
  moreover have "LimitedSupportReconcile (k_cm' c) pv cid req w a = (Returned empty_Result (Some (LibError outside)), w, a)"
    if "\<not> holds c ConfigMap_K ''openshift-osd-metrics''"
    using restricted_fails [OF assms(4) that, of limited_support_key]
    by (simp add: LimitedSupportReconcile_def fixed_keys limitedSupportConfigMapNamespace_def)
  moreover have "MachineReconcile (k_machine' c) (el' c) pv now req w a = (RequeueWithError (LibError outside), w, a)"
    if "\<not> holds c Machine_K ''openshift-machine-api''"
    using restricted_fails [OF assms(6) that, of "machine_key req"]
    by (simp add: MachineReconcile_def machineNamespace_def)
  moreover have "PullSecretReconcile (k_secret' c) pv cid req w a = (Returned empty_Result (Some (LibError outside)), w, a)"
    if "\<not> holds c Secret_K ''openshift-config''"
    using restricted_fails [OF assms(10) that, of pull_secret_key]
    by (simp add: PullSecretReconcile_def fixed_keys pullSecretNamespace_def)
  moreover have "CPMSReconcile (k_cpms' c) dec pv cid req w a = (RequeueWithError (LibError outside), w, a)"
    if "\<not> holds c ControlPlaneMachineSet_K ''openshift-machine-api''"
    using restricted_fails [OF assms(11) that, of cpms_key]
    by (simp add: CPMSReconcile_def fixed_keys cpmsNamespace_def)
  ultimately show ?thesis by blast
qed

text \<open>
  With the options of \<open>main\<close> the pull secret is read as it is in the cache; with the machine namespace only, the
  reconcile fails.
\<close>

theorem cache_is_invisible_witness:
  "\<forall>req w (a :: map_vec AdoptionMetricsAggregator).
     PullSecretReconcile (cached (listed (opt_Cache (manager_options () '':8081'' False)) Secret_K) Mem_Timeout
       (secret_client None)) map_api ''c1'' req w a = PullSecretReconcile (secret_client None) map_api ''c1'' req w a
   \<and> PullSecretReconcile (cached (listed \<lparr>DefaultNamespaces = [(''openshift-machine-api'', ())], ByObject_Namespaces = []\<rparr> Secret_K)
       Mem_Timeout (secret_client None)) map_api ''c1'' req w a = (Returned empty_Result (Some (LibError Mem_Timeout)), w, a)"
proof (intro allI)
  fix req w and a :: "map_vec AdoptionMetricsAggregator"
  let ?c = "\<lparr>DefaultNamespaces = [(''openshift-machine-api'', ())], ByObject_Namespaces = []\<rparr>"
  let ?el = "\<lambda>w ns name. Inr [] :: mem_error + Event list"
  have absent: "restricted (listed c kind) Mem_Timeout absent_client (cached (listed c kind) Mem_Timeout absent_client)" for c kind
    by (rule cached_restricted) (simp add: absent_client_def)
  have secret: "restricted (listed c Secret_K) Mem_Timeout (secret_client None) (cached (listed c Secret_K) Mem_Timeout (secret_client None))" for c
    by (rule cached_restricted) (simp add: secret_client_def)
  have events: "lists_through (listed c Event_K) ?el ?el" for c by (simp add: lists_through_def)
  have cno: "ADDL_TRUST_BUNDLE_CONFIGMAP_NS one_cert_operator = ''openshift-config''" by (simp add: one_cert_operator_def)
  have unscoped: "nn_Namespace \<lparr>nn_Namespace = '''', nn_Name = ''cluster''\<rparr> = ''''" by simp
  have outside: "\<not> listed ?c Secret_K ''openshift-config''" by (simp add: listed_def)
  note served = cache_is_invisible [OF listed.namespace_cache_axioms refl absent absent absent absent events absent absent secret absent
      cno unscoped, where scheme = "()" and addr = "'':8081''" and leader = False and w = w and pv = map_api and
      cid = "''c1''" and req = req and a = a and now = 0 and dec = text_decoders and c = ?c]
  from served have "PullSecretReconcile (cached (listed (opt_Cache (manager_options () '':8081'' False)) Secret_K) Mem_Timeout
       (secret_client None)) map_api ''c1'' req w a = PullSecretReconcile (secret_client None) map_api ''c1'' req w a"
    by (elim conjE)
  moreover from served have "\<not> listed ?c Secret_K ''openshift-config'' \<longrightarrow>
      PullSecretReconcile (cached (listed ?c Secret_K) Mem_Timeout (secret_client None)) map_api ''c1'' req w a =
        (Returned empty_Result (Some (LibError Mem_Timeout)), w, a)"
    by (elim conjE)
  ultimately show "PullSecretReconcile (cached (listed (opt_Cache (manager_options () '':8081'' False)) Secret_K) Mem_Timeout
       (secret_client None)) map_api ''c1'' req w a = PullSecretReconcile (secret_client None) map_api ''c1'' req w a
   \<and> PullSecretReconcile (cached (listed ?c Secret_K) Mem_Timeout (secret_client None)) map_api ''c1'' req w a =
       (Returned empty_Result (Some (LibError Mem_Timeout)), w, a)"
    using outside by (intro conjI) (assumption, erule mp, assumption)
qed

end
