(* ===== verification/Event_Index.thy ===== *)
theory Event_Index
  imports Machine_Controller
begin

section \<open>The index on events\<close>

text \<open>
  The machine controller lists the events of its namespace by the field \<open>involvedObject.name\<close>, for which
  \<open>SetupWithManager\<close> registers \<open>machine_indexer\<close>. The locale is the contract of such a list:
  exactly the stored events of the namespace for which the index gives the value asked for. Under
  it the evidence for a drain report can be traced to the events of the cluster.
\<close>

locale field_index =
  fixes el :: "('w, 'e) event_lister"
    and stored_events :: "'w \<Rightarrow> string \<Rightarrow> Event list"
    and index :: "Event \<Rightarrow> string list"
  assumes listed: "el w ns name = Inr events \<Longrightarrow>
    set events = {e \<in> set (stored_events w ns). name \<in> set (index e)}"
begin

lemma newest_of_stored:
  assumes "el w ns name = Inr events" and "newest_failure events e"
  shows "e \<in> set (stored_events w ns)" and "name \<in> set (index e)" and "isErrorEvictingPodsEvent e"
    and "e' \<in> set (stored_events w ns) \<Longrightarrow> name \<in> set (index e') \<Longrightarrow> isErrorEvictingPodsEvent e' \<Longrightarrow>
      ev_LastTimestamp e' \<le> ev_LastTimestamp e"
proof -
  obtain pre post where split: "events = pre @ e # post" "isErrorEvictingPodsEvent e"
      "\<forall>e' \<in> set pre. isErrorEvictingPodsEvent e' \<longrightarrow> ev_LastTimestamp e' < ev_LastTimestamp e"
      "\<forall>e' \<in> set post. isErrorEvictingPodsEvent e' \<longrightarrow> ev_LastTimestamp e' \<le> ev_LastTimestamp e"
    using assms(2) by (auto simp: newest_failure_def)
  have "e \<in> set events" using split(1) by simp
  with listed [OF assms(1)] split(2) show "e \<in> set (stored_events w ns)" "name \<in> set (index e)"
    "isErrorEvictingPodsEvent e" by simp_all
  assume "e' \<in> set (stored_events w ns)" "name \<in> set (index e')" and failed: "isErrorEvictingPodsEvent e'"
  then have "e' \<in> set events" using listed [OF assms(1)] by simp
  with split(1,3,4) failed show "ev_LastTimestamp e' \<le> ev_LastTimestamp e" by fastforce
qed

end

text \<open>The list that filters by the index.\<close>

definition indexed_lister :: "('w \<Rightarrow> string \<Rightarrow> Event list) \<Rightarrow> (Event \<Rightarrow> string list) \<Rightarrow> ('w, 'e) event_lister" where
  "indexed_lister stored index w ns name = Inr (filter (\<lambda>e. name \<in> set (index e)) (stored w ns))"

interpretation machine_events: field_index "indexed_lister stored machine_indexer" stored machine_indexer
  for stored by unfold_locales (auto simp: indexed_lister_def)

text \<open>
  C30: A pod is newly exported as blocking the drain of a machine only on the evidence of the cluster:
  among the stored events of the machine namespace about an object of the machine's name there is
  a failed eviction, not older than the deletion of the machine, which was more than a quarter of
  an hour ago, that mentions the pod and its namespace; and no other failed eviction stored for
  that name is newer. Events of other objects and of other namespaces play no part.
\<close>

theorem drain_report_from_own_event:
  assumes "gauge_vec pv" and "agg_wf pv a" and "valid_nodes k"
    and "field_index lister stored machine_indexer"
    and "Get k w (machine_key req) = Inr machine"
    and "MachineReconcile k lister pv now req w a = (out, w', a')"
    and "exported pv a' Pods_Preventing_Node_Drain [p, ns, n1, n2, m] = Some 1"
    and "exported pv a Pods_Preventing_Node_Drain [p, ns, n1, n2, m] \<noteq> Some 1"
  shows "m = m_Name (machine_meta machine) \<and> status_NodeRef machine = Some n1 \<and> n2 = n1
    \<and> status_Phase machine = Some ''Deleting'' \<and> \<not> strings_Contains ns ''openshift-''
    \<and> (\<exists>deleted e. m_DeletionTimestamp (machine_meta machine) = Some deleted \<and> deleted + 15 * Minute < now
        \<and> e \<in> set (stored w machineNamespace) \<and> ev_InvolvedObject e = m \<and> isErrorEvictingPodsEvent e
        \<and> deleted \<le> ev_LastTimestamp e \<and> strings_Contains (ev_Message e) (pod_text p ns)
        \<and> (\<forall>e' \<in> set (stored w machineNamespace). ev_InvolvedObject e' = m \<longrightarrow>
             isErrorEvictingPodsEvent e' \<longrightarrow> ev_LastTimestamp e' \<le> ev_LastTimestamp e))"
proof -
  note new = machine_new_series [OF assms(1-3,5-8)]
  obtain node pods where *: "is_deleting machine" "machine_verdict lister now machine w = Report node pods"
    "m = m_Name (machine_meta machine)" "n1 = node" "n2 = node" "(p, ns) \<in> set pods" by (rule new)
  from *(2) obtain deleted events e where v: "m_DeletionTimestamp (machine_meta machine) = Some deleted"
    "deleted + 15 * Minute < now" "status_NodeRef machine = Some node"
    "lister w machineNamespace (m_Name (machine_meta machine)) = Inr events"
    "newest_failure events e" "deleted \<le> ev_LastTimestamp e" "pods = parsePodsAndNamespacesFromEvent e"
    by (rule verdict_report)
  have mentions: "strings_Contains (ev_Message e) (pod_text p ns)" "\<not> strings_Contains ns ''openshift-''"
    using parse_entry [OF *(6) [unfolded v(7)]]
    by (auto simp: customer_pods_def set_pod_mentions strings_Contains_sublist)
  note newest = field_index.newest_of_stored [OF assms(4) v(4,5)]
  have "ev_LastTimestamp e' \<le> ev_LastTimestamp e"
    if "e' \<in> set (stored w machineNamespace)" "ev_InvolvedObject e' = m" "isErrorEvictingPodsEvent e'" for e'
    using newest(4) that *(3) by (simp add: machine_indexer_def)
  then show ?thesis
    using * v(1-3,6) mentions newest(1-3) by (auto simp: is_deleting_def machine_indexer_def)
qed

text \<open>A cluster with the event of the stuck machine and one of another machine.\<close>

definition two_events :: "unit \<Rightarrow> string \<Rightarrow> Event list" where
  "two_events w ns = [(drain_failure (pod_text ''db'' ''shop'') 3)\<lparr>ev_InvolvedObject := ''m2''\<rparr>,
     drain_failure (pod_text ''web'' ''shop'') 2]"

theorem drain_report_from_own_event_witness:
  "\<exists>out a' e. MachineReconcile (machine_client (Some stuck_machine)) (indexed_lister two_events machine_indexer)
      map_api (16 * Minute) machine_request () (new_collector map_api Minute) = (out, (), a')
    \<and> exported map_api a' Pods_Preventing_Node_Drain [''web'', ''shop'', ''n1'', ''n1'', ''m1''] = Some 1
    \<and> e \<in> set (two_events () machineNamespace) \<and> ev_InvolvedObject e = ''m1''"
proof -
  let ?el = "indexed_lister two_events machine_indexer :: (unit, mem_error) event_lister"
  have "?el () machineNamespace ''m1'' = Inr stuck_events"
    by (simp add: indexed_lister_def two_events_def machine_indexer_def drain_failure_def)
  then obtain out a' where stuck:
      "Get (machine_client (Some stuck_machine)) () (machine_key machine_request) = Inr stuck_machine"
      "MachineReconcile (machine_client (Some stuck_machine)) ?el map_api (16 * Minute)
        machine_request () (new_collector map_api Minute) = (out, (), a')"
      "exported map_api a' Pods_Preventing_Node_Drain [''web'', ''shop'', ''n1'', ''n1'', ''m1''] = Some 1"
      "exported map_api (new_collector map_api Minute) Pods_Preventing_Node_Drain
        [''web'', ''shop'', ''n1'', ''n1'', ''m1''] \<noteq> Some 1"
    by (rule stuck_machine_reported)
  from drain_report_from_own_event [OF map_api_gauges new_collector_map_wf machine_client_valid(1)
      machine_events.field_index_axioms stuck] stuck
  show ?thesis by blast
qed

end
