(* ===== verification/Work_Queue.thy ===== *)
theory Work_Queue
  imports System Startup_Properties
begin

section \<open>Events and the work queue\<close>

text \<open>
  A reconcile runs because a request for it is in the queue of its controller. The informers of the
  manager announce every change of an object that a reader can see by an event; a controller whose
  registration lets the event pass gets a request for the object; a request is taken from the
  queue, answered by one reconcile, and put back if that fails, panics or asks for it. Delays and
  back-off only say when a request is taken up again, and are left open. A state holds the cluster,
  the aggregator, the events on their way and the requests that wait. In place of a
  reconcile at any time, as in \<open>System\<close>, there is now a reason for each, so that it becomes a
  question whether any change can go unnoticed.
\<close>

subsection \<open>The reconcilers by their controllers\<close>

fun Reconcile :: "('w, 'g, 'cm, 'e) operator \<Rightarrow> instant \<Rightarrow> controller \<Rightarrow> NamespacedName
    \<Rightarrow> 'w \<Rightarrow> 'g AdoptionMetricsAggregator \<Rightarrow> 'e outcome \<times> 'w \<times> 'g AdoptionMetricsAggregator" where
  "Reconcile oper now ClusterRole_C req w a =
     (case ClusterRoleReconcile (op_role_client oper) req w of (out, w') \<Rightarrow> (out, w', a))"
| "Reconcile oper now ConfigMap_C req w a = ConfigMapReconcile (op_configmap_client oper)
     (op_network_operator oper) (op_gauges oper) (op_clusterId oper) req w a"
| "Reconcile oper now Group_C req w a =
     GroupReconcile (op_group_client oper) (op_gauges oper) (op_clusterId oper) req w a"
| "Reconcile oper now LimitedSupport_C req w a =
     LimitedSupportReconcile (op_configmap_client oper) (op_gauges oper) (op_clusterId oper) req w a"
| "Reconcile oper now Machine_C req w a =
     MachineReconcile (op_machine_client oper) (op_events oper) (op_gauges oper) now req w a"
| "Reconcile oper now OAuth_C req w a = OAuthReconcile (op_oauth_client oper) req w a"
| "Reconcile oper now Proxy_C req w a =
     ProxyReconcile (op_proxy_client oper) (op_gauges oper) (op_clusterId oper) req w a"
| "Reconcile oper now PullSecret_C req w a =
     PullSecretReconcile (op_secret_client oper) (op_gauges oper) (op_clusterId oper) req w a"
| "Reconcile oper now CPMS_C req w a =
     CPMSReconcile (op_cpms_client oper) (op_decoders oper) (op_gauges oper) (op_clusterId oper) req w a"

lemma Reconcile_step:
  "Reconcile oper now c req w a = (out, w', a') \<Longrightarrow> system_step oper (Ran c) (w, a) (w', a')"
  by (cases c) (auto intro: system_step.intros split: prod.splits)

text \<open>A request comes back after a panic, which the queue recovers, after an error, and on demand.\<close>

definition asks_again :: "'e outcome \<Rightarrow> bool" where
  "asks_again out = (case out of Panicking \<Rightarrow> True
     | Returned r err \<Rightarrow> err \<noteq> None \<or> res_Requeue r \<or> res_RequeueAfter r > 0)"

lemma asks_again_simps [simp]:
  "\<not> asks_again (Returned empty_Result None)" "asks_again (Returned r (Some err))" "asks_again Panicking"
  "\<not> asks_again DoNotRequeue" "asks_again (RequeueWithError err)" "asks_again (RequeueAfter d) \<longleftrightarrow> d > 0"
  by (simp_all add: asks_again_def empty_Result_def DoNotRequeue_def RequeueWithError_def RequeueAfter_def)

subsection \<open>The objects in view\<close>

text \<open>What the readers of each kind can see, and when two worlds agree on an object.\<close>

record ('w, 'cm) object_views =
  view_roles :: "'w \<Rightarrow> NamespacedName \<Rightarrow> ClusterRole option"
  view_configmaps :: "'w \<Rightarrow> NamespacedName \<Rightarrow> 'cm option"
  view_groups :: "'w \<Rightarrow> NamespacedName \<Rightarrow> Group option"
  view_machines :: "'w \<Rightarrow> NamespacedName \<Rightarrow> Machine option"
  view_oauths :: "'w \<Rightarrow> NamespacedName \<Rightarrow> OAuth option"
  view_proxies :: "'w \<Rightarrow> NamespacedName \<Rightarrow> Proxy option"
  view_secrets :: "'w \<Rightarrow> NamespacedName \<Rightarrow> Secret option"
  view_cpms :: "'w \<Rightarrow> NamespacedName \<Rightarrow> ControlPlaneMachineSet option"

fun same_object :: "('w, 'cm) object_views \<Rightarrow> 'w \<Rightarrow> 'w \<Rightarrow> object_kind \<Rightarrow> NamespacedName \<Rightarrow> bool" where
  "same_object vs w w' ClusterRole_K key \<longleftrightarrow> view_roles vs w' key = view_roles vs w key"
| "same_object vs w w' ConfigMap_K key \<longleftrightarrow> view_configmaps vs w' key = view_configmaps vs w key"
| "same_object vs w w' Group_K key \<longleftrightarrow> view_groups vs w' key = view_groups vs w key"
| "same_object vs w w' Machine_K key \<longleftrightarrow> view_machines vs w' key = view_machines vs w key"
| "same_object vs w w' OAuth_K key \<longleftrightarrow> view_oauths vs w' key = view_oauths vs w key"
| "same_object vs w w' Proxy_K key \<longleftrightarrow> view_proxies vs w' key = view_proxies vs w key"
| "same_object vs w w' Secret_K key \<longleftrightarrow> view_secrets vs w' key = view_secrets vs w key"
| "same_object vs w w' ControlPlaneMachineSet_K key \<longleftrightarrow> view_cpms vs w' key = view_cpms vs w key"
| "same_object vs w w' ClusterVersion_K key \<longleftrightarrow> True"
| "same_object vs w w' Event_K key \<longleftrightarrow> True"

fun object_exists :: "('w, 'cm) object_views \<Rightarrow> 'w \<Rightarrow> object_kind \<Rightarrow> NamespacedName \<Rightarrow> bool" where
  "object_exists vs w ClusterRole_K key \<longleftrightarrow> view_roles vs w key \<noteq> None"
| "object_exists vs w ConfigMap_K key \<longleftrightarrow> view_configmaps vs w key \<noteq> None"
| "object_exists vs w Group_K key \<longleftrightarrow> view_groups vs w key \<noteq> None"
| "object_exists vs w Machine_K key \<longleftrightarrow> view_machines vs w key \<noteq> None"
| "object_exists vs w OAuth_K key \<longleftrightarrow> view_oauths vs w key \<noteq> None"
| "object_exists vs w Proxy_K key \<longleftrightarrow> view_proxies vs w key \<noteq> None"
| "object_exists vs w Secret_K key \<longleftrightarrow> view_secrets vs w key \<noteq> None"
| "object_exists vs w ControlPlaneMachineSet_K key \<longleftrightarrow> view_cpms vs w key \<noteq> None"
| "object_exists vs w ClusterVersion_K key \<longleftrightarrow> False"
| "object_exists vs w Event_K key \<longleftrightarrow> False"

lemma same_object_refl [simp]: "same_object vs w w kind key"
  by (cases kind) simp_all

subsection \<open>Events and requests\<close>

type_synonym event_stream = "(object_kind \<times> watch_event) list"

definition announced :: "event_stream \<Rightarrow> object_kind \<Rightarrow> NamespacedName \<Rightarrow> bool" where
  "announced evs kind key \<longleftrightarrow> (\<exists>evt. (kind, evt) \<in> set evs \<and> key_of (event_object evt) = key)"

text \<open>
  The informers tell every change; they may send more events than that (a resync), and when they
  start they send one for each object that exists.
\<close>

definition tells_changes :: "('w, 'cm) object_views \<Rightarrow> 'w \<Rightarrow> 'w \<Rightarrow> event_stream \<Rightarrow> bool" where
  "tells_changes vs w w' evs \<longleftrightarrow>
     (\<forall>kind key. \<not> same_object vs w w' kind key \<longrightarrow> announced evs kind key)"

definition tells_all :: "('w, 'cm) object_views \<Rightarrow> 'w \<Rightarrow> event_stream \<Rightarrow> bool" where
  "tells_all vs w evs \<longleftrightarrow> (\<forall>kind key. object_exists vs w kind key \<longrightarrow> announced evs kind key)"

definition passes :: "registration \<Rightarrow> watch_event \<Rightarrow> bool" where
  "passes reg evt \<longleftrightarrow> (case reg_Filter reg of None \<Rightarrow> True | Some p \<Rightarrow> admits p evt)"

type_synonym request = "controller \<times> NamespacedName"

definition requests_for :: "(controller \<times> registration) list \<Rightarrow> object_kind \<Rightarrow> watch_event \<Rightarrow> request set" where
  "requests_for regs kind evt =
     (\<lambda>(c, reg). (c, key_of (event_object evt))) ` {(c, reg) \<in> set regs. reg_For reg = kind \<and> passes reg evt}"

record ('w, 'g) queue_state =
  cluster :: 'w
  collector :: "'g AdoptionMetricsAggregator"
  in_flight :: event_stream
  pending :: "request set"

datatype queue_action = Changes | Delivers | Ticks | Answers controller NamespacedName

inductive queue_step :: "('w, 'g, 'cm, 'e) operator \<Rightarrow> ('w, 'cm) object_views \<Rightarrow> (controller \<times> registration) list
    \<Rightarrow> queue_action \<Rightarrow> ('w, 'g) queue_state \<Rightarrow> ('w, 'g) queue_state \<Rightarrow> bool" for oper vs regs where
  changes: "tells_changes vs (cluster s) w' evs \<Longrightarrow>
    queue_step oper vs regs Changes s (s\<lparr>cluster := w', in_flight := in_flight s @ evs\<rparr>)"
| delivers: "in_flight s = pre @ (kind, evt) # post \<Longrightarrow>
    queue_step oper vs regs Delivers s
      (s\<lparr>in_flight := pre @ post, pending := pending s \<union> requests_for regs kind evt\<rparr>)"
| ticks: "aggregate (op_gauges oper) (op_idp_types oper) (collector s) = Ok a' \<Longrightarrow>
    queue_step oper vs regs Ticks s (s\<lparr>collector := a'\<rparr>)"
| answers: "(c, req) \<in> pending s \<Longrightarrow>
    Reconcile oper now c req (cluster s) (collector s) = (out, w', a') \<Longrightarrow>
    tells_changes vs (cluster s) w' evs \<Longrightarrow>
    queue_step oper vs regs (Answers c req) s
      \<lparr>cluster = w', collector = a', in_flight = in_flight s @ evs,
       pending = (if asks_again out then pending s else pending s - {(c, req)})\<rparr>"

inductive_cases queue_stepE: "queue_step oper vs regs l s s'"

definition queue_start :: "('w, 'g, 'cm, 'e) operator \<Rightarrow> ('w, 'cm) object_views \<Rightarrow> ('w, 'g) queue_state \<Rightarrow> bool" where
  "queue_start oper vs s \<longleftrightarrow>
     NewMetricsAggregator (op_gauges oper) aggregatorResyncInterval (op_clusterId oper) = Ok (collector s)
     \<and> tells_all vs (cluster s) (in_flight s) \<and> pending s = {}"

inductive queue_reachable :: "('w, 'g, 'cm, 'e) operator \<Rightarrow> ('w, 'cm) object_views
    \<Rightarrow> (controller \<times> registration) list \<Rightarrow> ('w, 'g) queue_state \<Rightarrow> bool" for oper vs regs where
  queue_started: "queue_start oper vs s \<Longrightarrow> queue_reachable oper vs regs s"
| queue_moved: "queue_reachable oper vs regs s \<Longrightarrow> queue_step oper vs regs l s s' \<Longrightarrow>
    queue_reachable oper vs regs s'"

text \<open>The queue only decides when the controllers run: every state is one that \<open>System\<close> reaches.\<close>

lemma queue_step_system:
  assumes "queue_step oper vs regs l s s'" and "reachable oper (cluster s, collector s)"
  shows "reachable oper (cluster s', collector s')"
  using assms(1)
proof cases
  case (changes w' evs)
  with reachable.stepped [OF assms(2) system_step.cluster_changes] show ?thesis by simp
next
  case (ticks a')
  with reachable.stepped [OF assms(2) system_step.ticks] show ?thesis by simp
next
  case (answers c req now out w' a' evs)
  with reachable.stepped [OF assms(2) Reconcile_step [OF answers(4)]] show ?thesis by simp
qed (use assms(2) in simp)

lemma queue_reachable_system:
  "queue_reachable oper vs regs s \<Longrightarrow> reachable oper (cluster s, collector s)"
  by (induction rule: queue_reachable.induct)
    (auto simp: queue_start_def intro: reachable.started queue_step_system)

subsection \<open>What the registrations let through\<close>

text \<open>The requests a controller gets, and, among them, those for the objects that its metrics are about.\<close>

fun concerns :: "('cm, 'e) cluster_network_operator \<Rightarrow> controller \<Rightarrow> NamespacedName \<Rightarrow> bool" where
  "concerns cno ClusterRole_C key \<longleftrightarrow> nn_Name key = clusterAdminName"
| "concerns cno ConfigMap_C key \<longleftrightarrow> key = ca_bundle_key cno"
| "concerns cno Group_C key \<longleftrightarrow> nn_Name key = clusterAdminGroupName"
| "concerns cno LimitedSupport_C key \<longleftrightarrow> key = limited_support_key"
| "concerns cno Machine_C key \<longleftrightarrow> True"
| "concerns cno OAuth_C key \<longleftrightarrow> True"
| "concerns cno Proxy_C key \<longleftrightarrow> True"
| "concerns cno PullSecret_C key \<longleftrightarrow> key = pull_secret_key"
| "concerns cno CPMS_C key \<longleftrightarrow> True"

fun relevant :: "('cm, 'e) cluster_network_operator \<Rightarrow> controller \<Rightarrow> NamespacedName \<Rightarrow> bool" where
  "relevant cno Group_C key \<longleftrightarrow> key = admin_group_key"
| "relevant cno Machine_C key \<longleftrightarrow> nn_Namespace key = machineNamespace"
| "relevant cno CPMS_C key \<longleftrightarrow> key = cpms_key"
| "relevant cno c key \<longleftrightarrow> concerns cno c key"

lemma relevant_concerns: "relevant cno c key \<Longrightarrow> concerns cno c key"
  by (cases c) (simp_all add: admin_group_key_def)

definition proper_registrations :: "('cm, 'e) cluster_network_operator \<Rightarrow> (controller \<times> registration) list \<Rightarrow> bool" where
  "proper_registrations cno regs \<longleftrightarrow> (\<forall>(c, reg) \<in> set regs. reg_For reg = watched c
     \<and> (\<forall>evt. passes reg evt \<longleftrightarrow> concerns cno c (key_of (event_object evt))))"

definition registrations_of :: "('g, 'k, 's) process \<Rightarrow> (controller \<times> registration) list" where
  "registrations_of p = map (\<lambda>(r, reg). (controller_of r, reg)) (reconcilers p)"

lemma set_up_with_passes:
  "set_up_with env mgr r reg \<Longrightarrow>
   passes reg evt \<longleftrightarrow> concerns (Network_operator env) (controller_of r) (key_of (event_object evt))"
  by (cases r)
    (auto simp: set_up_with_def setup_defs passes_def limited_support_filter_exact configmap_filter_exact
      pull_secret_filter_exact group_filter_exact clusterrole_filter_exact key_of_def split: option.splits)

text \<open>The registrations that \<open>main\<close> makes are these.\<close>

lemma main_registrations:
  assumes "main pv env = Next p"
  shows "proper_registrations (Network_operator env) (registrations_of p)"
    and "map fst (registrations_of p) = wanted_controllers env"
proof -
  obtain mgr clusterId a regs where regs: "list_all2 (set_up_with env mgr) (wanted_reconcilers env mgr clusterId) regs"
    and p: "p = started_process a (wanted_reconcilers env mgr clusterId) regs"
    using assms unfolding main_Next_iff by blast
  then have rs: "reconcilers p = zip (wanted_reconcilers env mgr clusterId) regs"
    by (simp add: started_process_def)
  show "proper_registrations (Network_operator env) (registrations_of p)"
    unfolding proper_registrations_def registrations_of_def rs
    using zip_registrations [OF regs] set_up_with_For set_up_with_passes by fastforce
  have "map fst (registrations_of p) = map controller_of (map fst (reconcilers p))"
    by (simp add: registrations_of_def split_def)
  also have "map fst (reconcilers p) = wanted_reconcilers env mgr clusterId"
    using regs by (simp add: rs list_all2_lengthD)
  finally show "map fst (registrations_of p) = wanted_controllers env"
    by (simp only: wanted_reconcilers_controllers)
qed

lemma requests_proper:
  assumes "proper_registrations cno regs"
  shows "requests_for regs kind evt = {(c, key). c \<in> fst ` set regs \<and> watched c = kind
    \<and> key = key_of (event_object evt) \<and> concerns cno c key}"
  using assms by (force simp: requests_for_def proper_registrations_def)

end
