(* ===== verification/Missed_Updates.thy ===== *)
theory Missed_Updates
  imports Work_Queue
begin

section \<open>No update is missed\<close>

text \<open>
  Each metric is about certain objects. For each of these objects, at any time, one of three
  things holds: its controller has a request for it, an event that tells of it is on its way, or the
  metrics show the object as it is. So when nothing is on its way and nothing waits, all metrics are
  up to date. The argument is an invariant of \<open>queue_step\<close>; it uses that the filters let every event
  about such an object pass, that a reconcile which leaves the queue has shown its object, and that
  no other reconcile spoils this.
\<close>

subsection \<open>Showing an object\<close>

definition ca_metrics :: "('cm, 'e) cluster_network_operator \<Rightarrow> string \<Rightarrow> 'cm option
    \<Rightarrow> (string list \<Rightarrow> int option) \<times> (string list \<Rightarrow> int option)" where
  "ca_metrics cno cid cm =
     (case cm of None \<Rightarrow> (Map.empty, Map.empty)
      | Some cm \<Rightarrow> (case TrustBundleConfigMap cno cm (TRUSTED_CA_BUNDLE_CONFIGMAP_KEY cno) of
          Inl err \<Rightarrow> (Map.empty, if strings_Contains (Error_text cno err) ''failed parsing certificate''
            then [[cid] \<mapsto> 0] else Map.empty)
        | Inr certs \<Rightarrow> (expiry_series cid certs, if certs = [] then Map.empty else [[cid] \<mapsto> 1])))"

fun reflected :: "('w, 'g, 'cm, 'e) operator \<Rightarrow> ('w, 'cm) object_views \<Rightarrow> controller \<Rightarrow> NamespacedName
    \<Rightarrow> 'w \<Rightarrow> 'g AdoptionMetricsAggregator \<Rightarrow> bool" where
  "reflected oper vs ClusterRole_C key w a \<longleftrightarrow>
     (case view_roles vs w key of None \<Rightarrow> True
      | Some role \<Rightarrow> clusterrole_finalizer \<notin> set (m_Finalizers (role_meta role)))"
| "reflected oper vs ConfigMap_C key w a \<longleftrightarrow>
     (scraped oper a Cluster_Proxy_CA_Expiry, scraped oper a Cluster_Proxy_CA_Valid) =
       ca_metrics (op_network_operator oper) (op_clusterId oper) (view_configmaps vs w key)"
| "reflected oper vs Group_C key w a \<longleftrightarrow>
     (case view_groups vs w key of None \<Rightarrow> True
      | Some g \<Rightarrow> scraped oper a Cluster_Admin_Enabled [op_clusterId oper] =
          Some (of_bool (IsZero (m_DeletionTimestamp (group_meta g)) \<and> Users g \<noteq> [])))"
| "reflected oper vs LimitedSupport_C key w a \<longleftrightarrow>
     scraped oper a Limited_Support_Enabled [op_clusterId oper] =
       Some (of_bool (view_configmaps vs w key \<noteq> None))"
| "reflected oper vs Machine_C key w a \<longleftrightarrow>
     (view_machines vs w key = None \<longrightarrow>
       (\<forall>p ns n1 n2. scraped oper a Pods_Preventing_Node_Drain [p, ns, n1, n2, nn_Name key] = None))"
| "reflected oper vs OAuth_C key w a \<longleftrightarrow>
     (case view_oauths vs w key of None \<Rightarrow> True
      | Some obj \<Rightarrow> map_of (providerMap a) (provider_key key) =
          (if IsZero (m_DeletionTimestamp (oauth_meta obj))
           then Some (map idp_Type (spec_IdentityProviders obj)) else None))"
| "reflected oper vs Proxy_C key w a \<longleftrightarrow>
     (case view_proxies vs w key of None \<Rightarrow> True
      | Some obj \<Rightarrow> scraped oper a Cluster_ID [op_clusterId oper] = Some 1
          \<and> scraped oper a Cluster_Proxy (proxy_key (op_clusterId oper) obj) = Some (proxy_value obj))"
| "reflected oper vs PullSecret_C key w a \<longleftrightarrow>
     (case view_secrets vs w key of
        None \<Rightarrow> scraped oper a Pull_Secret_Valid \<in> {Map.empty, [[op_clusterId oper, secret_reason None] \<mapsto> 0]}
      | Some s \<Rightarrow> scraped oper a Pull_Secret_Valid = [[op_clusterId oper, secret_reason (Some s)] \<mapsto>
          of_bool (secret_reason (Some s) = ReasonValid)])"
| "reflected oper vs CPMS_C key w a \<longleftrightarrow>
     (case view_cpms vs w key of None \<Rightarrow> True
      | Some obj \<Rightarrow> (case instance_type_of (op_decoders oper) obj of
          Known t \<Rightarrow> scraped oper a CPMS_Enabled = [[op_clusterId oper, t] \<mapsto> of_bool (cpms_State obj = ''Active'')]
        | _ \<Rightarrow> True))"

text \<open>It depends on the object and on the metrics of the controller only.\<close>

lemma reflected_cong:
  assumes "same_object vs w w' (watched c) key" and "\<And>v. owner v = Ran c \<Longrightarrow> scraped oper a' v = scraped oper a v"
    and "c = OAuth_C \<Longrightarrow> providerMap a' = providerMap a"
  shows "reflected oper vs c key w' a' = reflected oper vs c key w a"
  using assms by (cases c) (simp_all split: option.split instance_type.split)

subsection \<open>The cluster as the operator sees it\<close>

text \<open>
  A reader of a kind gets the objects in view, and not-found for all others; it may fail.
\<close>

locale object_reader =
  fixes k :: "('w, 'o, 'e) client" and view :: "'w \<Rightarrow> NamespacedName \<Rightarrow> 'o option"
  assumes found: "Get k w key = Inr obj \<Longrightarrow> view w key = Some obj"
    and missing: "Get k w key = Inl err \<Longrightarrow> IsNotFound k err \<Longrightarrow> view w key = None"

sublocale api_server \<subseteq> object_reader k stored
  by unfold_locales (fact get_found, fact get_not_found)

lemma server_readable: "api_server k meta stored \<Longrightarrow> object_reader k stored"
  by (rule object_reader.intro) (rule api_server.get_found, auto intro: api_server.get_not_found)

text \<open>The group controller: a reconcile that is not taken up again leaves the flag at what the group says.\<close>

context group_context
begin

lemma group_deletion_kept:
  assumes wf: "agg_wf pv a" and run: "GroupReconcile k pv clusterId req w a = (out, w', a')"
    and quiet: "\<not> asks_again out" and get: "Get k w req = Inr grp" and g: "stored w' req = Some g"
  shows "m_DeletionTimestamp (group_meta g) = m_DeletionTimestamp (group_meta grp)"
proof -
  have stored: "stored w req = Some grp" and key: "key_of (group_meta grp) = req"
    using get_found [OF get] stored_key by auto
  have "\<exists>a'. SetClusterAdmin pv clusterId b a = Ok a'" for b using set_admin [OF wf] by metis
  then obtain A where set: "SetClusterAdmin pv clusterId b a = Ok (A b)" for b by metis
  have upd: "m_DeletionTimestamp (group_meta g) = m_DeletionTimestamp (group_meta grp)"
    if "Update k w (set_group_finalizers fs grp) = (Inr obj, w')" for fs obj
    using update_done [OF that] update_response [OF that] g key by (auto split: if_splits)
  show ?thesis
    using run quiet get stored g upd
    by (auto simp: GroupReconcile_def set split: if_splits prod.splits sum.splits)
qed

lemma group_shown:
  assumes wf: "agg_wf pv a" and run: "GroupReconcile k pv clusterId req w a = (out, w', a')"
    and quiet: "\<not> asks_again out" and g: "stored w' req = Some g"
  shows "exported pv a' Cluster_Admin_Enabled [clusterId] =
    Some (of_bool (IsZero (m_DeletionTimestamp (group_meta g)) \<and> Users g \<noteq> []))"
proof (cases "Get k w req")
  case (Inl err)
  then show ?thesis using group_cases [OF wf run] quiet get_not_found [OF Inl] g by (auto split: if_splits)
next
  case (Inr grp)
  from group_deletion_kept [OF wf run quiet Inr g] group_cases [OF wf run] quiet Inr g show ?thesis
    by (cases "IsZero (m_DeletionTimestamp (group_meta grp))") (auto simp: expo_set_def)
qed

end

text \<open>The same for the OAuth controller, and that it leaves the entries of other objects alone.\<close>

context oauth_context
begin

lemma oauth_deletion_kept:
  assumes run: "OAuthReconcile k req w a = (out, w', a')"
    and quiet: "\<not> asks_again out" and get: "Get k w req = Inr obj" and g: "stored w' req = Some g"
  shows "m_DeletionTimestamp (oauth_meta g) = m_DeletionTimestamp (oauth_meta obj)"
proof -
  have stored: "stored w req = Some obj" and key: "key_of (oauth_meta obj) = req"
    using get_found [OF get] stored_key by auto
  have upd: "m_DeletionTimestamp (oauth_meta g) = m_DeletionTimestamp (oauth_meta obj)"
    if "Update k w (set_oauth_finalizers fs obj) = (Inr obj', w')" for fs obj'
    using update_done [OF that] update_response [OF that] g key by (auto split: if_splits)
  show ?thesis
    using run quiet get stored g upd
    by (auto simp: OAuthReconcile_def split: if_splits prod.splits sum.splits)
qed

lemma oauth_shown:
  assumes wf: "agg_wf pv a" and run: "OAuthReconcile k req w a = (out, w', a')"
    and quiet: "\<not> asks_again out" and g: "stored w' req = Some g"
  shows "map_of (providerMap a') (provider_key req) =
    (if IsZero (m_DeletionTimestamp (oauth_meta g)) then Some (map idp_Type (spec_IdentityProviders g)) else None)"
proof (cases "Get k w req")
  case (Inl err)
  then show ?thesis using oauth_cases [OF wf run] quiet get_not_found [OF Inl] g by (auto split: if_splits)
next
  case (Inr obj)
  from oauth_deletion_kept [OF run quiet Inr g] oauth_cases [OF wf run] quiet Inr g show ?thesis
    by (auto split: if_splits)
qed

lemma oauth_others_kept:
  assumes wf: "agg_wf pv a" and run: "OAuthReconcile k req w a = (out, w', a')" and "key \<noteq> req"
  shows "map_of (providerMap a') (provider_key key) = map_of (providerMap a) (provider_key key)"
  using oauth_cases [OF wf run] \<open>key \<noteq> req\<close> by (auto split: sum.splits if_splits)

end

locale read_cluster =
  role_reads: object_reader "op_role_client oper" "view_roles vs"
  + group_reads: object_reader "op_group_client oper" "view_groups vs"
  + oauth_reads: object_reader "op_oauth_client oper" "view_oauths vs"
  + configmaps: object_reader "op_configmap_client oper" "view_configmaps vs"
  + machines: object_reader "op_machine_client oper" "view_machines vs"
  + proxies: object_reader "op_proxy_client oper" "view_proxies vs"
  + secrets: object_reader "op_secret_client oper" "view_secrets vs"
  + cpms: object_reader "op_cpms_client oper" "view_cpms vs"
  for oper :: "('w, 'g, 'cm, 'e) operator" and vs :: "('w, 'cm) object_views" +
  assumes oper_ok: "operator_ok oper"
    and machine_named: "view_machines vs w key = Some machine \<Longrightarrow> key_of (machine_meta machine) = key"
    and group_unscoped: "view_groups vs w key \<noteq> None \<Longrightarrow> nn_Namespace key = ''''"
begin

lemma laws:
  "gauge_vec (op_gauges oper)" "ValidString (op_clusterId oper)" "valid_subjects (op_network_operator oper)"
  "valid_instance_types (op_decoders oper)" "valid_nodes (op_machine_client oper)"
  using oper_ok by (simp_all add: operator_ok_def)

text \<open>The controllers that do not write: a request that leaves the queue has been answered.\<close>

lemma answered_reader:
  assumes wf: "agg_wf (op_gauges oper) a" and run: "Reconcile oper now c req w a = (out, w', a')"
    and quiet: "\<not> asks_again out" and rel: "relevant (op_network_operator oper) c req"
    and reader: "c \<notin> {ClusterRole_C, Group_C, OAuth_C}"
  shows "reflected oper vs c req w' a'"
proof (cases c)
  case ConfigMap_C
  then show ?thesis
    using configmap_report [OF laws(1,2) wf laws(3), of "op_configmap_client oper" req w] run quiet rel
      configmaps.found [of w req] configmaps.missing [of w req]
    by (cases "Get (op_configmap_client oper) w req")
      (auto simp: ca_metrics_def expo_ca_def split: sum.splits if_splits)
next
  case LimitedSupport_C
  then show ?thesis
    using limited_support_cases [OF laws(1,2) wf, of "op_configmap_client oper" req w] run quiet rel
      configmaps.found [of w req] configmaps.missing [of w req]
    by (cases "Get (op_configmap_client oper) w req") (auto simp: expo_set_def split: sum.splits if_splits)
next
  case Machine_C
  then have "machine_key req = req" using rel by simp
  with Machine_C show ?thesis
    using machine_cases [OF laws(1) wf laws(5), of "op_events oper" now req w] run quiet
      machines.found [of w req]
    by (cases "Get (op_machine_client oper) w req") (auto simp: expo_drain_def drain_series_del split: sum.splits if_splits)
next
  case Proxy_C
  then show ?thesis
    using proxy_cases [OF laws(1,2) wf, of "op_proxy_client oper" req w] run quiet
      proxies.found [of w req] proxies.missing [of w req]
    by (cases "Get (op_proxy_client oper) w req") (auto simp: expo_set_def split: sum.splits if_splits)
next
  case PullSecret_C
  then show ?thesis
    using pull_secret_cases [OF laws(1,2) wf, of "op_secret_client oper" req w] run quiet rel
      secrets.found [of w req] secrets.missing [of w req]
    by (cases "Get (op_secret_client oper) w req") (auto simp: expo_only_def split: sum.splits if_splits)
next
  case CPMS_C
  then show ?thesis
    using cpms_report [OF laws(1,2) wf laws(4), of "op_cpms_client oper" req w] run quiet rel
      cpms.found [of w req] cpms.missing [of w req]
    by (cases "Get (op_cpms_client oper) w req") (auto simp: expo_only_def split: sum.splits if_splits instance_type.splits)
qed (use reader in simp_all)

end

context read_cluster
begin

text \<open>A request for another object does not spoil what the metrics show of this one.\<close>

lemma machine_undisturbed:
  assumes wf: "agg_wf (op_gauges oper) a"
    and run: "MachineReconcile (op_machine_client oper) (op_events oper) (op_gauges oper) now req w a = (out, w', a')"
    and gone: "view_machines vs w key = None" "nn_Namespace key = machineNamespace"
    and "scraped oper a Pods_Preventing_Node_Drain [p, ns, n1, n2, nn_Name key] = None"
  shows "scraped oper a' Pods_Preventing_Node_Drain [p, ns, n1, n2, nn_Name key] = None"
proof -
  have key: "machine_key key = key" using gone(2) by simp
  have wf_a: "keys_distinct (drainingMachines a)"
      "scraped oper a Pods_Preventing_Node_Drain = drain_series (drainingMachines a)"
    using wf by (simp_all add: agg_wf_def drain_wf_def)
  have other: "m_Name (machine_meta machine) \<noteq> nn_Name key"
    if "Get (op_machine_client oper) w (machine_key req) = Inr machine" for machine
  proof
    assume same: "m_Name (machine_meta machine) = nn_Name key"
    have "view_machines vs w (machine_key req) = Some machine" by (rule machines.found [OF that])
    moreover from machine_named [OF this] same have "machine_key req = key"
      using key by (auto simp: key_of_def)
    ultimately show False using gone(1) by simp
  qed
  show ?thesis
    using machine_cases [OF laws(1) wf laws(5), of "op_events oper" now req w] run assms(5) wf_a
    by (cases "Get (op_machine_client oper) w (machine_key req)")
      (auto simp: expo_drain_def drain_series_del drain_series_put dest!: other
        split: if_splits verdict.splits)
qed

text \<open>Groups have no namespace: a request for another group of the same name finds nothing.\<close>

lemma group_elsewhere:
  assumes "nn_Name req = clusterAdminGroupName" and "req \<noteq> admin_group_key"
    and "GroupReconcile (op_group_client oper) (op_gauges oper) (op_clusterId oper) req w a = (out, w', a')"
  shows "w' = w" and "a' = a"
proof -
  have "nn_Namespace req \<noteq> ''''" using assms(1,2) by (cases req) (auto simp: admin_group_key_def)
  then have "view_groups vs w req = None" using group_unscoped by blast
  then have "Get (op_group_client oper) w req \<noteq> Inr g" for g using group_reads.found by fastforce
  then obtain err where "Get (op_group_client oper) w req = Inl err"
    by (cases "Get (op_group_client oper) w req") auto
  with assms(3) show "w' = w" "a' = a" by (auto simp: GroupReconcile_def split: if_splits)
qed

lemma undisturbed_reader:
  assumes wf: "agg_wf (op_gauges oper) a" and run: "Reconcile oper now c req w a = (out, w', a')"
    and req: "concerns (op_network_operator oper) c req" "req \<noteq> key"
    and key: "relevant (op_network_operator oper) c key" "reflected oper vs c key w a"
    and same: "same_object vs w w' (watched c) key"
    and reader: "c \<noteq> OAuth_C"
  shows "reflected oper vs c key w' a'"
proof (cases c)
  case ClusterRole_C
  then show ?thesis using run key same by (auto split: prod.splits)
next
  case Group_C
  then have "w' = w" "a' = a" using group_elsewhere [of req w a out w' a'] run req key(1) by auto
  with key(2) show ?thesis by simp
next
  case Machine_C
  have "w' = w" using machine_cases [OF laws(1) wf laws(5), of "op_events oper" now req w] run Machine_C by auto
  with Machine_C key run machine_undisturbed [OF wf, of now req w out w' a' key] show ?thesis by auto
next
  case Proxy_C
  have same_value: "proxy_value obj = proxy_value obj'"
    if "proxy_key u obj = proxy_key u obj'" for u obj obj'
    using that by (auto simp: proxy_key_def proxy_value_def flag_label_def split: if_splits)
  show ?thesis
    using proxy_cases [OF laws(1,2) wf, of "op_proxy_client oper" req w] run Proxy_C key(2)
    by (cases "Get (op_proxy_client oper) w req")
      (auto simp: expo_set_def dest: same_value split: option.splits)
next
  case CPMS_C
  then show ?thesis
    using cpms_report [OF laws(1,2) wf laws(4), of "op_cpms_client oper" req w] run key
      cpms.found [of w cpms_key]
    by (cases "Get (op_cpms_client oper) w cpms_key")
      (auto simp: expo_only_def split: if_splits instance_type.splits option.splits)
qed (use req key reader in simp_all)

lemma others_keep_reflected:
  assumes "agg_wf (op_gauges oper) a" and "system_step oper l (w, a) (w', a')" and "l \<noteq> Ran c"
    and "same_object vs w w' (watched c) key" and "reflected oper vs c key w a"
  shows "reflected oper vs c key w' a'"
proof -
  note expo = system_step_expo [OF oper_ok assms(2,1)]
  have "scraped oper a' v = scraped oper a v" if "owner v = Ran c" for v
    using expo expo_step_owner that assms(3) by metis
  then show ?thesis using reflected_cong [OF assms(4)] expo assms(3,5) by metis
qed

text \<open>What does not exist when the operator starts is shown from the start.\<close>

lemma unseen_reflected:
  assumes "queue_start oper vs s" and "\<not> object_exists vs (cluster s) (watched c) key"
  shows "reflected oper vs c key (cluster s) (collector s)"
proof -
  let ?e = "scraped oper (collector s)" and ?cid = "op_clusterId oper"
  from NewMetricsAggregator_ok [OF laws(1,2), of aggregatorResyncInterval] assms(1)
  have start: "providerMap (collector s) = []" "?e = expo_set Limited_Support_Enabled [?cid] 0
      (expo_set Cluster_Admin_Enabled [?cid] 0 (\<lambda>_. Map.empty))"
    by (auto simp: queue_start_def)
  show ?thesis using assms(2) by (cases c) (simp_all add: start(2) expo_set_def ca_metrics_def)
qed

end


text \<open>The kinds that the controllers write, too, on a server whose updates are seen by the next read.\<close>

locale watched_cluster = read_cluster oper vs
  + roles: api_server "op_role_client oper" role_meta "view_roles vs"
  + groups: api_server "op_group_client oper" group_meta "view_groups vs"
  + oauths: api_server "op_oauth_client oper" oauth_meta "view_oauths vs"
  for oper :: "('w, 'g, 'cm, 'e) operator" and vs :: "('w, 'cm) object_views"
begin

lemma group_context_here: "group_context (op_group_client oper) (view_groups vs) (op_gauges oper) (op_clusterId oper)"
  by (rule group_contextI) (fact groups.api_server_axioms, fact laws, fact laws)

lemma oauth_context_here: "oauth_context (op_oauth_client oper) (view_oauths vs) (op_gauges oper)"
  using oauths.api_server_axioms laws(1) by (simp add: oauth_context_def)

text \<open>A request that leaves the queue has been answered: the metrics show its object.\<close>

lemma answered:
  assumes wf: "agg_wf (op_gauges oper) a" and run: "Reconcile oper now c req w a = (out, w', a')"
    and quiet: "\<not> asks_again out" and rel: "relevant (op_network_operator oper) c req"
  shows "reflected oper vs c req w' a'"
proof (cases c)
  case ClusterRole_C
  then have "ClusterRoleReconcile (op_role_client oper) req w = (out, w')"
    using run by (auto split: prod.splits)
  from clusterrole_cases [OF roles.api_server_axioms this] ClusterRole_C quiet rel
    roles.stored_key [of w req] role_reads.found [of w req] role_reads.missing [of w req]
  show ?thesis by (auto simp: key_of_def split: sum.splits if_splits option.splits)
next
  case Group_C
  then show ?thesis
    using group_context.group_shown [OF group_context_here wf _ quiet, of req w w' a'] run
    by (auto split: option.split)
next
  case OAuth_C
  then show ?thesis
    using oauth_context.oauth_shown [OF oauth_context_here wf _ quiet, of req w w' a'] run
    by (auto split: option.split)
qed (use answered_reader [OF wf run quiet rel] in simp_all)

end

lemma watched_reads: "watched_cluster oper vs \<Longrightarrow> read_cluster oper vs"
  by (simp add: watched_cluster_def)

lemmas watched_operator_ok = read_cluster.oper_ok [OF watched_reads]

context watched_cluster
begin

lemma undisturbed:
  assumes wf: "agg_wf (op_gauges oper) a" and run: "Reconcile oper now c req w a = (out, w', a')"
    and req: "concerns (op_network_operator oper) c req" "req \<noteq> key"
    and key: "relevant (op_network_operator oper) c key" "reflected oper vs c key w a"
    and same: "same_object vs w w' (watched c) key"
  shows "reflected oper vs c key w' a'"
proof (cases "c = OAuth_C")
  case True
  then show ?thesis
    using run oauth_context.oauth_others_kept [OF oauth_context_here wf, of req w out w' a' key] req(2) key(2) same
    by (auto split: option.splits)
next
  case False
  with undisturbed_reader [OF wf run req key same] show ?thesis by simp
qed

end


subsection \<open>The invariant\<close>

definition accounted :: "('w, 'g, 'cm, 'e) operator \<Rightarrow> ('w, 'cm) object_views \<Rightarrow> ('w, 'g) queue_state
    \<Rightarrow> controller \<Rightarrow> NamespacedName \<Rightarrow> bool" where
  "accounted oper vs s c key \<longleftrightarrow> (c, key) \<in> pending s \<or> announced (in_flight s) (watched c) key
     \<or> reflected oper vs c key (cluster s) (collector s)"

definition nothing_missed :: "('w, 'g, 'cm, 'e) operator \<Rightarrow> ('w, 'cm) object_views
    \<Rightarrow> (controller \<times> registration) list \<Rightarrow> ('w, 'g) queue_state \<Rightarrow> bool" where
  "nothing_missed oper vs regs s \<longleftrightarrow>
     (\<forall>(c, req) \<in> pending s. c \<in> fst ` set regs \<and> concerns (op_network_operator oper) c req)
     \<and> (\<forall>c \<in> fst ` set regs. \<forall>key. relevant (op_network_operator oper) c key \<longrightarrow> accounted oper vs s c key)"

lemma announced_append [simp]: "announced (evs @ evs') kind key \<longleftrightarrow> announced evs kind key \<or> announced evs' kind key"
  by (auto simp: announced_def)

lemma unannounced_same:
  "tells_changes vs w w' evs \<Longrightarrow> \<not> announced evs kind key \<Longrightarrow> same_object vs w w' kind key"
  by (auto simp: tells_changes_def)

lemma announced_split:
  "announced (pre @ (kind', evt) # post) kind key \<longleftrightarrow>
     announced (pre @ post) kind key \<or> kind = kind' \<and> key = key_of (event_object evt)"
  by (auto simp: announced_def)

context watched_cluster
begin

lemma start_accounted:
  assumes "queue_start oper vs s" shows "nothing_missed oper vs regs s"
  using assms unseen_reflected [OF assms] by (auto simp: nothing_missed_def accounted_def queue_start_def tells_all_def)

text \<open>A step of somebody else, with the events that it causes.\<close>

lemma accounted_kept:
  assumes "accounted oper vs s c key" and "(c, key) \<in> pending s \<Longrightarrow> (c, key) \<in> pending s'"
    and "in_flight s' = in_flight s @ evs" and "tells_changes vs (cluster s) (cluster s') evs"
    and "same_object vs (cluster s) (cluster s') (watched c) key \<Longrightarrow>
      reflected oper vs c key (cluster s) (collector s) \<Longrightarrow> reflected oper vs c key (cluster s') (collector s')"
  shows "accounted oper vs s' c key"
  using assms unannounced_same [OF assms(4)] by (auto simp: accounted_def)

lemma step_accounted:
  assumes step: "queue_step oper vs regs l s s'" and wf: "agg_wf (op_gauges oper) (collector s)"
    and regs: "proper_registrations (op_network_operator oper) regs" and inv: "nothing_missed oper vs regs s"
  shows "nothing_missed oper vs regs s'"
proof -
  note acc = inv [unfolded nothing_missed_def]
  from step show ?thesis
  proof cases
    case (changes w' evs)
    have "accounted oper vs s' c key" if "accounted oper vs s c key" for c key
      by (rule accounted_kept [OF that, where evs = evs])
        (use changes others_keep_reflected [OF wf system_step.cluster_changes] in auto)
    with changes acc show ?thesis by (auto simp: nothing_missed_def)
  next
    case (delivers pre kind evt post)
    note new = requests_proper [OF regs, of kind evt]
    have "accounted oper vs s' c key" if "accounted oper vs s c key" "c \<in> fst ` set regs"
        "relevant (op_network_operator oper) c key" for c key
    proof -
      from that(1) delivers(3) consider "(c, key) \<in> pending s" | "announced (pre @ post) (watched c) key"
        | "watched c = kind" "key = key_of (event_object evt)" | "reflected oper vs c key (cluster s) (collector s)"
        unfolding accounted_def delivers(3) announced_split by blast
      then show ?thesis using that(2) relevant_concerns [OF that(3)] delivers(2)
        by cases (simp_all add: accounted_def new)
    qed
    with delivers acc show ?thesis by (auto simp: nothing_missed_def new)
  next
    case (ticks a')
    have "accounted oper vs s' c key" if "accounted oper vs s c key" for c key
      using that ticks others_keep_reflected [OF wf system_step.ticks [OF ticks(3)], where c = c and key = key]
      by (auto simp: accounted_def)
    with ticks acc show ?thesis by (auto simp: nothing_missed_def)
  next
    case (answers c req now out w' a' evs)
    note step = Reconcile_step [OF answers(4)]
    have req: "c \<in> fst ` set regs" "concerns (op_network_operator oper) c req" using acc answers(3) by auto
    have "accounted oper vs s' c' key" if "accounted oper vs s c' key"
        "relevant (op_network_operator oper) c' key" for c' key
    proof (cases "(c', key) = (c, req)")
      case True
      with answers that(2) answered [OF wf answers(4)] show ?thesis by (auto simp: accounted_def)
    next
      case False
      have "reflected oper vs c' key w' a'"
        if "same_object vs (cluster s) w' (watched c') key" "reflected oper vs c' key (cluster s) (collector s)"
        using that False undisturbed [OF wf answers(4) req(2)] \<open>relevant _ c' key\<close>
          others_keep_reflected [OF wf step, of c' key] by (cases "c' = c") auto
      with False answers show ?thesis
        by (intro accounted_kept [OF \<open>accounted oper vs s c' key\<close>, where evs = evs]) auto
    qed
    with answers acc show ?thesis by (auto simp: nothing_missed_def split: if_splits)
  qed
qed

lemma queue_invariant:
  assumes "queue_reachable oper vs regs s" and regs: "proper_registrations (op_network_operator oper) regs"
  shows "nothing_missed oper vs regs s"
  using assms(1)
proof induction
  case (queue_started s)
  then show ?case by (rule start_accounted)
next
  case (queue_moved s l s')
  have "agg_wf (op_gauges oper) (collector s)"
    using reachable_invariant [OF queue_reachable_system [OF queue_moved(1)] oper_ok] by simp
  with queue_moved regs show ?case by (blast intro: step_accounted)
qed

end

end
