(* ===== verification/Queue_Settling.thy ===== *)
theory Queue_Settling
  imports Missed_Updates
begin

section \<open>The queues settle\<close>

text \<open>
  While the cluster obliges - reads fail with not-found only, writes succeed, no machine is being
  deleted, the bundle and the machine set can be read - the queues run empty: the controllers write
  to the cluster only to put their finalizers on and to take them off, each such write makes the
  set of objects that still need one smaller, and every other answer takes one request away
  without a new event.
\<close>

text \<open>The objects whose finalizer the next reconcile changes.\<close>

definition role_due :: "ClusterRole \<Rightarrow> bool" where
  "role_due role \<longleftrightarrow> clusterrole_finalizer \<in> set (m_Finalizers (role_meta role))"

definition group_due :: "Group \<Rightarrow> bool" where
  "group_due g \<longleftrightarrow> (IsZero (m_DeletionTimestamp (group_meta g)) \<longleftrightarrow>
     group_finalizer \<notin> set (m_Finalizers (group_meta g)))"

definition oauth_due :: "OAuth \<Rightarrow> bool" where
  "oauth_due obj \<longleftrightarrow> (IsZero (m_DeletionTimestamp (oauth_meta obj)) \<longleftrightarrow>
     oauth_finalizer \<notin> set (m_Finalizers (oauth_meta obj)))"

definition due_in :: "('o \<Rightarrow> bool) \<Rightarrow> (NamespacedName \<Rightarrow> 'o option) \<Rightarrow> NamespacedName set" where
  "due_in d view = {key. \<exists>obj. view key = Some obj \<and> d obj}"

definition due :: "('w, 'cm) object_views \<Rightarrow> 'w \<Rightarrow> nat" where
  "due vs w = card (due_in role_due (view_roles vs w)) + card (due_in group_due (view_groups vs w))
     + card (due_in oauth_due (view_oauths vs w))"

lemma card_due_put:
  assumes "finite (dom view)" and "view key = Some obj" "d obj" and "x = None \<or> (\<exists>obj'. x = Some obj' \<and> \<not> d obj')"
  shows "card (due_in d (view(key := x))) < card (due_in d view)"
proof -
  have "due_in d (view(key := x)) = due_in d view - {key}" using assms(4) by (auto simp: due_in_def)
  moreover have "key \<in> due_in d view" using assms(2,3) by (simp add: due_in_def)
  moreover have "finite (due_in d view)"
    using assms(1) by (rule finite_subset [rotated]) (auto simp: due_in_def)
  ultimately show ?thesis by (simp add: card_Diff1_less del: card_Diff_insert)
qed

text \<open>An accepted update that leaves its object not due.\<close>

context api_server
begin

lemma update_settles:
  assumes "Update k w obj = (Inr obj', w')" and "finite (dom (stored w))"
    and "stored w (key_of (meta obj)) = Some old" "d old" and "\<not> doomed (meta obj) \<Longrightarrow> \<not> d obj'"
  shows "card (due_in d (stored w')) < card (due_in d (stored w)) \<and> finite (dom (stored w'))"
proof -
  let ?x = "if doomed (meta obj) then None else Some obj'"
  have "stored w' = (stored w)(key_of (meta obj) := ?x)"
    using update_done [OF assms(1)] update_response [OF assms(1)] by simp
  moreover have "card (due_in d ((stored w)(key_of (meta obj) := ?x))) < card (due_in d (stored w))"
    using card_due_put [of "stored w" "key_of (meta obj)" old d ?x] assms(2-5) by auto
  moreover have "finite (dom ((stored w)(key_of (meta obj) := ?x)))"
    using assms(2) by (auto intro: finite_subset [where B = "insert (key_of (meta obj)) (dom (stored w))"])
  ultimately show ?thesis by metis
qed

end

text \<open>What the reconcilers read lets them finish.\<close>

locale obliging_reads = read_cluster oper vs
  for oper :: "('w, 'g, 'cm, 'e) operator" and vs :: "('w, 'cm) object_views" +
  fixes good :: "'w \<Rightarrow> bool"
  assumes reads_answered: "good w \<Longrightarrow> Get (op_role_client oper) w key = Inl err \<Longrightarrow> IsNotFound (op_role_client oper) err"
      "good w \<Longrightarrow> Get (op_configmap_client oper) w key = Inl err \<Longrightarrow> IsNotFound (op_configmap_client oper) err"
      "good w \<Longrightarrow> Get (op_group_client oper) w key = Inl err \<Longrightarrow> IsNotFound (op_group_client oper) err"
      "good w \<Longrightarrow> Get (op_machine_client oper) w key = Inl err \<Longrightarrow> IsNotFound (op_machine_client oper) err"
      "good w \<Longrightarrow> Get (op_oauth_client oper) w key = Inl err \<Longrightarrow> IsNotFound (op_oauth_client oper) err"
      "good w \<Longrightarrow> Get (op_proxy_client oper) w key = Inl err \<Longrightarrow> IsNotFound (op_proxy_client oper) err"
      "good w \<Longrightarrow> Get (op_secret_client oper) w key = Inl err \<Longrightarrow> IsNotFound (op_secret_client oper) err"
      "good w \<Longrightarrow> Get (op_cpms_client oper) w key = Inl err \<Longrightarrow> IsNotFound (op_cpms_client oper) err"
    and no_deletion: "good w \<Longrightarrow> view_machines vs w key = Some machine \<Longrightarrow> \<not> is_deleting machine"
    and bundle_read: "good w \<Longrightarrow> view_configmaps vs w (ca_bundle_key (op_network_operator oper)) = Some cm \<Longrightarrow>
      TrustBundleConfigMap (op_network_operator oper) cm (TRUSTED_CA_BUNDLE_CONFIGMAP_KEY (op_network_operator oper)) = Inl err \<Longrightarrow>
      strings_Contains (Error_text (op_network_operator oper) err) ''failed parsing certificate''"
    and machine_set_read: "good w \<Longrightarrow> view_cpms vs w key = Some machine_set \<Longrightarrow>
      \<exists>t. instance_type_of (op_decoders oper) machine_set = Known t"
begin

lemma reader_settles:
  assumes good: "good w" and wf: "agg_wf (op_gauges oper) a"
    and run: "Reconcile oper now c req w a = (out, w', a')"
    and reader: "c \<notin> {ClusterRole_C, Group_C, OAuth_C}"
  shows "\<not> asks_again out \<and> w' = w"
proof (cases c)
  case ConfigMap_C
  let ?cno = "op_network_operator oper" and ?k = "op_configmap_client oper"
  note report = configmap_report [OF laws(1,2) wf laws(3), of ?k req w]
  show ?thesis
  proof (cases "Get ?k w (ca_bundle_key ?cno)")
    case (Inl err)
    with report run good reads_answered(2) ConfigMap_C show ?thesis by auto
  next
    case (Inr cm)
    with report run good ConfigMap_C bundle_read [OF good configmaps.found [OF Inr]] show ?thesis
      by (cases "TrustBundleConfigMap ?cno cm (TRUSTED_CA_BUNDLE_CONFIGMAP_KEY ?cno)") auto
  qed
next
  case LimitedSupport_C
  then show ?thesis
    using limited_support_cases [OF laws(1,2) wf, of "op_configmap_client oper" req w] run good reads_answered(2)
    by (cases "Get (op_configmap_client oper) w limited_support_key") auto
next
  case Machine_C
  then show ?thesis
    using machine_cases [OF laws(1) wf laws(5), of "op_events oper" now req w] run good
      machines.found [of w "machine_key req"] reads_answered(4) no_deletion [OF good]
    by (cases "Get (op_machine_client oper) w (machine_key req)") auto
next
  case Proxy_C
  then show ?thesis
    using proxy_cases [OF laws(1,2) wf, of "op_proxy_client oper" req w] run good reads_answered(6)
    by (cases "Get (op_proxy_client oper) w req") auto
next
  case PullSecret_C
  then show ?thesis
    using pull_secret_cases [OF laws(1,2) wf, of "op_secret_client oper" req w] run good reads_answered(7)
    by (cases "Get (op_secret_client oper) w pull_secret_key") auto
next
  case CPMS_C
  then show ?thesis
    using cpms_report [OF laws(1,2) wf laws(4), of "op_cpms_client oper" req w] run good reads_answered(8)
      cpms.found [of w cpms_key]
    by (cases "Get (op_cpms_client oper) w cpms_key") (auto dest!: machine_set_read [OF good] split: instance_type.splits)
qed (use reader in simp_all)

end

locale obliging_cluster = obliging_reads oper vs good + watched_cluster oper vs
  for oper :: "('w, 'g, 'cm, 'e) operator" and vs :: "('w, 'cm) object_views" and good :: "'w \<Rightarrow> bool" +
  assumes role_update: "good w \<Longrightarrow> view_roles vs w (key_of (role_meta role)) \<noteq> None \<Longrightarrow>
      \<exists>role' w'. Update (op_role_client oper) w role = (Inr role', w') \<and> good w'
        \<and> view_groups vs w' = view_groups vs w \<and> view_oauths vs w' = view_oauths vs w"
    and group_update: "good w \<Longrightarrow> view_groups vs w (key_of (group_meta g)) \<noteq> None \<Longrightarrow>
      \<exists>g' w'. Update (op_group_client oper) w g = (Inr g', w') \<and> good w'
        \<and> view_roles vs w' = view_roles vs w \<and> view_oauths vs w' = view_oauths vs w"
    and oauth_update: "good w \<Longrightarrow> view_oauths vs w (key_of (oauth_meta obj)) \<noteq> None \<Longrightarrow>
      \<exists>obj' w'. Update (op_oauth_client oper) w obj = (Inr obj', w') \<and> good w'
        \<and> view_roles vs w' = view_roles vs w \<and> view_groups vs w' = view_groups vs w"
    and finitely_many: "good w \<Longrightarrow> finite (dom (view_roles vs w))"
      "good w \<Longrightarrow> finite (dom (view_groups vs w))" "good w \<Longrightarrow> finite (dom (view_oauths vs w))"
    and finite_changes: "good w \<Longrightarrow> good w' \<Longrightarrow> finite {(kind, key). \<not> same_object vs w w' kind key}"
begin

lemma changes_told:
  assumes "good w" "good w'" obtains evs where "tells_changes vs w w' evs"
proof -
  obtain changed where changed: "set changed = {(kind, key). \<not> same_object vs w w' kind key}"
    using finite_list [OF finite_changes [OF assms]] by blast
  let ?evt = "\<lambda>key. GenericEvent \<lparr>m_Name = nn_Name key, m_Namespace = nn_Namespace key,
    m_Finalizers = [], m_DeletionTimestamp = None\<rparr>"
  have "announced (map (\<lambda>(kind, key). (kind, ?evt key)) changed) kind key"
    if "\<not> same_object vs w w' kind key" for kind key
    unfolding announced_def
    by (rule exI [of _ "?evt key"]) (use that changed in \<open>force simp: key_of_def\<close>)
  then show ?thesis using that unfolding tells_changes_def by blast
qed

definition settles :: "'w \<Rightarrow> 'e outcome \<Rightarrow> 'w \<Rightarrow> bool" where
  "settles w out w' \<longleftrightarrow> \<not> asks_again out \<and> good w' \<and> (w' = w \<or> due vs w' < due vs w)"

lemma role_settles:
  assumes good: "good w" and run: "ClusterRoleReconcile (op_role_client oper) req w = (out, w')"
    and name: "nn_Name req = clusterAdminName"
  shows "settles w out w'"
proof (cases "Get (op_role_client oper) w req")
  case (Inl err)
  then show ?thesis using run good reads_answered(1) by (auto simp: ClusterRoleReconcile_def settles_def)
next
  case (Inr role)
  let ?role = "set_role_finalizers (RemoveFinalizer (op_role_client oper) (m_Finalizers (role_meta role))
    clusterrole_finalizer) role"
  have view: "view_roles vs w req = Some role" "key_of (role_meta role) = req"
    using role_reads.found [OF Inr] roles.stored_key by auto
  obtain role' w1 where upd: "Update (op_role_client oper) w ?role = (Inr role', w1)" "good w1"
      "view_groups vs w1 = view_groups vs w" "view_oauths vs w1 = view_oauths vs w"
    using role_update [OF good, of ?role] view by auto
  have "\<not> role_due role'"
    using roles.update_response [OF upd(1)] by (simp add: role_due_def roles.remove_finalizer)
  then have "due vs w1 < due vs w" if "role_due role"
    using roles.update_settles [OF upd(1) finitely_many(1) [OF good], of role role_due] view upd(3,4) that
    by (simp add: due_def)
  moreover have "m_Name (role_meta role) = clusterAdminName" using view(2) name by (auto simp: key_of_def)
  ultimately show ?thesis
    using run Inr upd(1,2) good by (auto simp: ClusterRoleReconcile_def settles_def role_due_def split: if_splits)
qed

end


context obliging_cluster
begin

lemma group_settles:
  assumes good: "good w" and wf: "agg_wf (op_gauges oper) a"
    and run: "GroupReconcile (op_group_client oper) (op_gauges oper) (op_clusterId oper) req w a = (out, w', a')"
  shows "settles w out w'"
proof (cases "Get (op_group_client oper) w req")
  case (Inl err)
  then show ?thesis using run good reads_answered(3) by (auto simp: GroupReconcile_def settles_def)
next
  case (Inr g)
  have view: "view_groups vs w req = Some g" "key_of (group_meta g) = req"
    using group_reads.found [OF Inr] groups.stored_key by auto
  have upd: "\<exists>g' w1. Update (op_group_client oper) w (set_group_finalizers fs g) = (Inr g', w1) \<and> good w1
      \<and> due vs w1 < due vs w"
    if "group_due g" "IsZero (m_DeletionTimestamp (group_meta g)) \<longleftrightarrow> group_finalizer \<in> set fs" for fs
  proof -
    obtain g' w1 where u: "Update (op_group_client oper) w (set_group_finalizers fs g) = (Inr g', w1)" "good w1"
        "view_roles vs w1 = view_roles vs w" "view_oauths vs w1 = view_oauths vs w"
      using group_update [OF good, of "set_group_finalizers fs g"] view by auto
    have "\<not> group_due g'" using groups.update_response [OF u(1)] that by (auto simp: group_due_def)
    then have "due vs w1 < due vs w"
      using groups.update_settles [OF u(1) finitely_many(2) [OF good], of g group_due] view u(3,4) that(1)
      by (simp add: due_def)
    with u show ?thesis by blast
  qed
  have "SetClusterAdmin (op_gauges oper) (op_clusterId oper) b a \<noteq> Panicked s" for b s
    using SetClusterAdmin_reports [OF laws(1,2) wf, of b] by (auto elim: reportsE)
  then have call: "\<exists>a'. SetClusterAdmin (op_gauges oper) (op_clusterId oper) b a = Ok a'" for b
    by (cases "SetClusterAdmin (op_gauges oper) (op_clusterId oper) b a") auto
  then obtain A where A: "SetClusterAdmin (op_gauges oper) (op_clusterId oper) b a = Ok (A b)" for b by metis
  show ?thesis
    using run Inr good upd [of "AddFinalizer (op_group_client oper) (m_Finalizers (group_meta g)) group_finalizer"]
      upd [of "RemoveFinalizer (op_group_client oper) (m_Finalizers (group_meta g)) group_finalizer"]
    by (auto simp: GroupReconcile_def settles_def A group_due_def groups.add_finalizer groups.remove_finalizer
        split: if_splits)
qed

lemma oauth_settles:
  assumes good: "good w" and run: "OAuthReconcile (op_oauth_client oper) req w a = (out, w', a')"
  shows "settles w out w'"
proof (cases "Get (op_oauth_client oper) w req")
  case (Inl err)
  then show ?thesis using run good reads_answered(5) by (auto simp: OAuthReconcile_def settles_def)
next
  case (Inr obj)
  have view: "view_oauths vs w req = Some obj" "key_of (oauth_meta obj) = req"
    using oauth_reads.found [OF Inr] oauths.stored_key by auto
  have upd: "\<exists>obj' w1. Update (op_oauth_client oper) w (set_oauth_finalizers fs obj) = (Inr obj', w1) \<and> good w1
      \<and> due vs w1 < due vs w"
    if "oauth_due obj" "IsZero (m_DeletionTimestamp (oauth_meta obj)) \<longleftrightarrow> oauth_finalizer \<in> set fs" for fs
  proof -
    obtain obj' w1 where u: "Update (op_oauth_client oper) w (set_oauth_finalizers fs obj) = (Inr obj', w1)" "good w1"
        "view_roles vs w1 = view_roles vs w" "view_groups vs w1 = view_groups vs w"
      using oauth_update [OF good, of "set_oauth_finalizers fs obj"] view by auto
    have "\<not> oauth_due obj'" using oauths.update_response [OF u(1)] that by (auto simp: oauth_due_def)
    then have "due vs w1 < due vs w"
      using oauths.update_settles [OF u(1) finitely_many(3) [OF good], of obj oauth_due] view u(3,4) that(1)
      by (simp add: due_def)
    with u show ?thesis by blast
  qed
  show ?thesis
    using run Inr good upd [of "AddFinalizer (op_oauth_client oper) (m_Finalizers (oauth_meta obj)) oauth_finalizer"]
      upd [of "RemoveFinalizer (op_oauth_client oper) (m_Finalizers (oauth_meta obj)) oauth_finalizer"]
    by (auto simp: OAuthReconcile_def settles_def oauth_due_def oauths.add_finalizer oauths.remove_finalizer
        split: if_splits)
qed

text \<open>Every answer settles, and the controllers that only read leave the cluster as it is.\<close>

lemma answer_settles:
  assumes good: "good w" and wf: "agg_wf (op_gauges oper) a"
    and run: "Reconcile oper now c req w a = (out, w', a')" and req: "concerns (op_network_operator oper) c req"
  shows "settles w out w'"
proof (cases c)
  case ClusterRole_C
  then show ?thesis using run req role_settles [OF good] by (auto split: prod.splits)
next
  case Group_C
  then show ?thesis using run group_settles [OF good wf] by simp
next
  case OAuth_C
  then show ?thesis using run oauth_settles [OF good] by simp
qed (use reader_settles [OF good wf run] good in \<open>auto simp: settles_def\<close>)

end


subsection \<open>Working the queues off\<close>

text \<open>
  The steps of the operator itself: an event arrives, or a request is answered; new events come
  only of a change that the answer has made to the cluster.
\<close>

definition works :: "('w, 'g, 'cm, 'e) operator \<Rightarrow> ('w, 'cm) object_views \<Rightarrow> (controller \<times> registration) list
    \<Rightarrow> ('w, 'g) queue_state \<Rightarrow> ('w, 'g) queue_state \<Rightarrow> bool" where
  "works oper vs regs s s' \<longleftrightarrow> queue_step oper vs regs Delivers s s' \<or>
     (\<exists>c req. queue_step oper vs regs (Answers c req) s s')
       \<and> (cluster s' = cluster s \<longrightarrow> in_flight s' = in_flight s)"

definition idle :: "('w, 'g) queue_state \<Rightarrow> bool" where
  "idle s \<longleftrightarrow> in_flight s = [] \<and> pending s = {}"

definition backlog :: "(controller \<times> registration) list \<Rightarrow> ('w, 'g) queue_state \<Rightarrow> nat" where
  "backlog regs s = Suc (length regs) * length (in_flight s) + card (pending s)"

definition work_left :: "('w, 'cm) object_views \<Rightarrow> (controller \<times> registration) list
    \<Rightarrow> (('w, 'g) queue_state \<times> ('w, 'g) queue_state) set" where
  "work_left vs regs = measures [\<lambda>s. due vs (cluster s), backlog regs]"

lemma finite_requests: "finite (requests_for regs kind evt)"
  and card_requests: "card (requests_for regs kind evt) \<le> length regs"
proof -
  have sub: "{(c, reg) \<in> set regs. reg_For reg = kind \<and> passes reg evt} \<subseteq> set regs" by auto
  then show "finite (requests_for regs kind evt)"
    unfolding requests_for_def by (intro finite_imageI) (simp add: finite_subset [OF _ finite_set])
  have "card (requests_for regs kind evt) \<le> card {(c, reg) \<in> set regs. reg_For reg = kind \<and> passes reg evt}"
    unfolding requests_for_def by (rule card_image_le) (rule finite_subset [OF sub], simp)
  also have "\<dots> \<le> card (set regs)" by (rule card_mono [OF _ sub]) simp
  finally show "card (requests_for regs kind evt) \<le> length regs" using card_length le_trans by blast
qed

text \<open>There are only finitely many requests at any time.\<close>

lemma queue_finite:
  assumes "queue_reachable oper vs regs s" shows "finite (pending s)"
  using assms by induction
    (auto simp: queue_start_def finite_requests elim!: queue_stepE)

context obliging_cluster
begin

lemma works_decreases:
  assumes step: "works oper vs regs s s'" and good: "good (cluster s)" and wf: "agg_wf (op_gauges oper) (collector s)"
    and fin: "finite (pending s)" and inv: "nothing_missed oper vs regs s"
  shows "(s', s) \<in> work_left vs regs \<and> good (cluster s')"
  using step unfolding works_def
proof
  assume "queue_step oper vs regs Delivers s s'"
  then show ?thesis
  proof cases
    case (delivers pre kind evt post)
    have "card (pending s') \<le> card (pending s) + length regs"
      using card_Un_le [of "pending s" "requests_for regs kind evt"] card_requests [of regs kind evt] delivers(1)
      by simp
    then show ?thesis using delivers good by (simp add: work_left_def backlog_def)
  qed
next
  assume "(\<exists>c req. queue_step oper vs regs (Answers c req) s s') \<and> (cluster s' = cluster s \<longrightarrow> in_flight s' = in_flight s)"
  then obtain c req where "queue_step oper vs regs (Answers c req) s s'"
    and quiet: "cluster s' = cluster s \<longrightarrow> in_flight s' = in_flight s" by blast
  then show ?thesis
  proof cases
    case (answers now out w' a' evs)
    have "concerns (op_network_operator oper) c req" using inv answers(2) by (auto simp: nothing_missed_def)
    from answer_settles [OF good wf answers(3) this]
    have "\<not> asks_again out" "good w'" "w' = cluster s \<or> due vs w' < due vs (cluster s)" by (simp_all add: settles_def)
    moreover have "card (pending s - {(c, req)}) < card (pending s)" by (rule card_Diff1_less [OF fin answers(2)])
    ultimately show ?thesis using answers quiet by (auto simp: work_left_def backlog_def)
  qed
qed

text \<open>A state from which the operator has nothing to do is idle.\<close>

lemma busy_works:
  assumes "\<not> idle s" and good: "good (cluster s)" and wf: "agg_wf (op_gauges oper) (collector s)"
    and inv: "nothing_missed oper vs regs s"
  shows "\<exists>s'. works oper vs regs s s'"
proof (cases "in_flight s")
  case (Cons x post)
  then obtain kind evt where "in_flight s = [] @ (kind, evt) # post" by (cases x) auto
  from queue_step.delivers [OF this] show ?thesis unfolding works_def by blast
next
  case Nil
  with assms(1) obtain c req where req: "(c, req) \<in> pending s" by (auto simp: idle_def)
  obtain out w' a' where run: "Reconcile oper 0 c req (cluster s) (collector s) = (out, w', a')"
    by (rule prod_cases3)
  have "concerns (op_network_operator oper) c req" using inv req by (auto simp: nothing_missed_def)
  from answer_settles [OF good wf run this] have "good w'" by (simp add: settles_def)
  then obtain evs where "tells_changes vs (cluster s) w' evs" using changes_told [OF good] by blast
  then have "tells_changes vs (cluster s) w' (if w' = cluster s then [] else evs)"
    by (auto simp: tells_changes_def)
  from queue_step.answers [OF req run this, of regs] show ?thesis unfolding works_def by fastforce
qed

text \<open>Working goes on only for finitely many steps.\<close>

lemma works_keeps:
  assumes "queue_reachable oper vs regs s" and "proper_registrations (op_network_operator oper) regs"
    and "good (cluster s)" and "works oper vs regs s s'"
  shows "queue_reachable oper vs regs s' \<and> good (cluster s') \<and> (s', s) \<in> work_left vs regs"
proof -
  have "agg_wf (op_gauges oper) (collector s)"
    using reachable_invariant [OF queue_reachable_system [OF assms(1)] oper_ok] by simp
  from works_decreases [OF assms(4,3) this queue_finite [OF assms(1)] queue_invariant [OF assms(1,2)]]
  have "(s', s) \<in> work_left vs regs \<and> good (cluster s')" .
  moreover have "queue_reachable oper vs regs s'"
    using assms(1,4) unfolding works_def by (blast intro: queue_moved)
  ultimately show ?thesis by blast
qed

lemma works_rtranclp_keeps:
  assumes "(works oper vs regs)\<^sup>*\<^sup>* s s'" and "queue_reachable oper vs regs s"
    and "proper_registrations (op_network_operator oper) regs" and "good (cluster s)"
  shows "queue_reachable oper vs regs s' \<and> good (cluster s')"
  using assms by induction (auto dest: works_keeps)

lemma works_terminates:
  assumes "proper_registrations (op_network_operator oper) regs"
    and "queue_reachable oper vs regs (f 0)" and "good (cluster (f 0))"
  shows "\<exists>n. \<not> works oper vs regs (f n) (f (Suc n))"
proof (rule ccontr)
  assume "\<not> (\<exists>n. \<not> works oper vs regs (f n) (f (Suc n)))"
  then have run: "works oper vs regs (f n) (f (Suc n))" for n by blast
  have "queue_reachable oper vs regs (f n) \<and> good (cluster (f n))" for n
    by (induction n) (use assms works_keeps run in blast)+
  then have "(f (Suc n), f n) \<in> work_left vs regs" for n using works_keeps assms(1) run by blast
  moreover have "wf (work_left vs regs)" by (simp add: work_left_def)
  ultimately show False by (auto simp: wf_iff_no_infinite_down_chain)
qed

lemma stuck_idle:
  assumes "queue_reachable oper vs regs s" and "proper_registrations (op_network_operator oper) regs"
    and "good (cluster s)" and "\<not> (\<exists>s'. works oper vs regs s s')"
  shows "idle s"
proof (rule ccontr)
  assume "\<not> idle s"
  moreover have "agg_wf (op_gauges oper) (collector s)"
    using reachable_invariant [OF queue_reachable_system [OF assms(1)] oper_ok] by simp
  ultimately show False using busy_works [OF _ assms(3) _ queue_invariant [OF assms(1,2)]] assms(4) by blast
qed

end


context obliging_cluster
begin

lemma works_to_end:
  assumes "proper_registrations (op_network_operator oper) regs"
    and "queue_reachable oper vs regs s" and "good (cluster s)"
  shows "\<exists>s'. (works oper vs regs)\<^sup>*\<^sup>* s s' \<and> \<not> (\<exists>s''. works oper vs regs s' s'')"
proof -
  have "wf (work_left vs regs)" by (simp add: work_left_def)
  then show ?thesis using assms(2,3)
  proof (induction s rule: wf_induct_rule)
    case (less s)
    show ?case
    proof (cases "\<exists>s1. works oper vs regs s s1")
      case True
      then obtain s1 where s1: "works oper vs regs s s1" by blast
      from works_keeps [OF less.prems(1) assms(1) less.prems(2) s1] less.IH
      obtain s' where "(works oper vs regs)\<^sup>*\<^sup>* s1 s'" "\<not> (\<exists>s''. works oper vs regs s' s'')" by blast
      with s1 show ?thesis by (meson converse_rtranclp_into_rtranclp)
    qed blast
  qed
qed

end

end
