(* ===== verification/Mem_Cluster.thy ===== *)
theory Mem_Cluster
  imports Queue_Settling
begin

section \<open>A concrete cluster\<close>

text \<open>
  A cluster in memory that holds lists of objects of every kind, on which the contracts of the
  watches are met: the three kinds that the controllers write have the in-memory server of
  \<open>Kube\<close>, the others are read from tables. The witnesses of the properties run on it.
\<close>

record mem_world =
  mem_roles :: "ClusterRole list"
  mem_configmaps :: "(NamespacedName, Certificate list) go_map"
  mem_groups :: "Group list"
  mem_machines :: "Machine list"
  mem_oauths :: "OAuth list"
  mem_proxies :: "(NamespacedName, Proxy) go_map"
  mem_secrets :: "(NamespacedName, Secret) go_map"
  mem_cpms :: "(NamespacedName, ControlPlaneMachineSet) go_map"

text \<open>A client of one part of a larger world.\<close>

definition part_client :: "('w \<Rightarrow> 'x) \<Rightarrow> ('x \<Rightarrow> 'w \<Rightarrow> 'w) \<Rightarrow> ('x, 'o, 'e) client \<Rightarrow> ('w, 'o, 'e) client" where
  "part_client part put k = \<lparr>
     Get = (\<lambda>w. Get k (part w)),
     Update = (\<lambda>w obj. case Update k (part w) obj of (r, x) \<Rightarrow> (r, put x w)),
     IsNotFound = IsNotFound k, AddFinalizer = AddFinalizer k, RemoveFinalizer = RemoveFinalizer k\<rparr>"

lemma part_api:
  assumes "api_server k meta stored"
    and "\<And>w obj r x. Update k (part w) obj = (r, x) \<Longrightarrow> part (put x w) = x"
  shows "api_server (part_client part put k) meta (\<lambda>w. stored (part w))"
proof -
  note [dest] = api_server.get_found [OF assms(1)] api_server.get_not_found [OF assms(1)]
    api_server.update_response [OF assms(1)]
  have upd: "\<exists>x. Update k (part w) obj = (r, x) \<and> part w' = x"
    if "Update (part_client part put k) w obj = (r, w')" for w obj r w'
    using that assms(2) by (auto simp: part_client_def split: prod.splits)
  show ?thesis
  proof
    show "stored (part w') = (stored (part w))(key_of (meta obj) := if doomed (meta obj) then None else Some obj')"
      if "Update (part_client part put k) w obj = (Inr obj', w')" for w obj obj' w'
      using upd [OF that] api_server.update_done [OF assms(1), of "part w" obj obj'] by blast
    show "stored (part w') = stored (part w) \<or>
        stored (part w') = (stored (part w))(key_of (meta obj) := if doomed (meta obj) then None else Some obj)"
      if "Update (part_client part put k) w obj = (Inl e, w')" for w obj e w'
      using upd [OF that] api_server.update_error [OF assms(1), of "part w" obj e] by blast
  qed (auto simp: part_client_def api_server.stored_key [OF assms(1)] api_server.add_finalizer [OF assms(1)]
      api_server.remove_finalizer [OF assms(1)] split: prod.splits)
qed

text \<open>A table that is only read.\<close>

definition table_client :: "('w \<Rightarrow> (NamespacedName, 'o) go_map) \<Rightarrow> ('w, 'o, mem_error) client" where
  "table_client table = \<lparr>
     Get = (\<lambda>w key. case map_of (table w) key of None \<Rightarrow> Inl Mem_NotFound | Some obj \<Rightarrow> Inr obj),
     Update = (\<lambda>w obj. (Inr obj, w)), IsNotFound = (\<lambda>e. e = Mem_NotFound),
     AddFinalizer = (\<lambda>fs f. f # fs), RemoveFinalizer = (\<lambda>fs f. removeAll f fs)\<rparr>"

interpretation table: object_reader "table_client table" "\<lambda>w. map_of (table w)" for table
  by unfold_locales (auto simp: table_client_def split: option.splits)

text \<open>The API server accepts only groups without a namespace, and machines with valid names.\<close>

definition unscoped_groups :: "mem_world \<Rightarrow> Group list" where
  "unscoped_groups w = filter (\<lambda>g. m_Namespace (group_meta g) = '''') (mem_groups w)"

definition valid_machines :: "mem_world \<Rightarrow> (NamespacedName, Machine) go_map" where
  "valid_machines w = map (\<lambda>m. (key_of (machine_meta m), m))
     (filter (\<lambda>m. ValidString (m_Name (machine_meta m))
        \<and> (\<forall>node \<in> set_option (status_NodeRef m). ValidString node)) (mem_machines w))"

definition mem_operator :: "(mem_world, map_vec, Certificate list, mem_error) operator" where
  "mem_operator = \<lparr>op_gauges = map_api, op_idp_types = api_idp_types, op_clusterId = ''c1'',
     op_role_client = part_client mem_roles (\<lambda>x w. w\<lparr>mem_roles := x\<rparr>) (mem_client role_meta),
     op_configmap_client = table_client mem_configmaps,
     op_group_client = part_client unscoped_groups (\<lambda>x w. w\<lparr>mem_groups := x\<rparr>) (mem_client group_meta),
     op_machine_client = table_client valid_machines,
     op_oauth_client = part_client mem_oauths (\<lambda>x w. w\<lparr>mem_oauths := x\<rparr>) (mem_client oauth_meta),
     op_proxy_client = table_client mem_proxies,
     op_secret_client = table_client mem_secrets, op_cpms_client = table_client mem_cpms,
     op_network_operator = one_cert_operator, op_decoders = text_decoders,
     op_events = (\<lambda>w ns name. Inr [])\<rparr>"

definition mem_views :: "(mem_world, Certificate list) object_views" where
  "mem_views = \<lparr>view_roles = (\<lambda>w. mem_stored role_meta (mem_roles w)),
     view_configmaps = (\<lambda>w. map_of (mem_configmaps w)),
     view_groups = (\<lambda>w. mem_stored group_meta (unscoped_groups w)),
     view_machines = (\<lambda>w. map_of (valid_machines w)),
     view_oauths = (\<lambda>w. mem_stored oauth_meta (mem_oauths w)),
     view_proxies = (\<lambda>w. map_of (mem_proxies w)), view_secrets = (\<lambda>w. map_of (mem_secrets w)),
     view_cpms = (\<lambda>w. map_of (mem_cpms w))\<rparr>"

lemma unscoped_put:
  assumes "Update (mem_client group_meta) (unscoped_groups w) g = (r, x)"
  shows "unscoped_groups (w'\<lparr>mem_groups := x\<rparr>) = x"
proof -
  have "m_Namespace (group_meta g) = ''''" if "mem_stored group_meta (unscoped_groups w) (key_of (group_meta g)) = Some g'" for g'
    using that by (auto simp: mem_stored_def find_Some_iff unscoped_groups_def key_of_def dest!: nth_mem)
  then have "\<forall>g \<in> set x. m_Namespace (group_meta g) = ''''"
    using assms by (auto simp: mem_client_def mem_put_def unscoped_groups_def split: if_splits)
  then show ?thesis by (simp add: unscoped_groups_def)
qed

lemma mem_operator_ok: "operator_ok mem_operator"
  by (auto simp: operator_ok_def mem_operator_def map_api_gauges api_idp_types_valid one_cert_valid
      text_decoders_valid valid_nodes_def table_client_def valid_machines_def byte_def
      split: option.splits dest!: map_of_SomeD)

lemma mem_machine_named: "map_of (valid_machines w) key = Some machine \<Longrightarrow> key_of (machine_meta machine) = key"
  by (auto simp: valid_machines_def dest!: map_of_SomeD)

lemma mem_group_unscoped: "mem_stored group_meta (unscoped_groups w) key \<noteq> None \<Longrightarrow> nn_Namespace key = ''''"
  by (auto simp: mem_stored_def find_Some_iff unscoped_groups_def key_of_def dest!: nth_mem)

interpretation mem_watch: watched_cluster mem_operator mem_views
proof -
  have apis: "api_server (op_role_client mem_operator) role_meta (view_roles mem_views)"
      "api_server (op_group_client mem_operator) group_meta (view_groups mem_views)"
      "api_server (op_oauth_client mem_operator) oauth_meta (view_oauths mem_views)"
    unfolding mem_operator_def mem_views_def operator.simps object_views.simps
    by (auto intro!: part_api mem_api unscoped_put)
  have tables: "object_reader (op_configmap_client mem_operator) (view_configmaps mem_views)"
      "object_reader (op_machine_client mem_operator) (view_machines mem_views)"
      "object_reader (op_proxy_client mem_operator) (view_proxies mem_views)"
      "object_reader (op_secret_client mem_operator) (view_secrets mem_views)"
      "object_reader (op_cpms_client mem_operator) (view_cpms mem_views)"
    unfolding mem_operator_def mem_views_def operator.simps object_views.simps
    by (fact table.object_reader_axioms)+
  have reads: "read_cluster mem_operator mem_views"
    unfolding read_cluster_def read_cluster_axioms_def
    using apis [THEN server_readable] tables mem_operator_ok mem_machine_named mem_group_unscoped
    by (simp add: mem_views_def)
  show "watched_cluster mem_operator mem_views" unfolding watched_cluster_def using reads apis by blast
qed


subsection \<open>Clusters that oblige\<close>

definition mem_good :: "mem_world \<Rightarrow> bool" where
  "mem_good w \<longleftrightarrow> (\<forall>m \<in> set (mem_machines w). \<not> is_deleting m)
     \<and> (\<forall>(key, cm) \<in> set (mem_configmaps w). list_all (\<lambda>c. ValidString (cert_Subject c)) cm)
     \<and> (\<forall>(key, obj) \<in> set (mem_cpms w).
          case instance_type_of text_decoders obj of Known t \<Rightarrow> True | _ \<Rightarrow> False)"

lemma part_get [simp]: "Get (part_client part put k) w key = Get k (part w) key"
  "IsNotFound (part_client part put k) = IsNotFound k"
  by (simp_all add: part_client_def)

lemma mem_reads:
  "Get (mem_client meta) w key = Inl err \<Longrightarrow> IsNotFound (mem_client meta) err"
  "Get (table_client tb) w' key = Inl err' \<Longrightarrow> IsNotFound (table_client tb) err'"
  by (auto simp: mem_client_def table_client_def split: option.splits)

lemma part_update_found:
  "mem_stored meta (part w) (key_of (meta obj)) \<noteq> None \<Longrightarrow>
   Update (part_client part put (mem_client meta)) w obj = (Inr obj, put (mem_put meta obj (part w)) w)"
  by (simp add: part_client_def mem_client_def)

lemma finite_mem_stored: "finite (dom (mem_stored meta objs))"
proof (rule finite_subset)
  show "dom (mem_stored meta objs) \<subseteq> (\<lambda>obj. key_of (meta obj)) ` set objs"
    by (auto simp: mem_stored_def find_Some_iff)
qed simp

text \<open>What of two worlds differs is among the objects that one of them has.\<close>

lemma finite_differences:
  assumes "finite (dom f)" "finite (dom g)" shows "finite {key. f key \<noteq> g key}"
  by (rule finite_subset [of _ "dom f \<union> dom g"]) (use assms in auto)

lemma kinds_finite:
  fixes P :: "object_kind \<Rightarrow> 'k \<Rightarrow> bool"
  assumes "\<And>kind. finite {key. P kind key}" shows "finite {(kind, key). P kind key}"
proof -
  have "kind \<in> {ClusterVersion_K, ClusterRole_K, ConfigMap_K, Group_K, Machine_K, Event_K, OAuth_K,
      Proxy_K, Secret_K, ControlPlaneMachineSet_K}" for kind by (cases kind) simp_all
  then have "UNIV \<subseteq> {ClusterVersion_K, ClusterRole_K, ConfigMap_K, Group_K, Machine_K, Event_K, OAuth_K,
      Proxy_K, Secret_K, ControlPlaneMachineSet_K}" by blast
  then have kinds: "finite (UNIV :: object_kind set)" using finite_subset by blast
  have "{(kind, key). P kind key} = (\<Union>kind. Pair kind ` {key. P kind key})" by auto
  moreover have "finite (\<Union>kind. Pair kind ` {key. P kind key})"
    by (intro finite_UN_I kinds finite_imageI assms)
  ultimately show ?thesis by simp
qed

lemma mem_differences: "finite {(kind, key). \<not> same_object mem_views w w' kind key}"
proof (rule kinds_finite)
  fix kind
  show "finite {key. \<not> same_object mem_views w w' kind key}"
    by (cases kind) (simp_all add: mem_views_def finite_differences finite_mem_stored finite_dom_map_of)
qed

interpretation mem_obliges: obliging_cluster mem_operator mem_views mem_good
proof
  fix w :: mem_world and err key
  show "Get (op_role_client mem_operator) w key = Inl err \<Longrightarrow> IsNotFound (op_role_client mem_operator) err"
    "Get (op_configmap_client mem_operator) w key = Inl err \<Longrightarrow> IsNotFound (op_configmap_client mem_operator) err"
    "Get (op_group_client mem_operator) w key = Inl err \<Longrightarrow> IsNotFound (op_group_client mem_operator) err"
    "Get (op_machine_client mem_operator) w key = Inl err \<Longrightarrow> IsNotFound (op_machine_client mem_operator) err"
    "Get (op_oauth_client mem_operator) w key = Inl err \<Longrightarrow> IsNotFound (op_oauth_client mem_operator) err"
    "Get (op_proxy_client mem_operator) w key = Inl err \<Longrightarrow> IsNotFound (op_proxy_client mem_operator) err"
    "Get (op_secret_client mem_operator) w key = Inl err \<Longrightarrow> IsNotFound (op_secret_client mem_operator) err"
    "Get (op_cpms_client mem_operator) w key = Inl err \<Longrightarrow> IsNotFound (op_cpms_client mem_operator) err"
    by (simp_all add: mem_operator_def mem_reads)
next
  fix w :: mem_world and role :: ClusterRole assume "mem_good w" "view_roles mem_views w (key_of (role_meta role)) \<noteq> None"
  then show "\<exists>role' w'. Update (op_role_client mem_operator) w role = (Inr role', w') \<and> mem_good w'
      \<and> view_groups mem_views w' = view_groups mem_views w \<and> view_oauths mem_views w' = view_oauths mem_views w"
    by (simp add: mem_operator_def mem_views_def part_update_found mem_good_def unscoped_groups_def)
next
  fix w :: mem_world and g :: Group assume "mem_good w" "view_groups mem_views w (key_of (group_meta g)) \<noteq> None"
  then show "\<exists>g' w'. Update (op_group_client mem_operator) w g = (Inr g', w') \<and> mem_good w'
      \<and> view_roles mem_views w' = view_roles mem_views w \<and> view_oauths mem_views w' = view_oauths mem_views w"
    by (simp add: mem_operator_def mem_views_def part_update_found mem_good_def)
next
  fix w :: mem_world and obj :: OAuth assume "mem_good w" "view_oauths mem_views w (key_of (oauth_meta obj)) \<noteq> None"
  then show "\<exists>obj' w'. Update (op_oauth_client mem_operator) w obj = (Inr obj', w') \<and> mem_good w'
      \<and> view_roles mem_views w' = view_roles mem_views w \<and> view_groups mem_views w' = view_groups mem_views w"
    by (simp add: mem_operator_def mem_views_def part_update_found mem_good_def unscoped_groups_def)
next
  fix w key machine assume "mem_good w" "view_machines mem_views w key = Some machine"
  then show "\<not> is_deleting machine"
    by (auto simp: mem_good_def mem_views_def valid_machines_def dest!: map_of_SomeD)
next
  fix w cm err assume "mem_good w"
    "view_configmaps mem_views w (ca_bundle_key (op_network_operator mem_operator)) = Some cm"
    "TrustBundleConfigMap (op_network_operator mem_operator) cm
       (TRUSTED_CA_BUNDLE_CONFIGMAP_KEY (op_network_operator mem_operator)) = Inl err"
  then show "strings_Contains (Error_text (op_network_operator mem_operator) err) ''failed parsing certificate''"
    by (auto simp: mem_good_def mem_views_def mem_operator_def one_cert_operator_def dest!: map_of_SomeD split: if_splits)
next
  fix w key machine_set assume "mem_good w" "view_cpms mem_views w key = Some machine_set"
  then show "\<exists>t. instance_type_of (op_decoders mem_operator) machine_set = Known t"
    by (cases "instance_type_of text_decoders machine_set")
      (auto simp: mem_good_def mem_views_def mem_operator_def dest!: map_of_SomeD)
next
  fix w show "finite (dom (view_roles mem_views w))" "finite (dom (view_groups mem_views w))"
    "finite (dom (view_oauths mem_views w))" by (simp_all add: mem_views_def finite_mem_stored)
next
  fix w w' show "finite {(kind, key). \<not> same_object mem_views w w' kind key}" by (rule mem_differences)
qed

end
