(* ===== verification/Queue_Properties.thy ===== *)
theory Queue_Properties
  imports Mem_Cluster
begin

section \<open>Properties of the event and request handling\<close>

text \<open>
  The properties are about the registrations that \<open>main\<close> makes: no update of a watched object is
  missed, the queues settle in a cluster that obliges, and what this leaves out - a pull secret that
  has never been there.
\<close>

lemma wanted_registered:
  "main pv env = Next p \<Longrightarrow> c \<in> set (wanted_controllers env) \<longleftrightarrow> c \<in> fst ` set (registrations_of p)"
  using main_registrations(2) [of pv env p] by (metis list.set_map)

text \<open>
  C4: No update is missed. Let the operator run with the controllers that \<open>main\<close> sets up, with
  events delivered in any order and after any delay, reconciles that fail or panic, and the cluster
  changing all the time. Then at every moment, for every object that a metric is about, either a request for it waits in the
  queue of its controller, or an event that tells of it is on its way, or the metrics show the
  object as it is: the limited support flag whether the config map exists, the CA series the bundle or
  its absence, the cluster-admin flag whether the group is alive and has users, the provider entry of each OAuth
  object its providers, the proxy series the proxy, the pull secret series the verdict on the
  secret, the machine set series its type and state; a machine that is gone has no drain series,
  and the cluster role has lost the old finalizer.
\<close>

theorem no_update_missed:
  assumes "watched_cluster oper vs" and "main (op_gauges oper) env = Next p"
    and "Network_operator env = op_network_operator oper"
    and "queue_reachable oper vs (registrations_of p) s"
    and "c \<in> set (wanted_controllers env)" and "relevant (op_network_operator oper) c key"
  shows "(c, key) \<in> pending s \<or> announced (in_flight s) (watched c) key
    \<or> reflected oper vs c key (cluster s) (collector s)"
proof -
  have "proper_registrations (op_network_operator oper) (registrations_of p)"
    using main_registrations(1) [OF assms(2)] assms(3) by simp
  from watched_cluster.queue_invariant [OF assms(1,4) this] assms(5,6) show ?thesis
    by (auto simp: nothing_missed_def accounted_def wanted_registered [OF assms(2)])
qed

text \<open>A cluster with the old finalizer on the cluster role, an admin group without one, and limited support in force.\<close>

definition demo_world :: mem_world where
  "demo_world = \<lparr>mem_roles = [admin_role], mem_configmaps = [(limited_support_key, [])],
     mem_groups = [admins [] None], mem_machines = [], mem_oauths = [],
     mem_proxies = [], mem_secrets = [], mem_cpms = []\<rparr>"

definition demo_events :: event_stream where
  "demo_events = [(ClusterRole_K, CreateEvent (role_meta admin_role)),
     (Group_K, CreateEvent (group_meta (admins [] None))),
     (ConfigMap_K, CreateEvent \<lparr>m_Name = limitedSupportConfigMapName,
       m_Namespace = limitedSupportConfigMapNamespace, m_Finalizers = [], m_DeletionTimestamp = None\<rparr>)]"

lemma demo_tells: "tells_all mem_views demo_world demo_events"
proof -
  have "announced demo_events kind key" if "object_exists mem_views demo_world kind key" for kind key
    using that
    by (cases kind)
      (auto simp: mem_views_def demo_world_def demo_events_def announced_def mem_stored_def
        unscoped_groups_def valid_machines_def limited_support_key_def key_of_def split: if_splits)
  then show ?thesis by (simp add: tells_all_def)
qed

lemma demo_good: "mem_good demo_world"
  by (simp add: mem_good_def demo_world_def)

lemma demo_started:
  obtains p s where "main map_api (good_env True []) = Next p"
    and "queue_start mem_operator mem_views s" and "cluster s = demo_world" and "in_flight s = demo_events"
proof -
  have "parse_flags main_flags [] [] = Parsed [] []" by simp
  then obtain p where p: "main map_api (good_env True []) = Next p" by (rule good_main) blast
  have "ValidString ''c1''" by (simp add: byte_def)
  then obtain a where "NewMetricsAggregator map_api aggregatorResyncInterval ''c1'' = Ok a"
    using NewMetricsAggregator_ok [OF map_api_gauges] by blast
  then have "queue_start mem_operator mem_views
      \<lparr>cluster = demo_world, collector = a, in_flight = demo_events, pending = {}\<rparr>"
    by (simp add: queue_start_def demo_tells) (simp add: mem_operator_def)
  with p that show ?thesis by force
qed

theorem no_update_missed_witness:
  "\<exists>p s. main map_api (good_env True []) = Next p
    \<and> queue_reachable mem_operator mem_views (registrations_of p) s
    \<and> ((Group_C, admin_group_key) \<in> pending s \<or> announced (in_flight s) Group_K admin_group_key
       \<or> reflected mem_operator mem_views Group_C admin_group_key (cluster s) (collector s))"
proof -
  obtain p s where p: "main map_api (good_env True []) = Next p" and s: "queue_start mem_operator mem_views s"
    by (rule demo_started)
  then have main: "main (op_gauges mem_operator) (good_env True []) = Next p"
    "Network_operator (good_env True []) = op_network_operator mem_operator"
    by (simp_all add: mem_operator_def good_env_def)
  have reach: "queue_reachable mem_operator mem_views (registrations_of p) s" by (rule queue_started [OF s])
  have "Group_C \<in> set (wanted_controllers (good_env True []))"
    "relevant (op_network_operator mem_operator) Group_C admin_group_key"
    by (simp_all add: wanted_controllers_def)
  from no_update_missed [OF mem_watch.watched_cluster_axioms main reach this, unfolded watched.simps] p reach
  show ?thesis by blast
qed

text \<open>
  C9: The queues settle. Take any state that the operator can reach and let the cluster oblige from then
  on: reads fail with not-found only, writes succeed, no machine is being deleted, the bundle and the
  machine set can be read. Then the operator cannot be kept busy for ever by its own work: every
  sequence of deliveries and answers, each write of a finalizer with the events it causes
  included, comes to an end. At the end nothing is on its way, no request waits, and the metrics of
  every controller show their objects. And such an end can be reached.
\<close>

theorem queues_settle:
  assumes "obliging_cluster oper vs good" and "main (op_gauges oper) env = Next p"
    and "Network_operator env = op_network_operator oper"
    and "queue_reachable oper vs (registrations_of p) s" and "good (cluster s)"
  shows "\<not> (\<exists>f. f 0 = s \<and> (\<forall>n. works oper vs (registrations_of p) (f n) (f (Suc n))))
    \<and> (\<exists>s'. (works oper vs (registrations_of p))\<^sup>*\<^sup>* s s' \<and> idle s')
    \<and> (\<forall>s'. (works oper vs (registrations_of p))\<^sup>*\<^sup>* s s' \<longrightarrow>
        \<not> (\<exists>s''. works oper vs (registrations_of p) s' s'') \<longrightarrow>
        idle s' \<and> (\<forall>c \<in> set (wanted_controllers env). \<forall>key. relevant (op_network_operator oper) c key \<longrightarrow>
          reflected oper vs c key (cluster s') (collector s')))"
proof -
  let ?regs = "registrations_of p"
  have regs: "proper_registrations (op_network_operator oper) ?regs"
    using main_registrations(1) [OF assms(2)] assms(3) by simp
  have watched: "watched_cluster oper vs" using assms(1) by (simp add: obliging_cluster_def)
  note kept = obliging_cluster.works_rtranclp_keeps [OF assms(1) _ assms(4) regs assms(5)]
  have stuck: "idle s'" if "(works oper vs ?regs)\<^sup>*\<^sup>* s s'" "\<not> (\<exists>s''. works oper vs ?regs s' s'')" for s'
    using obliging_cluster.stuck_idle [OF assms(1) _ regs _ that(2)] kept [OF that(1)] by blast
  have shown: "reflected oper vs c key (cluster s') (collector s')"
    if "(works oper vs ?regs)\<^sup>*\<^sup>* s s'" "idle s'" "c \<in> set (wanted_controllers env)"
      "relevant (op_network_operator oper) c key" for s' c key
    using watched_cluster.queue_invariant [OF watched _ regs] kept [OF that(1)] that(2-4)
    by (fastforce simp: nothing_missed_def accounted_def idle_def announced_def wanted_registered [OF assms(2)])
  obtain s' where s': "(works oper vs ?regs)\<^sup>*\<^sup>* s s'" "\<not> (\<exists>s''. works oper vs ?regs s' s'')"
    using obliging_cluster.works_to_end [OF assms(1) regs assms(4,5)] by blast
  show ?thesis
  proof (intro conjI)
    show "\<not> (\<exists>f. f 0 = s \<and> (\<forall>n. works oper vs ?regs (f n) (f (Suc n))))"
      using obliging_cluster.works_terminates [OF assms(1) regs] assms(4,5) by blast
    show "\<exists>s'. (works oper vs ?regs)\<^sup>*\<^sup>* s s' \<and> idle s'" using s' stuck by blast
  next
    show "\<forall>s'. (works oper vs ?regs)\<^sup>*\<^sup>* s s' \<longrightarrow> \<not> (\<exists>s''. works oper vs ?regs s' s'') \<longrightarrow>
        idle s' \<and> (\<forall>c \<in> set (wanted_controllers env). \<forall>key. relevant (op_network_operator oper) c key \<longrightarrow>
          reflected oper vs c key (cluster s') (collector s'))" (is "\<forall>s'. ?end s'")
    proof
      fix s' show "?end s'"
      proof (intro impI)
        assume run: "(works oper vs ?regs)\<^sup>*\<^sup>* s s'" and "\<not> (\<exists>s''. works oper vs ?regs s' s'')"
        with stuck have "idle s'" by blast
        with shown [OF run] show "idle s' \<and> (\<forall>c \<in> set (wanted_controllers env). \<forall>key.
            relevant (op_network_operator oper) c key \<longrightarrow> reflected oper vs c key (cluster s') (collector s'))"
          by blast
      qed
    qed
  qed
qed

theorem queues_settle_witness:
  "\<exists>p s s'. main map_api (good_env True []) = Next p \<and> queue_start mem_operator mem_views s \<and> in_flight s = demo_events
    \<and> (works mem_operator mem_views (registrations_of p))\<^sup>*\<^sup>* s s' \<and> idle s'"
proof -
  obtain p s where p: "main map_api (good_env True []) = Next p" and s: "queue_start mem_operator mem_views s"
      "cluster s = demo_world" "in_flight s = demo_events"
    by (rule demo_started)
  then have main: "main (op_gauges mem_operator) (good_env True []) = Next p"
    "Network_operator (good_env True []) = op_network_operator mem_operator" "mem_good (cluster s)"
    by (simp_all add: mem_operator_def good_env_def demo_good)
  from queues_settle [OF mem_obliges.obliging_cluster_axioms main(1,2) queue_started [OF s(1)] main(3)]
  obtain s' where "(works mem_operator mem_views (registrations_of p))\<^sup>*\<^sup>* s s'" "idle s'" by (elim conjE exE)
  with p s show ?thesis by blast
qed

text \<open>The secret is not there, and no event tells of it.\<close>

definition secret_unseen :: "('w, 'cm) object_views \<Rightarrow> ('w, 'g) queue_state \<Rightarrow> bool" where
  "secret_unseen vs s \<longleftrightarrow> view_secrets vs (cluster s) pull_secret_key = None
     \<and> \<not> announced (in_flight s) Secret_K pull_secret_key"

text \<open>
  C35: A pull secret that has never been there is never reported. As long as, since the start, the
  secret has not existed and no event has told of it, no reconcile reads it, and the operator exports no series for it
  at all: the reason for a secret that is not found is only ever exported after the deletion of one.
\<close>

theorem absent_secret_unreported:
  assumes "watched_cluster oper vs" and "main (op_gauges oper) env = Next p"
    and "Network_operator env = op_network_operator oper"
    and "queue_start oper vs s0" and "secret_unseen vs s0"
    and "(\<lambda>s s'. (\<exists>l. queue_step oper vs (registrations_of p) l s s') \<and> secret_unseen vs s')\<^sup>*\<^sup>* s0 s"
  shows "exported (op_gauges oper) (collector s) Pull_Secret_Valid = Map.empty"
proof -
  let ?regs = "registrations_of p"
  have regs: "proper_registrations (op_network_operator oper) ?regs"
    using main_registrations(1) [OF assms(2)] assms(3) by simp
  note oper_ok = watched_operator_ok [OF assms(1)]
  have "queue_reachable oper vs ?regs s \<and> secret_unseen vs s
      \<and> (\<forall>req. (PullSecret_C, req) \<notin> pending s)
      \<and> exported (op_gauges oper) (collector s) Pull_Secret_Valid = Map.empty"
    using assms(6)
  proof induction
    case base
    have "gauge_vec (op_gauges oper)" "ValidString (op_clusterId oper)" using oper_ok by (simp_all add: operator_ok_def)
    from NewMetricsAggregator_ok [OF this, of aggregatorResyncInterval] assms(4,5) show ?case
      by (auto simp: queue_start_def expo_set_def intro: queue_started)
  next
    case (step s s')
    then obtain l where l: "queue_step oper vs ?regs l s s'" and unseen: "secret_unseen vs s'" by blast
    have reach: "queue_reachable oper vs ?regs s" using step.IH by blast
    have wf: "agg_wf (op_gauges oper) (collector s)"
      using reachable_invariant [OF queue_reachable_system [OF reach] oper_ok] by simp
    have kept: "exported (op_gauges oper) a' Pull_Secret_Valid = exported (op_gauges oper) (collector s) Pull_Secret_Valid"
      if "system_step oper m (cluster s, collector s) (w', a')" "m \<noteq> Ran PullSecret_C" for m w' a'
      using system_step_expo [OF oper_ok that(1) wf] expo_step_owner that(2) by fastforce
    from l have "(\<forall>req. (PullSecret_C, req) \<notin> pending s')
        \<and> exported (op_gauges oper) (collector s') Pull_Secret_Valid = Map.empty"
    proof cases
      case (changes w' evs)
      with step.IH show ?thesis by simp
    next
      case (delivers pre kind evt post)
      have "\<not> announced (in_flight s) Secret_K pull_secret_key" using step.IH by (simp add: secret_unseen_def)
      then have "(PullSecret_C, req) \<notin> requests_for ?regs kind evt" for req
        unfolding requests_proper [OF regs] delivers(3) by (auto simp: announced_def)
      with delivers step.IH show ?thesis by simp
    next
      case (ticks a')
      with step.IH kept [OF system_step.ticks [OF ticks(3)]] show ?thesis by simp
    next
      case (answers c req now out w' a' evs)
      with step.IH have "c \<noteq> PullSecret_C" by auto
      with answers step.IH kept [OF Reconcile_step [OF answers(4)]] show ?thesis by (simp split: if_splits)
    qed
    then show ?case using queue_moved [OF reach l] unseen by simp
  qed
  then show ?thesis by blast
qed

theorem absent_secret_unreported_witness:
  "\<exists>p s0 s. main map_api (good_env True []) = Next p \<and> queue_start mem_operator mem_views s0
    \<and> queue_step mem_operator mem_views (registrations_of p) Delivers s0 s
    \<and> exported map_api (collector s) Pull_Secret_Valid = Map.empty"
proof -
  obtain p s0 where p: "main map_api (good_env True []) = Next p" and s0: "queue_start mem_operator mem_views s0"
      "cluster s0 = demo_world" "in_flight s0 = demo_events"
    by (rule demo_started)
  let ?step = "queue_step mem_operator mem_views (registrations_of p)"
  have "in_flight s0 = [] @ hd demo_events # tl demo_events" by (simp add: s0(3) demo_events_def)
  then obtain s where s: "?step Delivers s0 s" "cluster s = cluster s0" "in_flight s = tl demo_events"
    using queue_step.delivers [of s0 "[]" "fst (hd demo_events)" "snd (hd demo_events)" "tl demo_events"] by fastforce
  have unseen: "secret_unseen mem_views s0" "secret_unseen mem_views s"
    by (auto simp: secret_unseen_def s(2,3) s0(2,3) mem_views_def demo_world_def announced_def demo_events_def)
  with s(1) have run: "(\<lambda>s s'. (\<exists>l. ?step l s s') \<and> secret_unseen mem_views s')\<^sup>*\<^sup>* s0 s" by blast
  have main: "main (op_gauges mem_operator) (good_env True []) = Next p"
    "Network_operator (good_env True []) = op_network_operator mem_operator"
    using p by (simp_all add: mem_operator_def good_env_def)
  have "exported (op_gauges mem_operator) (collector s) Pull_Secret_Valid = Map.empty"
    by (rule absent_secret_unreported [OF mem_watch.watched_cluster_axioms main s0(1) unseen(1) run])
  then have "exported map_api (collector s) Pull_Secret_Valid = Map.empty" by (simp add: mem_operator_def)
  with p s0(1) s(1) show ?thesis by blast
qed

end
