(* ===== verification/End_To_End.thy ===== *)
theory End_To_End
  imports Queue_Properties
begin

section \<open>From the cluster to the counts\<close>

text \<open>
  The invariant of the queue says what the metrics show of an object that exists. For the two metrics
  that a finalizer protects it can be completed: if nobody but its controller takes the finalizer
  away, no entry and no flag stays behind for an object that is gone. So in an idle state the
  number of identity providers and the cluster-admin flag are functions of the cluster alone.
\<close>

definition oauth_held :: "('w, 'cm) object_views \<Rightarrow> 'w \<Rightarrow> NamespacedName \<Rightarrow> bool" where
  "oauth_held vs = holds_finalizer oauth_meta (view_oauths vs) oauth_finalizer"

definition group_held :: "('w, 'cm) object_views \<Rightarrow> 'w \<Rightarrow> NamespacedName \<Rightarrow> bool" where
  "group_held vs = holds_finalizer group_meta (view_groups vs) group_finalizer"

lemma held_there:
  "oauth_held vs w key \<Longrightarrow> \<exists>obj. view_oauths vs w key = Some obj"
  "group_held vs w key \<Longrightarrow> \<exists>g. view_groups vs w key = Some g"
  by (auto simp: oauth_held_def group_held_def holds_finalizer_def split: option.splits)

fun answered_by :: "queue_action \<Rightarrow> controller option" where
  "answered_by (Answers c req) = Some c"
| "answered_by l = None"

text \<open>A step in which a finalizer goes away only by the controller that has put it on.\<close>

definition guarded_step :: "('w, 'g, 'cm, 'e) operator \<Rightarrow> ('w, 'cm) object_views
    \<Rightarrow> (controller \<times> registration) list \<Rightarrow> ('w, 'g) queue_state \<Rightarrow> ('w, 'g) queue_state \<Rightarrow> bool" where
  "guarded_step oper vs regs s s' \<longleftrightarrow> (\<exists>l. queue_step oper vs regs l s s'
     \<and> (answered_by l \<noteq> Some OAuth_C \<longrightarrow>
          (\<forall>key. oauth_held vs (cluster s) key \<longrightarrow> oauth_held vs (cluster s') key))
     \<and> (answered_by l \<noteq> Some Group_C \<longrightarrow>
          (\<forall>key. group_held vs (cluster s) key \<longrightarrow> group_held vs (cluster s') key)))"

definition reports_backed :: "('w, 'g, 'cm, 'e) operator \<Rightarrow> ('w, 'cm) object_views \<Rightarrow> ('w, 'g) queue_state \<Rightarrow> bool" where
  "reports_backed oper vs s \<longleftrightarrow>
     (\<forall>key. idp_reported (collector s) key \<longrightarrow> oauth_held vs (cluster s) key)
     \<and> (scraped oper (collector s) Cluster_Admin_Enabled [op_clusterId oper] = Some 1 \<longrightarrow>
          group_held vs (cluster s) admin_group_key)"

text \<open>Both flags of a step of somebody else: the reports are unchanged.\<close>

lemma others_keep_reports:
  assumes "operator_ok oper" "agg_wf (op_gauges oper) a" "system_step oper l (w, a) (w', a')"
  shows "l \<noteq> Ran OAuth_C \<Longrightarrow> idp_reported a' = idp_reported a"
    and "l \<noteq> Ran Group_C \<Longrightarrow> scraped oper a' Cluster_Admin_Enabled = scraped oper a Cluster_Admin_Enabled"
proof -
  note expo = system_step_expo [OF assms(1,3,2)]
  show "l \<noteq> Ran OAuth_C \<Longrightarrow> idp_reported a' = idp_reported a" using expo by (auto simp: idp_reported_def fun_eq_iff)
  show "l \<noteq> Ran Group_C \<Longrightarrow> scraped oper a' Cluster_Admin_Enabled = scraped oper a Cluster_Admin_Enabled"
    using expo expo_step_owner by (metis owner.simps(2))
qed

context group_context
begin

lemma group_backed_step:
  assumes "agg_wf pv a" and "GroupReconcile k pv clusterId req w a = (out, w', a')"
    and "exported pv a Cluster_Admin_Enabled [clusterId] = Some 1 \<Longrightarrow> holds_finalizer group_meta stored group_finalizer w req"
    and "exported pv a' Cluster_Admin_Enabled [clusterId] = Some 1"
  shows "holds_finalizer group_meta stored group_finalizer w' req"
  by (rule protocol.step_backed [OF assms(1), of w])
    (use assms in \<open>auto simp: admin_reported_def group_step_def\<close>)

end

context watched_cluster
begin

lemma group_answer_backed:
  assumes wf: "agg_wf (op_gauges oper) a"
    and run: "GroupReconcile (op_group_client oper) (op_gauges oper) (op_clusterId oper) req w a = (out, w', a')"
    and name: "nn_Name req = clusterAdminGroupName"
    and backed: "scraped oper a Cluster_Admin_Enabled [op_clusterId oper] = Some 1 \<Longrightarrow> group_held vs w admin_group_key"
    and flag: "scraped oper a' Cluster_Admin_Enabled [op_clusterId oper] = Some 1"
  shows "group_held vs w' admin_group_key"
proof (cases "req = admin_group_key")
  case True
  have "holds_finalizer group_meta (view_groups vs) group_finalizer w' req"
    by (rule group_context.group_backed_step [OF group_context_here wf run])
      (use backed flag True in \<open>auto simp: group_held_def\<close>)
  then show ?thesis using True by (simp add: group_held_def)
next
  case False
  with group_elsewhere [OF name False run] backed flag show ?thesis by simp
qed

end


context read_cluster
begin

text \<open>The cluster-admin flag is always there.\<close>

lemma admin_flag_there:
  assumes "reachable oper s"
  shows "scraped oper (snd s) Cluster_Admin_Enabled [op_clusterId oper] \<in> {Some 0, Some 1}"
  using assms
proof induction
  case (started a w)
  from NewMetricsAggregator_ok [OF laws(1,2), of aggregatorResyncInterval] started show ?case
    by (auto simp: expo_set_def)
next
  case (stepped s l s')
  obtain w a w' a' where s: "s = (w, a)" "s' = (w', a')" by (cases s; cases s') auto
  have "agg_wf (op_gauges oper) a" using reachable_invariant [OF stepped(1) oper_ok] s by simp
  from system_step_expo [OF oper_ok _ this] stepped(2,3) s
  have "expo_step (op_clusterId oper) (op_idp_types oper) l (scraped oper a) (scraped oper a')" by blast
  with stepped(3) s show ?case by (elim expo_stepE) (auto simp: expo_simps)
qed

end


context watched_cluster
begin

lemma guarded_backed:
  assumes atomic: "atomic_api_server (op_oauth_client oper) oauth_meta (view_oauths vs)"
    and step: "guarded_step oper vs regs s s'" and wf: "agg_wf (op_gauges oper) (collector s)"
    and inv: "nothing_missed oper vs regs s" and backed: "reports_backed oper vs s"
  shows "reports_backed oper vs s'"
proof -
  obtain l where l: "queue_step oper vs regs l s s'"
    and oauth: "answered_by l \<noteq> Some OAuth_C \<Longrightarrow> oauth_held vs (cluster s) key \<Longrightarrow> oauth_held vs (cluster s') key"
    and grp: "answered_by l \<noteq> Some Group_C \<Longrightarrow> group_held vs (cluster s) key \<Longrightarrow> group_held vs (cluster s') key"
    for key using step unfolding guarded_step_def by blast
  note b = backed [unfolded reports_backed_def]
  from l show ?thesis
  proof cases
    case (changes w' evs)
    then show ?thesis using b oauth grp by (simp add: reports_backed_def)
  next
    case (delivers pre kind evt post)
    then show ?thesis using b by (simp add: reports_backed_def)
  next
    case (ticks a')
    with others_keep_reports [OF oper_ok wf system_step.ticks [OF ticks(3)]] b oauth grp
    show ?thesis by (simp add: reports_backed_def)
  next
    case (answers c req now out w' a' evs)
    note others = others_keep_reports [OF oper_ok wf Reconcile_step [OF answers(4)]]
    have req: "concerns (op_network_operator oper) c req" using inv answers(3) by (auto simp: nothing_missed_def)
    have "idp_reported a' key \<longrightarrow> oauth_held vs w' key" for key
    proof (cases "c = OAuth_C")
      case True
      then show ?thesis
        using oauth_atomic_context.oauth_backed_step [OF oauth_atomic_contextI [OF atomic laws(1)] wf, of req] answers(4) b
        by (auto simp: oauth_held_def)
    next
      case False
      then show ?thesis using others(1) b oauth answers(1,2) by auto
    qed
    moreover have "scraped oper a' Cluster_Admin_Enabled [op_clusterId oper] = Some 1 \<longrightarrow> group_held vs w' admin_group_key"
    proof (cases "c = Group_C")
      case True
      then show ?thesis using group_answer_backed [OF wf] answers(4) req b by auto
    next
      case False
      then show ?thesis using others(2) b grp answers(1,2) by auto
    qed
    ultimately show ?thesis using answers(2) by (simp add: reports_backed_def)
  qed
qed

lemma guarded_run:
  assumes "atomic_api_server (op_oauth_client oper) oauth_meta (view_oauths vs)"
    and "proper_registrations (op_network_operator oper) regs"
    and "(guarded_step oper vs regs)\<^sup>*\<^sup>* s0 s" and "queue_start oper vs s0"
  shows "queue_reachable oper vs regs s \<and> reports_backed oper vs s"
  using assms(3)
proof induction
  case base
  from NewMetricsAggregator_ok [OF laws(1,2), of aggregatorResyncInterval] assms(4)
  show ?case by (auto simp: queue_start_def reports_backed_def idp_reported_def expo_set_def intro: queue_started)
next
  case (step s s')
  have reach: "queue_reachable oper vs regs s" using step.IH by blast
  have wf: "agg_wf (op_gauges oper) (collector s)"
    using reachable_invariant [OF queue_reachable_system [OF reach] oper_ok] by simp
  have "queue_reachable oper vs regs s'" using step.hyps(2) reach unfolding guarded_step_def by (blast intro: queue_moved)
  with guarded_backed [OF assms(1) step.hyps(2) wf queue_invariant [OF reach assms(2)]] step.IH show ?case by blast
qed

end

subsection \<open>Counting\<close>

definition live_oauths :: "('w, 'cm) object_views \<Rightarrow> 'w \<Rightarrow> NamespacedName set" where
  "live_oauths vs w = {key. \<exists>obj. view_oauths vs w key = Some obj \<and> IsZero (m_DeletionTimestamp (oauth_meta obj))}"

definition idp_total :: "('w, 'cm) object_views \<Rightarrow> 'w \<Rightarrow> string \<Rightarrow> nat" where
  "idp_total vs w t = (\<Sum>key \<in> live_oauths vs w.
     count_list (map idp_Type (spec_IdentityProviders (the (view_oauths vs w key)))) t)"

lemma provider_total_sum:
  assumes "keys_distinct m"
  shows "provider_total m t = (\<Sum>k \<in> dom (map_of m). count_list (the (map_of m k)) t)"
  using assms
proof (induction m)
  case (Cons x m)
  obtain k ts where x: "x = (k, ts)" by (rule prod.exhaust)
  have fresh: "map_of m k = None" using Cons.prems x by (auto simp: map_of_eq_None_iff)
  have "(\<Sum>k' \<in> dom (map_of m). count_list (the (map_of ((k, ts) # m) k')) t) =
      (\<Sum>k' \<in> dom (map_of m). count_list (the (map_of m k')) t)"
    by (rule sum.cong) (use fresh in auto)
  moreover have "dom (\<lambda>a. if a = k then Some ts else map_of m a) = insert k (dom (map_of m))" by auto
  moreover have "k \<notin> dom (map_of m)" using fresh by auto
  ultimately show ?case
    using Cons x by (simp add: provider_total_def finite_dom_map_of)
qed (simp add: provider_total_def)


lemma provider_key_surj: "\<exists>key. k = provider_key key"
  by (rule exI [of _ "\<lparr>nn_Namespace = pk_namespace k, nn_Name = pk_name k\<rparr>"]) (simp add: provider_key_def)

lemma provider_total_live:
  assumes "keys_distinct m"
    and "\<And>key. map_of m (provider_key key) = (if key \<in> live_oauths vs w
      then Some (map idp_Type (spec_IdentityProviders (the (view_oauths vs w key)))) else None)"
  shows "provider_total m t = idp_total vs w t"
proof -
  have "dom (map_of m) = provider_key ` live_oauths vs w"
    using assms(2) provider_key_surj by (fastforce simp: dom_def split: if_splits)
  then have "provider_total m t = (\<Sum>k \<in> provider_key ` live_oauths vs w. count_list (the (map_of m k)) t)"
    by (simp add: provider_total_sum [OF assms(1)])
  also have "\<dots> = (\<Sum>key \<in> live_oauths vs w. count_list (the (map_of m (provider_key key))) t)"
    by (rule sum.reindex_cong [of provider_key]) (auto intro: inj_onI)
  also have "\<dots> = idp_total vs w t" unfolding idp_total_def by (rule sum.cong) (simp_all add: assms(2))
  finally show ?thesis .
qed

lemma idle_reflected:
  assumes "nothing_missed oper vs regs s" and "idle s" and "c \<in> fst ` set regs"
    and "relevant (op_network_operator oper) c key"
  shows "reflected oper vs c key (cluster s) (collector s)"
  using assms by (fastforce simp: nothing_missed_def accounted_def idle_def announced_def)

text \<open>If the OAuth objects and the group are shown, and nothing else is, the counts are exact.\<close>

lemma counts_of_reflected:
  assumes ok: "operator_ok oper" and wf: "agg_wf (op_gauges oper) a"
    and oauths: "\<And>key. reflected oper vs OAuth_C key w a" "\<And>key. idp_reported a key \<Longrightarrow> view_oauths vs w key \<noteq> None"
    and grp: "reflected oper vs Group_C admin_group_key w a"
      "scraped oper a Cluster_Admin_Enabled [op_clusterId oper] = Some 1 \<Longrightarrow> view_groups vs w admin_group_key \<noteq> None"
      "scraped oper a Cluster_Admin_Enabled [op_clusterId oper] \<in> {Some 0, Some 1}"
    and run: "aggregate (op_gauges oper) (op_idp_types oper) a = Ok a'"
    and t: "t \<in> set (knownIdentityProviderTypes (op_idp_types oper))"
  shows "exported (op_gauges oper) a' Identity_Provider [t] = Some (float64 (int (idp_total vs w t)))
    \<and> exported (op_gauges oper) a' Cluster_Admin_Enabled [op_clusterId oper] =
        Some (of_bool (\<exists>g. view_groups vs w admin_group_key = Some g
          \<and> IsZero (m_DeletionTimestamp (group_meta g)) \<and> Users g \<noteq> []))"
proof -
  have entries: "map_of (providerMap a) (provider_key key) = (if key \<in> live_oauths vs w
      then Some (map idp_Type (spec_IdentityProviders (the (view_oauths vs w key)))) else None)" for key
    using oauths(1) [of key] oauths(2) [of key]
    by (cases "view_oauths vs w key"; cases "map_of (providerMap a) (provider_key key)") (auto simp: live_oauths_def idp_reported_def)
  have total: "provider_total (providerMap a) t = idp_total vs w t"
    using wf by (intro provider_total_live entries) (simp add: agg_wf_def)
  have laws: "gauge_vec (op_gauges oper)" "list_all ValidString (knownIdentityProviderTypes (op_idp_types oper))"
    using ok by (simp_all add: operator_ok_def)
  have e: "exported (op_gauges oper) a' = expo_providers (op_idp_types oper) (providerMap a) (exported (op_gauges oper) a)"
    using aggregate_reports [OF laws(1) wf laws(2)] run by (auto elim: reportsE)
  have "scraped oper a Cluster_Admin_Enabled [op_clusterId oper] =
      Some (of_bool (\<exists>g. view_groups vs w admin_group_key = Some g
        \<and> IsZero (m_DeletionTimestamp (group_meta g)) \<and> Users g \<noteq> []))"
    using grp by (cases "view_groups vs w admin_group_key") auto
  then show ?thesis using t by (simp add: e expo_providers_def total)
qed

subsection \<open>Properties\<close>

text \<open>
  The counts are those of the cluster. Let the operator run from its start under the controllers of
  \<open>main\<close>, with updates that are not applied when they return an error, and let nobody else take the
  finalizers of the operator away. Whenever it is idle, the next round of the aggregation loop exports,
  for every known type, exactly the number of identity providers of this type over all OAuth objects that are not being
  deleted (rounded to a float64), and the cluster-admin flag is 1 if the group cluster-admins exists, is not being
  deleted and has users, and 0 otherwise. Nothing is left over from objects that are gone.
\<close>

theorem idle_counts_exact:
  assumes "watched_cluster oper vs"
    and "atomic_api_server (op_oauth_client oper) oauth_meta (view_oauths vs)"
    and "main (op_gauges oper) env = Next p" and "Network_operator env = op_network_operator oper"
    and "queue_start oper vs s0" and "(guarded_step oper vs (registrations_of p))\<^sup>*\<^sup>* s0 s" and "idle s"
    and "aggregate (op_gauges oper) (op_idp_types oper) (collector s) = Ok a'"
    and "t \<in> set (knownIdentityProviderTypes (op_idp_types oper))"
  shows "exported (op_gauges oper) a' Identity_Provider [t] = Some (float64 (int (idp_total vs (cluster s) t)))
    \<and> exported (op_gauges oper) a' Cluster_Admin_Enabled [op_clusterId oper] =
        Some (of_bool (\<exists>g. view_groups vs (cluster s) admin_group_key = Some g
          \<and> IsZero (m_DeletionTimestamp (group_meta g)) \<and> Users g \<noteq> []))"
proof -
  let ?regs = "registrations_of p" and ?a = "collector s"
  have regs: "proper_registrations (op_network_operator oper) ?regs"
    using main_registrations(1) [OF assms(3)] assms(4) by simp
  from watched_cluster.guarded_run [OF assms(1,2) regs assms(6,5)]
  have reach: "queue_reachable oper vs ?regs s" and backed: "reports_backed oper vs s" by simp_all
  have ok: "operator_ok oper" by (rule watched_operator_ok [OF assms(1)])
  have wf: "agg_wf (op_gauges oper) ?a"
    using reachable_invariant [OF queue_reachable_system [OF reach] ok] by simp
  have shown: "reflected oper vs c key (cluster s) ?a"
    if "c \<in> set (wanted_controllers env)" "relevant (op_network_operator oper) c key" for c key
    using idle_reflected [OF watched_cluster.queue_invariant [OF assms(1) reach regs] assms(7)] that
    by (simp add: wanted_registered [OF assms(3)])
  have admins: "scraped oper ?a Cluster_Admin_Enabled [op_clusterId oper] \<in> {Some 0, Some 1}"
    using read_cluster.admin_flag_there [OF watched_reads [OF assms(1)] queue_reachable_system [OF reach]] by simp
  show ?thesis
  proof (rule counts_of_reflected [OF ok wf _ _ _ _ admins assms(8,9)])
    show "reflected oper vs OAuth_C key (cluster s) ?a" for key
      by (rule shown) (simp_all add: wanted_controllers_def)
    show "reflected oper vs Group_C admin_group_key (cluster s) ?a"
      by (rule shown) (simp_all add: wanted_controllers_def)
  qed (use backed in \<open>auto simp: reports_backed_def dest: held_there\<close>)
qed


text \<open>A cluster with one OAuth object that has one provider, and the run that reports it.\<close>

definition provider_world :: mem_world where
  "provider_world = \<lparr>mem_roles = [], mem_configmaps = [], mem_groups = [], mem_machines = [],
     mem_oauths = [ldap_oauth [oauth_finalizer] None], mem_proxies = [], mem_secrets = [], mem_cpms = []\<rparr>"

definition provider_event :: watch_event where
  "provider_event = CreateEvent (oauth_meta (ldap_oauth [oauth_finalizer] None))"

lemma mem_oauth_atomic: "atomic_api_server (op_oauth_client mem_operator) oauth_meta (view_oauths mem_views)"
proof -
  have "Update (op_oauth_client mem_operator) w obj = (Inl e, w') \<Longrightarrow> view_oauths mem_views w' = view_oauths mem_views w"
    for w obj e w'
    by (auto simp: mem_operator_def mem_views_def part_client_def mem_client_def split: if_splits)
  then show ?thesis
    using mem_watch.oauths.api_server_axioms by (simp add: atomic_api_server_def atomic_api_server_axioms_def)
qed

lemma provider_world_views:
  "view_oauths mem_views provider_world = [oauth_key \<mapsto> ldap_oauth [oauth_finalizer] None]"
  "view_groups mem_views provider_world key = None"
  "idp_total mem_views provider_world ''LDAP'' = 1"
proof -
  show v: "view_oauths mem_views provider_world = [oauth_key \<mapsto> ldap_oauth [oauth_finalizer] None]"
    by (auto simp: mem_views_def provider_world_def mem_stored_def fun_eq_iff)
  show "view_groups mem_views provider_world key = None"
    by (simp add: mem_views_def provider_world_def mem_stored_def unscoped_groups_def)
  have "live_oauths mem_views provider_world = {oauth_key}"
    by (auto simp: live_oauths_def v ldap_oauth_def IsZero_def split: if_splits)
  then show "idp_total mem_views provider_world ''LDAP'' = 1"
    by (simp add: idp_total_def v) (simp add: ldap_oauth_def)
qed

lemma provider_tells: "tells_all mem_views provider_world [(OAuth_K, provider_event)]"
proof -
  have "announced [(OAuth_K, provider_event)] kind key" if "object_exists mem_views provider_world kind key" for kind key
    using that
    by (cases kind)
      (auto simp: provider_world_views announced_def provider_event_def split: if_splits,
       auto simp: mem_views_def provider_world_def mem_stored_def valid_machines_def)
  then show ?thesis by (simp add: tells_all_def)
qed

lemma provider_run:
  assumes regs: "proper_registrations one_cert_operator regs" "OAuth_C \<in> fst ` set regs"
    and a: "NewMetricsAggregator map_api aggregatorResyncInterval ''c1'' = Ok a"
  obtains s0 s where "queue_start mem_operator mem_views s0"
    and "(guarded_step mem_operator mem_views regs)\<^sup>*\<^sup>* s0 s" and "idle s"
    and "cluster s = provider_world" and "agg_wf map_api (collector s)"
proof -
  let ?obj = "ldap_oauth [oauth_finalizer] None"
  let ?a1 = "SetOAuthIDP (m_Name (oauth_meta ?obj)) (m_Namespace (oauth_meta ?obj)) (spec_IdentityProviders ?obj) a"
  define s0 where "s0 = \<lparr>cluster = provider_world, collector = a, in_flight = [(OAuth_K, provider_event)], pending = {}\<rparr>"
  define s1 where "s1 = \<lparr>cluster = provider_world, collector = a, in_flight = [], pending = {(OAuth_C, oauth_key)}\<rparr>"
  define s2 where "s2 = \<lparr>cluster = provider_world, collector = ?a1, in_flight = [], pending = {}\<rparr>"
  have start: "queue_start mem_operator mem_views s0"
    using a by (simp add: queue_start_def s0_def provider_tells) (simp add: mem_operator_def)
  have "c = OAuth_C" if "watched c = OAuth_K" for c using that by (cases c) simp_all
  then have "requests_for regs OAuth_K provider_event = {(OAuth_C, oauth_key)}"
    using regs(2) by (auto simp: requests_proper [OF regs(1)] provider_event_def)
  then have "queue_step mem_operator mem_views regs Delivers s0 s1"
    using queue_step.delivers [of s0 "[]" OAuth_K provider_event "[]" mem_operator mem_views regs] by (simp add: s0_def s1_def)
  then have g1: "guarded_step mem_operator mem_views regs s0 s1"
    unfolding guarded_step_def by (intro exI [of _ Delivers]) (simp add: s0_def s1_def)
  have get: "Get (op_oauth_client mem_operator) provider_world oauth_key = Inr ?obj"
    by (simp add: mem_operator_def provider_world_def mem_client_def mem_stored_def)
  have "IsZero (m_DeletionTimestamp (oauth_meta ?obj))" "m_Finalizers (oauth_meta ?obj) = [oauth_finalizer]"
    by (simp_all add: ldap_oauth_def IsZero_def)
  then have "Reconcile mem_operator 0 OAuth_C oauth_key provider_world a = (Returned empty_Result None, provider_world, ?a1)"
    by (simp add: OAuthReconcile_def get)
  then have "queue_step mem_operator mem_views regs (Answers OAuth_C oauth_key) s1 s2"
    using queue_step.answers [of OAuth_C oauth_key s1 mem_operator 0 "Returned empty_Result None" provider_world ?a1
        mem_views "[]" regs]
    by (simp add: s1_def s2_def tells_changes_def)
  then have g2: "guarded_step mem_operator mem_views regs s1 s2"
    unfolding guarded_step_def by (intro exI [of _ "Answers OAuth_C oauth_key"]) (simp add: s1_def s2_def)
  have "ValidString ''c1''" by (simp add: byte_def)
  from NewMetricsAggregator_ok [OF map_api_gauges this, of aggregatorResyncInterval] a
  have "agg_wf map_api ?a1" by (auto intro: SetOAuthIDP_wf)
  moreover have "(guarded_step mem_operator mem_views regs)\<^sup>*\<^sup>* s0 s2" using g1 g2 by (meson r_into_rtranclp rtranclp_trans)
  ultimately show ?thesis using that [of s0 s2] start by (simp add: s2_def idle_def)
qed

theorem idle_counts_exact_witness:
  "\<exists>p s0 s a'. main map_api (good_env True []) = Next p
    \<and> (guarded_step mem_operator mem_views (registrations_of p))\<^sup>*\<^sup>* s0 s \<and> cluster s = provider_world
    \<and> aggregate map_api api_idp_types (collector s) = Ok a'
    \<and> exported map_api a' Identity_Provider [''LDAP''] = Some 1
    \<and> exported map_api a' Cluster_Admin_Enabled [''c1''] = Some 0"
proof -
  have "parse_flags main_flags [] [] = Parsed [] []" by simp
  then obtain p where p: "main map_api (good_env True []) = Next p" by (rule good_main) blast
  have main: "main (op_gauges mem_operator) (good_env True []) = Next p"
    "Network_operator (good_env True []) = op_network_operator mem_operator"
    using p by (simp_all add: mem_operator_def good_env_def)
  have regs: "proper_registrations one_cert_operator (registrations_of p)" "OAuth_C \<in> fst ` set (registrations_of p)"
    using main_registrations(1) [OF p] wanted_registered [OF p, of OAuth_C]
    by (simp_all add: good_env_def wanted_controllers_def)
  have "ValidString ''c1''" by (simp add: byte_def)
  then obtain a where "NewMetricsAggregator map_api aggregatorResyncInterval ''c1'' = Ok a"
    using NewMetricsAggregator_ok [OF map_api_gauges] by blast
  from provider_run [OF regs this] obtain s0 s where s: "queue_start mem_operator mem_views s0"
      "(guarded_step mem_operator mem_views (registrations_of p))\<^sup>*\<^sup>* s0 s" "idle s"
      "cluster s = provider_world" "agg_wf map_api (collector s)" by metis
  obtain a' where a': "aggregate map_api api_idp_types (collector s) = Ok a'"
    using aggregate_returns [OF map_api_gauges s(5) api_idp_types_valid] by blast
  have oper: "op_gauges mem_operator = map_api" "op_idp_types mem_operator = api_idp_types" "op_clusterId mem_operator = ''c1''"
    by (simp_all add: mem_operator_def)
  have "''LDAP'' \<in> set (knownIdentityProviderTypes api_idp_types)"
    by (simp add: knownIdentityProviderTypes_def api_idp_types_def)
  from idle_counts_exact [OF mem_watch.watched_cluster_axioms mem_oauth_atomic main s(1-3), unfolded oper, OF a' this]
  have "exported map_api a' Identity_Provider [''LDAP''] = Some 1" "exported map_api a' Cluster_Admin_Enabled [''c1''] = Some 0"
    by (simp_all add: s(4) provider_world_views float64_exact)
  with p s(2,4) a' show ?thesis by blast
qed

end
