(* ===== verification/Operator_Refinement.thy ===== *)
theory Operator_Refinement
  imports End_To_End
begin

section \<open>What every reconcile makes of the metrics\<close>

text \<open>
  The abstract operator: the exported series, the entries of identity providers and the
  draining machines as mathematical maps, without vectors, labels, loops and resets. Its operations say what
  a reconcile makes of them, as a function of what the reads answer and whether the updates are
  accepted. The detailed reconcilers compute exactly these functions: each operation of the
  program commutes with the abstraction.
\<close>

record abstract_state =
  shown :: exposition
  entries :: "providerKey \<rightharpoonup> string list"
  draining :: "string \<rightharpoonup> string \<times> (string \<rightharpoonup> string)"

definition abstraction :: "('w, 'g, 'cm, 'e) operator \<Rightarrow> 'g AdoptionMetricsAggregator \<Rightarrow> abstract_state" where
  "abstraction oper a = \<lparr>shown = exported (op_gauges oper) a, entries = map_of (providerMap a),
     draining = (\<lambda>m. map_option (\<lambda>i. (nodeName i, map_of (podNamespaces i))) (map_of (drainingMachines a) m))\<rparr>"

lemma abstraction_simps [simp]:
  "shown (abstraction oper a) = exported (op_gauges oper) a"
  "entries (abstraction oper a) = map_of (providerMap a)"
  "draining (abstraction oper a) = (\<lambda>m. map_option (\<lambda>i. (nodeName i, map_of (podNamespaces i))) (map_of (drainingMachines a) m))"
  by (simp_all add: abstraction_def)

subsection \<open>The abstract operations\<close>

datatype 'o answer = Found 'o | Missing | Unknown

definition answer_to :: "('w, 'o, 'e) client \<Rightarrow> 'w \<Rightarrow> NamespacedName \<Rightarrow> 'o answer" where
  "answer_to k w key = (case Get k w key of Inr obj \<Rightarrow> Found obj
     | Inl err \<Rightarrow> if IsNotFound k err then Missing else Unknown)"

text \<open>The object once it carries the finalizer, or has lost it; \<open>None\<close> if the update this takes is refused.\<close>

definition accepted_update :: "('w, 'o, 'e) client \<Rightarrow> 'w \<Rightarrow> bool \<Rightarrow> 'o \<Rightarrow> 'o \<Rightarrow> 'o option" where
  "accepted_update k w needed obj obj' =
     (if needed then case fst (Update k w obj') of Inr obj'' \<Rightarrow> Some obj'' | Inl err \<Rightarrow> None else Some obj)"

definition exhibit :: "vec_id \<Rightarrow> (string list \<Rightarrow> int option) \<Rightarrow> abstract_state \<Rightarrow> abstract_state" where
  "exhibit v f st = st\<lparr>shown := (shown st)(v := f)\<rparr>"

definition exhibit_one :: "vec_id \<Rightarrow> string list \<Rightarrow> int \<Rightarrow> abstract_state \<Rightarrow> abstract_state" where
  "exhibit_one v key x st = exhibit v ((shown st v)(key \<mapsto> x)) st"

text \<open>A draining machine stands for one series per pod.\<close>

definition drain_shown :: "(string \<rightharpoonup> string \<times> (string \<rightharpoonup> string)) \<Rightarrow> string list \<Rightarrow> int option" where
  "drain_shown d key = (case key of
     [p, ns, n1, n2, m] \<Rightarrow> (case d m of
         Some (node, pods) \<Rightarrow> if n1 = node \<and> n2 = node \<and> pods p = Some ns then Some 1 else None
       | None \<Rightarrow> None)
   | _ \<Rightarrow> None)"

definition set_draining :: "string \<Rightarrow> (string \<times> (string \<rightharpoonup> string)) option \<Rightarrow> abstract_state \<Rightarrow> abstract_state" where
  "set_draining m info st =
     exhibit Pods_Preventing_Node_Drain (drain_shown ((draining st)(m := info))) (st\<lparr>draining := (draining st)(m := info)\<rparr>)"

fun promised :: "('w, 'g, 'cm, 'e) operator \<Rightarrow> instant \<Rightarrow> controller \<Rightarrow> NamespacedName \<Rightarrow> 'w
    \<Rightarrow> abstract_state \<Rightarrow> abstract_state" where
  "promised oper now ClusterRole_C req w st = st"
| "promised oper now ConfigMap_C req w st =
     (let (expiry, valid) = ca_metrics (op_network_operator oper) (op_clusterId oper)
            (case answer_to (op_configmap_client oper) w (ca_bundle_key (op_network_operator oper)) of
               Found cm \<Rightarrow> Some cm | _ \<Rightarrow> None)
      in exhibit Cluster_Proxy_CA_Valid valid (exhibit Cluster_Proxy_CA_Expiry expiry st))"
| "promised oper now Group_C req w st =
     (case answer_to (op_group_client oper) w req of
        Found g \<Rightarrow>
          if \<not> IsZero (m_DeletionTimestamp (group_meta g)) then exhibit_one Cluster_Admin_Enabled [op_clusterId oper] 0 st
          else (case accepted_update (op_group_client oper) w (group_finalizer \<notin> set (m_Finalizers (group_meta g))) g
                  (set_group_finalizers (AddFinalizer (op_group_client oper) (m_Finalizers (group_meta g)) group_finalizer) g) of
              Some g' \<Rightarrow> exhibit_one Cluster_Admin_Enabled [op_clusterId oper] (of_bool (Users g' \<noteq> [])) st
            | None \<Rightarrow> st)
      | _ \<Rightarrow> st)"
| "promised oper now LimitedSupport_C req w st =
     (case answer_to (op_configmap_client oper) w limited_support_key of
        Found cm \<Rightarrow> exhibit_one Limited_Support_Enabled [op_clusterId oper] 1 st
      | Missing \<Rightarrow> exhibit_one Limited_Support_Enabled [op_clusterId oper] 0 st
      | Unknown \<Rightarrow> st)"
| "promised oper now Machine_C req w st =
     (case answer_to (op_machine_client oper) w (machine_key req) of
        Found machine \<Rightarrow>
          if is_deleting machine then
            (case machine_verdict (op_events oper) now machine w of
               Report node pods \<Rightarrow> set_draining (m_Name (machine_meta machine)) (Some (node, map_of pods)) st
             | _ \<Rightarrow> st)
          else st
      | Missing \<Rightarrow> set_draining (nn_Name req) None st
      | Unknown \<Rightarrow> st)"
| "promised oper now OAuth_C req w st =
     (case answer_to (op_oauth_client oper) w req of
        Found obj \<Rightarrow>
          (let k = op_oauth_client oper; fs = m_Finalizers (oauth_meta obj) in
           if IsZero (m_DeletionTimestamp (oauth_meta obj)) then
             (case accepted_update k w (oauth_finalizer \<notin> set fs) obj (set_oauth_finalizers (AddFinalizer k fs oauth_finalizer) obj) of
                Some obj' \<Rightarrow> st\<lparr>entries := (entries st)(provider_key (key_of (oauth_meta obj')) \<mapsto>
                  map idp_Type (spec_IdentityProviders obj'))\<rparr>
              | None \<Rightarrow> st)
           else
             (case accepted_update k w (oauth_finalizer \<in> set fs) obj (set_oauth_finalizers (RemoveFinalizer k fs oauth_finalizer) obj) of
                Some obj' \<Rightarrow> st\<lparr>entries := (entries st)(provider_key (key_of (oauth_meta obj')) := None)\<rparr>
              | None \<Rightarrow> st))
      | _ \<Rightarrow> st)"
| "promised oper now Proxy_C req w st =
     (let st' = exhibit_one Cluster_ID [op_clusterId oper] 1 st in
      case answer_to (op_proxy_client oper) w req of
        Found obj \<Rightarrow> exhibit_one Cluster_Proxy
          [op_clusterId oper, flag_label (status_HTTPProxy obj \<noteq> ''''), flag_label (status_HTTPSProxy obj \<noteq> ''''),
           flag_label (spec_TrustedCA_Name obj \<noteq> '''')]
          (of_bool (status_HTTPProxy obj \<noteq> '''' \<or> status_HTTPSProxy obj \<noteq> '''')) st'
      | _ \<Rightarrow> st')"
| "promised oper now PullSecret_C req w st =
     (case answer_to (op_secret_client oper) w pull_secret_key of
        Found s \<Rightarrow> exhibit Pull_Secret_Valid [[op_clusterId oper, secret_reason (Some s)] \<mapsto>
          of_bool (secret_reason (Some s) = ReasonValid)] st
      | Missing \<Rightarrow> exhibit Pull_Secret_Valid [[op_clusterId oper, ReasonNotFound] \<mapsto> 0] st
      | Unknown \<Rightarrow> st)"
| "promised oper now CPMS_C req w st =
     (case answer_to (op_cpms_client oper) w cpms_key of
        Found obj \<Rightarrow> (case instance_type_of (op_decoders oper) obj of
            Known t \<Rightarrow> exhibit CPMS_Enabled [[op_clusterId oper, t] \<mapsto> of_bool (cpms_State obj = ''Active'')] st
          | _ \<Rightarrow> st)
      | _ \<Rightarrow> st)"

text \<open>A round of the loop: the counts of the known types, from all entries.\<close>

definition recounted :: "idp_types \<Rightarrow> abstract_state \<Rightarrow> abstract_state" where
  "recounted c st = exhibit Identity_Provider (\<lambda>key. case key of
       [t] \<Rightarrow> if t \<in> set (knownIdentityProviderTypes c)
         then Some (float64 (int (\<Sum>k \<in> dom (entries st). count_list (the (entries st k)) t)))
         else shown st Identity_Provider [t]
     | _ \<Rightarrow> shown st Identity_Provider key) st"

definition at_start :: "string \<Rightarrow> abstract_state" where
  "at_start cid = \<lparr>shown = (\<lambda>_. Map.empty)(Cluster_Admin_Enabled := [[cid] \<mapsto> 0], Limited_Support_Enabled := [[cid] \<mapsto> 0]),
     entries = Map.empty, draining = Map.empty\<rparr>"

subsection \<open>Each operation commutes with the abstraction\<close>

lemma same_maps_abstraction:
  assumes "same_maps a a'"
  shows "abstraction oper a' = (abstraction oper a)\<lparr>shown := exported (op_gauges oper) a'\<rparr>"
  using assms by (simp add: abstraction_def same_maps_def)

lemmas exhibits = exhibit_one_def exhibit_def expo_set_def expo_only_def

abbreviation abstract_machines :: "(string, drainingMachine) go_map \<Rightarrow> string \<rightharpoonup> string \<times> (string \<rightharpoonup> string)" where
  "abstract_machines ms \<equiv> (\<lambda>m. map_option (\<lambda>i. (nodeName i, map_of (podNamespaces i))) (map_of ms m))"

lemma abstract_machines_update:
  "abstract_machines (map_put m i ms) = (abstract_machines ms)(m \<mapsto> (nodeName i, map_of (podNamespaces i)))"
  "abstract_machines (map_del m ms) = (abstract_machines ms)(m := None)"
  by (auto simp: fun_eq_iff)

lemma drain_series_shown:
  assumes "drain_wf ms"
  shows "drain_series ms = drain_shown (abstract_machines ms)"
proof
  fix key
  have one: "key \<in> drain_keys ms \<longleftrightarrow> (\<exists>m i p ns. key = [p, ns, nodeName i, nodeName i, m]
      \<and> map_of ms m = Some i \<and> map_of (podNamespaces i) p = Some ns)"
    using assms by (fastforce simp: drain_keys_def drain_wf_def machine_wf_def)
  show "drain_series ms key = drain_shown (abstract_machines ms) key"
    unfolding drain_series_def one drain_shown_def
    by (auto split: list.splits option.splits)
qed

lemma SetOAuthIDP_abstraction:
  "abstraction oper (SetOAuthIDP name ns ps a) = (abstraction oper a)\<lparr>entries := (entries (abstraction oper a))
     (\<lparr>pk_name = name, pk_namespace = ns\<rparr> \<mapsto> map idp_Type ps)\<rparr>"
  "abstraction oper (DeleteOAuthIDP name ns a) = (abstraction oper a)\<lparr>entries := (entries (abstraction oper a))
     (\<lparr>pk_name = name, pk_namespace = ns\<rparr> := None)\<rparr>"
proof -
  show "abstraction oper (SetOAuthIDP name ns ps a) = (abstraction oper a)\<lparr>entries := (entries (abstraction oper a))
     (\<lparr>pk_name = name, pk_namespace = ns\<rparr> \<mapsto> map idp_Type ps)\<rparr>"
    unfolding abstraction_def SetOAuthIDP_wf(2) by (simp add: SetOAuthIDP_def)
  show "abstraction oper (DeleteOAuthIDP name ns a) = (abstraction oper a)\<lparr>entries := (entries (abstraction oper a))
     (\<lparr>pk_name = name, pk_namespace = ns\<rparr> := None)\<rparr>"
    unfolding abstraction_def DeleteOAuthIDP_wf(2) by (simp add: DeleteOAuthIDP_def)
qed

lemma drains_abstraction:
  assumes "agg_wf (op_gauges oper) a'" and "providerMap a' = providerMap a"
    and "abstract_machines (drainingMachines a') = (abstract_machines (drainingMachines a))(m := info)"
    and "exported (op_gauges oper) a' = expo_drain (drainingMachines a') (exported (op_gauges oper) a)"
  shows "abstraction oper a' = set_draining m info (abstraction oper a)"
proof -
  have "drain_wf (drainingMachines a')" using assms(1) by (simp add: agg_wf_def)
  then have "drain_series (drainingMachines a') = drain_shown ((abstract_machines (drainingMachines a))(m := info))"
    by (simp only: drain_series_shown assms(3))
  then show ?thesis
    unfolding set_draining_def exhibit_def abstraction_def assms(2-4) expo_drain_def by simp
qed

locale refined =
  fixes oper :: "('w, 'g, 'cm, 'e) operator" and a :: "'g AdoptionMetricsAggregator"
  assumes oper_ok: "operator_ok oper" and wf: "agg_wf (op_gauges oper) a"
begin

lemma laws:
  "gauge_vec (op_gauges oper)" "ValidString (op_clusterId oper)"
  "list_all ValidString (knownIdentityProviderTypes (op_idp_types oper))"
  "valid_subjects (op_network_operator oper)" "valid_instance_types (op_decoders oper)"
  "valid_nodes (op_machine_client oper)"
  using oper_ok by (simp_all add: operator_ok_def)

lemma set_admin_abstraction:
  obtains a' where "SetClusterAdmin (op_gauges oper) (op_clusterId oper) b a = Ok a'"
    "abstraction oper a' = exhibit_one Cluster_Admin_Enabled [op_clusterId oper] (of_bool b) (abstraction oper a)"
proof -
  from SetClusterAdmin_reports [OF laws(1,2) wf, of b] obtain a' where
    a': "SetClusterAdmin (op_gauges oper) (op_clusterId oper) b a = Ok a'" "same_maps a a'"
      "exported (op_gauges oper) a' = expo_set Cluster_Admin_Enabled [op_clusterId oper] (of_bool b) (exported (op_gauges oper) a)"
    by (rule reportsE)
  from a'(1) same_maps_abstraction [OF a'(2), of oper] a'(3) show ?thesis by (intro that) (simp_all add: exhibits)
qed

lemma configmap_refines:
  assumes "Reconcile oper now ConfigMap_C req w a = (out, w', a')"
  shows "abstraction oper a' = promised oper now ConfigMap_C req w (abstraction oper a)"
proof -
  let ?cno = "op_network_operator oper" and ?k = "op_configmap_client oper"
  obtain expiry valid where e: "same_maps a a'" "exported (op_gauges oper) a' = expo_ca expiry valid (exported (op_gauges oper) a)"
    "ca_metrics ?cno (op_clusterId oper) (case answer_to ?k w (ca_bundle_key ?cno) of Found cm \<Rightarrow> Some cm | _ \<Rightarrow> None) = (expiry, valid)"
  proof (cases "Get ?k w (ca_bundle_key ?cno)")
    case (Inl err)
    then show ?thesis using configmap_report [OF laws(1,2) wf laws(4), of ?k req w] assms
      by (intro that [of Map.empty Map.empty]) (auto simp: ca_metrics_def answer_to_def)
  next
    case (Inr cm)
    then show ?thesis using configmap_report [OF laws(1,2) wf laws(4), of ?k req w] assms that
      by (cases "TrustBundleConfigMap ?cno cm (TRUSTED_CA_BUNDLE_CONFIGMAP_KEY ?cno)")
        (fastforce simp: ca_metrics_def answer_to_def split: if_splits)+
  qed
  show ?thesis
    by (simp add: same_maps_abstraction [OF e(1), of oper] e(2,3) exhibits expo_ca_def)
qed

lemma limited_support_refines:
  assumes "Reconcile oper now LimitedSupport_C req w a = (out, w', a')"
  shows "abstraction oper a' = promised oper now LimitedSupport_C req w (abstraction oper a)"
  using limited_support_cases [OF laws(1,2) wf, of "op_configmap_client oper" req w] assms
  by (auto simp: answer_to_def exhibits dest: same_maps_abstraction [where oper = oper] split: sum.splits if_splits)

lemma proxy_refines:
  assumes "Reconcile oper now Proxy_C req w a = (out, w', a')"
  shows "abstraction oper a' = promised oper now Proxy_C req w (abstraction oper a)"
  using proxy_cases [OF laws(1,2) wf, of "op_proxy_client oper" req w] assms
  by (auto simp: answer_to_def exhibits proxy_key_def proxy_value_def
      dest: same_maps_abstraction [where oper = oper] split: sum.splits)

lemma pull_secret_refines:
  assumes "Reconcile oper now PullSecret_C req w a = (out, w', a')"
  shows "abstraction oper a' = promised oper now PullSecret_C req w (abstraction oper a)"
proof -
  have "secret_reason None = ReasonNotFound" by (simp add: secret_reason_def)
  then show ?thesis
    using pull_secret_cases [OF laws(1,2) wf, of "op_secret_client oper" req w] assms
    by (auto simp: answer_to_def exhibits dest: same_maps_abstraction [where oper = oper] split: sum.splits if_splits)
qed

lemma cpms_refines:
  assumes "Reconcile oper now CPMS_C req w a = (out, w', a')"
  shows "abstraction oper a' = promised oper now CPMS_C req w (abstraction oper a)"
  using cpms_report [OF laws(1,2) wf laws(5), of "op_cpms_client oper" req w] assms
  by (auto simp: answer_to_def exhibits dest: same_maps_abstraction [where oper = oper]
      split: sum.splits instance_type.splits)

lemma machine_refines:
  assumes "Reconcile oper now Machine_C req w a = (out, w', a')"
  shows "abstraction oper a' = promised oper now Machine_C req w (abstraction oper a)"
proof -
  let ?k = "op_machine_client oper"
  note cases = machine_cases [OF laws(1) wf laws(6), of "op_events oper" now req w]
  show ?thesis
  proof (cases "Get ?k w (machine_key req)")
    case (Inl err)
    with cases assms show ?thesis
      by (auto simp: answer_to_def abstract_machines_update intro!: drains_abstraction split: if_splits)
  next
    case (Inr machine)
    with cases assms show ?thesis
      by (cases "machine_verdict (op_events oper) now machine w")
        (auto simp: answer_to_def abstract_machines_update intro!: drains_abstraction split: if_splits)
  qed
qed

lemma group_refines:
  assumes run: "Reconcile oper now Group_C req w a = (out, w', a')"
  shows "abstraction oper a' = promised oper now Group_C req w (abstraction oper a)"
proof -
  let ?k = "op_group_client oper"
  obtain a0 where a0: "SetClusterAdmin (op_gauges oper) (op_clusterId oper) False a = Ok a0"
    "abstraction oper a0 = exhibit_one Cluster_Admin_Enabled [op_clusterId oper] (of_bool False) (abstraction oper a)"
    by (rule set_admin_abstraction)
  obtain a1 where a1: "SetClusterAdmin (op_gauges oper) (op_clusterId oper) True a = Ok a1"
    "abstraction oper a1 = exhibit_one Cluster_Admin_Enabled [op_clusterId oper] (of_bool True) (abstraction oper a)"
    by (rule set_admin_abstraction)
  have any: "SetClusterAdmin (op_gauges oper) (op_clusterId oper) b a = Ok (if b then a1 else a0)" for b
    using a0(1) a1(1) by (cases b) simp_all
  show ?thesis
  proof (cases "Get ?k w req")
    case (Inl err)
    then show ?thesis using run by (auto simp: GroupReconcile_def answer_to_def split: if_splits)
  next
    case (Inr g)
    then show ?thesis using run a0(2) a1(2)
      by (auto simp: GroupReconcile_def answer_to_def accepted_update_def any
          split: if_splits prod.splits sum.splits)
  qed
qed

lemma oauth_refines:
  assumes run: "Reconcile oper now OAuth_C req w a = (out, w', a')"
  shows "abstraction oper a' = promised oper now OAuth_C req w (abstraction oper a)"
proof (cases "Get (op_oauth_client oper) w req")
  case (Inl err)
  then show ?thesis using run by (auto simp: OAuthReconcile_def answer_to_def split: if_splits)
next
  case (Inr obj)
  then show ?thesis using run
    by (auto simp: OAuthReconcile_def answer_to_def accepted_update_def Let_def SetOAuthIDP_abstraction
        provider_key_def key_of_def split: if_splits prod.splits sum.splits)
qed

lemma reconcile_refines:
  assumes "Reconcile oper now c req w a = (out, w', a')"
  shows "abstraction oper a' = promised oper now c req w (abstraction oper a)"
proof (cases c)
  case ClusterRole_C
  then show ?thesis using assms by (auto split: prod.splits)
qed (use assms configmap_refines group_refines limited_support_refines machine_refines oauth_refines
    proxy_refines pull_secret_refines cpms_refines in \<open>simp_all del: Reconcile.simps promised.simps\<close>)

lemma aggregate_refines:
  obtains a' where "aggregate (op_gauges oper) (op_idp_types oper) a = Ok a'"
    "abstraction oper a' = recounted (op_idp_types oper) (abstraction oper a)"
proof -
  from aggregate_reports [OF laws(1) wf laws(3)] obtain a' where
    a': "aggregate (op_gauges oper) (op_idp_types oper) a = Ok a'" "same_maps a a'"
      "exported (op_gauges oper) a' = expo_providers (op_idp_types oper) (providerMap a) (exported (op_gauges oper) a)"
    by (rule reportsE)
  have "keys_distinct (providerMap a)" using wf by (simp add: agg_wf_def)
  note total = provider_total_sum [OF this]
  have "abstraction oper a' = recounted (op_idp_types oper) (abstraction oper a)"
    unfolding same_maps_abstraction [OF a'(2), of oper] a'(3) expo_providers_def total recounted_def exhibit_def abstraction_simps ..
  with a'(1) show ?thesis by (rule that)
qed

end

lemma start_refines:
  assumes "operator_ok oper"
    and "NewMetricsAggregator (op_gauges oper) interval (op_clusterId oper) = Ok a"
  shows "abstraction oper a = at_start (op_clusterId oper)"
proof -
  have "gauge_vec (op_gauges oper)" "ValidString (op_clusterId oper)" using assms(1) by (simp_all add: operator_ok_def)
  from NewMetricsAggregator_ok [OF this, of interval] assms(2) show ?thesis
    by (auto simp: abstraction_def at_start_def expo_set_def)
qed

subsection \<open>Properties\<close>

text \<open>
  C2: The operator computes the abstract operator. It starts with both flags at 0 and nothing else. From
  then on, in every state it can reach and whatever the API server answers, a reconcile of any controller
  changes the exported series, the entries of identity providers and the draining machines exactly as
  \<open>promised\<close> says, branch by branch: the value of each flag and the labels of each series are
  functions of the object that the read has found, and of whether an update that the finalizer needs has been
  accepted; where a read fails or an update is refused, the metrics are those of the branch that the code takes.
  A round of the aggregation loop returns and sets the count of each known type to the number of its occurrences in
  the entries, rounded to a float64.
\<close>

theorem operator_computes_promises:
  assumes "operator_ok oper" and "reachable oper (w, a)"
  shows "(\<exists>a0. NewMetricsAggregator (op_gauges oper) aggregatorResyncInterval (op_clusterId oper) = Ok a0
       \<and> abstraction oper a0 = at_start (op_clusterId oper))
    \<and> abstraction oper (snd (snd (Reconcile oper now c req w a))) = promised oper now c req w (abstraction oper a)
    \<and> (\<exists>a'. aggregate (op_gauges oper) (op_idp_types oper) a = Ok a'
       \<and> abstraction oper a' = recounted (op_idp_types oper) (abstraction oper a))"
proof (intro conjI)
  have "agg_wf (op_gauges oper) a" using reachable_invariant [OF assms(2,1)] by simp
  then have here: "refined oper a" using assms(1) by (simp add: refined_def)
  show "\<exists>a0. NewMetricsAggregator (op_gauges oper) aggregatorResyncInterval (op_clusterId oper) = Ok a0
      \<and> abstraction oper a0 = at_start (op_clusterId oper)"
    using NewMetricsAggregator_ok [OF refined.laws(1,2) [OF here], of aggregatorResyncInterval]
      start_refines [OF assms(1)] by blast
  show "abstraction oper (snd (snd (Reconcile oper now c req w a))) = promised oper now c req w (abstraction oper a)"
    by (rule refined.reconcile_refines [OF here, of now c req w "fst (Reconcile oper now c req w a)"
        "fst (snd (Reconcile oper now c req w a))"]) (simp del: Reconcile.simps)
  show "\<exists>a'. aggregate (op_gauges oper) (op_idp_types oper) a = Ok a'
      \<and> abstraction oper a' = recounted (op_idp_types oper) (abstraction oper a)"
    using refined.aggregate_refines [OF here] by blast
qed

text \<open>A cluster with a provider and an administrator: three operations of the operator, from its start.\<close>

definition members_world :: mem_world where
  "members_world = provider_world\<lparr>mem_groups := [admins [group_finalizer] None]\<rparr>"

lemma members_world_gets:
  "Get (op_group_client mem_operator) members_world admin_group_key = Inr (admins [group_finalizer] None)"
  "Get (op_oauth_client mem_operator) members_world oauth_key = Inr (ldap_oauth [oauth_finalizer] None)"
  by (simp_all add: mem_operator_def part_client_def members_world_def provider_world_def
      unscoped_groups_def admins_def mem_client_def mem_stored_def key_of_def admin_group_key_def
      key_ldap_oauth [unfolded key_of_def])

lemma members_world_runs:
  "SetClusterAdmin map_api ''c1'' True a = Ok a' \<Longrightarrow>
   Reconcile mem_operator 0 Group_C admin_group_key members_world a = (Returned empty_Result None, members_world, a')"
  "Reconcile mem_operator 0 OAuth_C oauth_key members_world a = (Returned empty_Result None, members_world,
     SetOAuthIDP ''cluster'' '''' [\<lparr>idp_Type = ''LDAP''\<rparr>] a)"
proof -
  have "op_gauges mem_operator = map_api" "op_clusterId mem_operator = ''c1''" by (simp_all add: mem_operator_def)
  then show "SetClusterAdmin map_api ''c1'' True a = Ok a' \<Longrightarrow>
    Reconcile mem_operator 0 Group_C admin_group_key members_world a = (Returned empty_Result None, members_world, a')"
    by (simp add: GroupReconcile_def members_world_gets) (simp add: admins_def IsZero_def)
  show "Reconcile mem_operator 0 OAuth_C oauth_key members_world a = (Returned empty_Result None, members_world,
     SetOAuthIDP ''cluster'' '''' [\<lparr>idp_Type = ''LDAP''\<rparr>] a)"
    by (simp add: OAuthReconcile_def members_world_gets) (simp add: ldap_oauth_def IsZero_def)
qed

text \<open>What the abstract operator makes of this cluster.\<close>

lemma members_world_promises:
  "promised mem_operator now Group_C admin_group_key members_world st = exhibit_one Cluster_Admin_Enabled [''c1''] 1 st"
  "promised mem_operator now OAuth_C oauth_key members_world st =
     st\<lparr>entries := (entries st)(provider_key oauth_key \<mapsto> [''LDAP''])\<rparr>"
  by (simp_all add: answer_to_def members_world_gets accepted_update_def Let_def)
    (simp_all add: mem_operator_def admins_def ldap_oauth_def IsZero_def key_of_def oauth_key_def)

theorem operator_computes_promises_witness:
  "\<exists>a a1 a2 a3. NewMetricsAggregator map_api aggregatorResyncInterval ''c1'' = Ok a
    \<and> Reconcile mem_operator 0 Group_C admin_group_key members_world a = (Returned empty_Result None, members_world, a1)
    \<and> Reconcile mem_operator 0 OAuth_C oauth_key members_world a1 = (Returned empty_Result None, members_world, a2)
    \<and> aggregate map_api api_idp_types a2 = Ok a3
    \<and> exported map_api a Cluster_Admin_Enabled [''c1''] = Some 0
    \<and> exported map_api a3 Cluster_Admin_Enabled [''c1''] = Some 1
    \<and> exported map_api a3 Limited_Support_Enabled [''c1''] = Some 0
    \<and> exported map_api a3 Identity_Provider [''LDAP''] = Some 1
    \<and> exported map_api a3 Identity_Provider [''GitHub''] = Some 0
    \<and> map_of (providerMap a3) (provider_key oauth_key) = Some [''LDAP'']"
proof -
  have oper: "op_gauges mem_operator = map_api" "op_clusterId mem_operator = ''c1''" "op_idp_types mem_operator = api_idp_types"
    by (simp_all add: mem_operator_def)
  note computes = operator_computes_promises [OF mem_operator_ok, unfolded oper]
  have u: "ValidString ''c1''" by (simp add: byte_def)
  then obtain a where a: "NewMetricsAggregator map_api aggregatorResyncInterval ''c1'' = Ok a"
    using NewMetricsAggregator_ok [OF map_api_gauges] by blast
  have r0: "reachable mem_operator (members_world, a)" using a by (intro reachable.started) (simp add: oper)
  then have "agg_wf map_api a" using reachable_invariant [OF _ mem_operator_ok] by (fastforce simp: oper)
  then obtain a1 where a1: "SetClusterAdmin map_api ''c1'' True a = Ok a1"
    using SetClusterAdmin_reports [OF map_api_gauges u] by (blast elim: reportsE)
  let ?a2 = "SetOAuthIDP ''cluster'' '''' [\<lparr>idp_Type = ''LDAP''\<rparr>] a1"
  note runs = members_world_runs(1) [OF a1] members_world_runs(2) [of a1]
  have r1: "reachable mem_operator (members_world, a1)" by (rule reachable.stepped [OF r0 Reconcile_step [OF runs(1)]])
  have r2: "reachable mem_operator (members_world, ?a2)" by (rule reachable.stepped [OF r1 Reconcile_step [OF runs(2)]])
  have s0: "abstraction mem_operator a = at_start ''c1''"
    using computes [OF r0] a by auto
  have s1: "abstraction mem_operator a1 = exhibit_one Cluster_Admin_Enabled [''c1''] 1 (at_start ''c1'')"
    using computes [OF r0, where now = 0 and c = Group_C and req = admin_group_key] unfolding runs(1) members_world_promises s0 by simp
  have s2: "abstraction mem_operator ?a2 = (abstraction mem_operator a1)\<lparr>entries := [provider_key oauth_key \<mapsto> [''LDAP'']]\<rparr>"
    using computes [OF r1, where now = 0 and c = OAuth_C and req = oauth_key] unfolding runs(2) members_world_promises
    by (simp add: s1 exhibits at_start_def)
  obtain a3 where a3: "aggregate map_api api_idp_types ?a2 = Ok a3"
      "abstraction mem_operator a3 = recounted api_idp_types (abstraction mem_operator ?a2)"
    using computes [OF r2] by blast
  have known: "''LDAP'' \<in> set (knownIdentityProviderTypes api_idp_types)" "''GitHub'' \<in> set (knownIdentityProviderTypes api_idp_types)"
    by (simp_all add: knownIdentityProviderTypes_def api_idp_types_def)
  have shown: "exported map_api b v = shown (abstraction mem_operator b) v" "map_of (providerMap b) = entries (abstraction mem_operator b)" for b v
    by (simp_all add: oper)
  show ?thesis
    by (intro exI [of _ a] exI [of _ a1] exI [of _ ?a2] exI [of _ a3] conjI a runs a3(1); unfold shown s0 a3(2) s2 s1)
      (simp_all add: recounted_def exhibits at_start_def known float64_exact)
qed

end
