(* ===== verification/Stale_Caches.thy ===== *)
theory Stale_Caches
  imports Group_Controller OAuth_Controller
begin

section \<open>The finalizer protocol behind caches that lag\<close>

text \<open>
  The client reads from a cache that follows the API server with a delay, and writes to the server,
  which rejects an update that is not based on its newest version (optimistic locking). For one
  object, what matters is the list of its versions from the one in the cache to the one on
  the server: reads see the first, an accepted write is based on the last and becomes the new last, and the
  cache catches up by dropping versions at the front. \<open>lag_step\<close> is the protocol that the group and OAuth
  controllers follow on such a list, with a flag for whether the object is reported; both are shown
  to implement it, and the guarantee, that a reported object exists with its finalizer on the server, is
  proved once for the protocol.
\<close>

definition carries :: "('o \<Rightarrow> object_meta) \<Rightarrow> string \<Rightarrow> 'o option \<Rightarrow> bool" where
  "carries meta f x = (case x of None \<Rightarrow> False | Some obj \<Rightarrow> f \<in> set (m_Finalizers (meta obj)))"

definition alive :: "('o \<Rightarrow> object_meta) \<Rightarrow> 'o option \<Rightarrow> bool" where
  "alive meta x = (case x of None \<Rightarrow> False | Some obj \<Rightarrow> IsZero (m_DeletionTimestamp (meta obj)))"

text \<open>Nobody takes the finalizer away between two versions.\<close>

fun kept :: "('o \<Rightarrow> object_meta) \<Rightarrow> string \<Rightarrow> 'o option list \<Rightarrow> bool" where
  "kept meta f [] \<longleftrightarrow> True"
| "kept meta f (x # xs) \<longleftrightarrow> (xs \<noteq> [] \<longrightarrow> carries meta f x \<longrightarrow> carries meta f (hd xs)) \<and> kept meta f xs"

lemma kept_append:
  "kept meta f (xs @ ys) \<longleftrightarrow> kept meta f xs \<and> kept meta f ys
     \<and> (xs \<noteq> [] \<longrightarrow> ys \<noteq> [] \<longrightarrow> carries meta f (last xs) \<longrightarrow> carries meta f (hd ys))"
  by (induction xs) auto

definition others_move :: "('o \<Rightarrow> object_meta) \<Rightarrow> string \<Rightarrow> 'o option list \<Rightarrow> 'o option list \<Rightarrow> bool" where
  "others_move meta f xs ys \<longleftrightarrow>
     (\<exists>new n. kept meta f (last xs # new) \<and> n < length (xs @ new) \<and> ys = drop n (xs @ new))"

inductive lag_step :: "('o \<Rightarrow> object_meta) \<Rightarrow> string \<Rightarrow> 'o option list \<times> bool \<Rightarrow> 'o option list \<times> bool \<Rightarrow> bool"
  for meta :: "'o \<Rightarrow> object_meta" and f :: string where
  moved: "others_move meta f xs ys \<Longrightarrow> lag_step meta f (xs, b) (ys, b)"
| reports: "alive meta x \<Longrightarrow> carries meta f x \<Longrightarrow> lag_step meta f (x # xs, b) (x # xs, b')"
| puts_on: "carries meta f y \<Longrightarrow> lag_step meta f ([x], b) ([x, y], b')"
| withdraws: "lag_step meta f (xs, b) (xs, False)"
| takes_off: "\<not> alive meta x \<Longrightarrow> lag_step meta f ([x], b) ([x, y], False)"

fun lag_ok :: "('o \<Rightarrow> object_meta) \<Rightarrow> string \<Rightarrow> 'o option list \<times> bool \<Rightarrow> bool" where
  "lag_ok meta f ([], b) = False"
| "lag_ok meta f (x # xs, b) \<longleftrightarrow> kept meta f xs
     \<and> (alive meta x \<longrightarrow> carries meta f x \<longrightarrow> xs \<noteq> [] \<longrightarrow> carries meta f (hd xs))
     \<and> (b \<longrightarrow> carries meta f (last (x # xs)) \<and> (\<forall>y \<in> set xs. carries meta f y))"

lemma kept_all: "kept meta f (x # xs) \<Longrightarrow> carries meta f x \<Longrightarrow> \<forall>y \<in> set xs. carries meta f y"
proof (induction xs arbitrary: x)
  case (Cons y ys)
  from Cons.prems have "carries meta f y" "kept meta f (y # ys)" by simp_all
  with Cons.IH [of y] show ?case by simp
qed simp

lemma kept_drop: "kept meta f xs \<Longrightarrow> kept meta f (drop n xs)"
  by (metis kept_append append_take_drop_id)

lemma others_move_refl: "xs \<noteq> [] \<Longrightarrow> others_move meta f xs xs"
  unfolding others_move_def by (rule exI [of _ "[]"], rule exI [of _ 0]) simp

text \<open>Every step of the protocol keeps its invariant.\<close>

lemma lag_ok_moved:
  assumes ok: "lag_ok meta f (xs, b)" and "others_move meta f xs ys"
  shows "lag_ok meta f (ys, b)"
proof -
  obtain x rest where xs: "xs = x # rest" using ok by (cases xs) auto
  obtain new n where new: "kept meta f (last xs # new)" "n < length (xs @ new)" "ys = drop n (xs @ new)"
    using assms(2) by (auto simp: others_move_def)
  have chain: "kept meta f (rest @ new)"
    using ok new(1) xs by (cases "rest = []") (auto simp: kept_append)
  have step: "alive meta x \<longrightarrow> carries meta f x \<longrightarrow> rest @ new \<noteq> [] \<longrightarrow> carries meta f (hd (rest @ new))"
    using ok new(1) xs by (cases "rest = []") auto
  have all: "b \<longrightarrow> carries meta f (last (xs @ new)) \<and> (\<forall>y \<in> set (rest @ new). carries meta f y)"
  proof
    assume b
    then have "\<forall>y \<in> set (rest @ new). carries meta f y" "rest = [] \<Longrightarrow> carries meta f x"
      using ok xs kept_all [OF new(1)] by auto
    then show "carries meta f (last (xs @ new)) \<and> (\<forall>y \<in> set (rest @ new). carries meta f y)"
      using xs last_in_set [of "rest @ new"] by (cases "rest @ new = []") auto
  qed
  show ?thesis
  proof (cases n)
    case 0
    then show ?thesis using new(3) xs chain step all by simp
  next
    case (Suc m)
    then have ys: "ys = drop m (rest @ new)" "m < length (rest @ new)" using new(2,3) xs by simp_all
    then have "ys \<noteq> []" by (metis drop_eq_Nil not_le)
    then obtain y zs where yz: "ys = y # zs" by (metis list.exhaust)
    have "kept meta f (y # zs)" using kept_drop [OF chain, of m] ys yz by simp
    moreover have "last (y # zs) = last (xs @ new)" using new(2,3) yz by (metis last_drop)
    moreover have "set zs \<subseteq> set (rest @ new)" using ys(1) yz by (metis set_drop_subset set_subset_Cons subset_trans)
    ultimately show ?thesis using all yz by auto
  qed
qed

lemma lag_ok_step:
  assumes "lag_step meta f s s'" and ok: "lag_ok meta f s" shows "lag_ok meta f s'"
  using assms(1)
proof cases
  case (moved xs ys b)
  then show ?thesis using ok lag_ok_moved by simp
next
  case (reports x xs b b')
  show ?thesis
  proof (cases xs)
    case (Cons y ys)
    then have "\<forall>z \<in> set (y # ys). carries meta f z"
      using reports ok kept_all [of meta f y ys] by simp
    then show ?thesis using reports ok Cons by simp
  qed (use reports ok in simp)
next
  case (withdraws xs b)
  then show ?thesis using ok by (cases xs) simp_all
qed (use ok in simp_all)


subsection \<open>The server and its caches\<close>

text \<open>
  \<open>ahead\<close> lists the versions of an object from the one in the cache to the newest. An update
  that the server applies was based on the newest version, which must then be the one in the cache,
  since the controllers update what they have just read; an error may hide that it was applied.
\<close>

definition next_version :: "('o \<Rightarrow> object_meta) \<Rightarrow> 'o \<Rightarrow> 'o \<Rightarrow> 'o option" where
  "next_version meta sent obj = (if doomed (meta sent) then None else Some obj)"

locale lagging_server =
  fixes k :: "('w, 'o, 'e) client"
    and meta :: "'o \<Rightarrow> object_meta"
    and ahead :: "'w \<Rightarrow> NamespacedName \<Rightarrow> 'o option list"
  assumes versions_exist: "ahead w key \<noteq> []"
    and cached_key: "Get k w key = Inr obj \<Longrightarrow> key_of (meta obj) = key"
    and cached_found: "Get k w key = Inr obj \<Longrightarrow> hd (ahead w key) = Some obj"
    and cached_missing: "Get k w key = Inl e \<Longrightarrow> IsNotFound k e \<Longrightarrow> hd (ahead w key) = None"
    and accepted: "Get k w key = Inr old \<Longrightarrow> key_of (meta obj) = key \<Longrightarrow> Update k w obj = (Inr obj', w') \<Longrightarrow>
      meta obj' = meta obj \<and> ahead w key = [Some old]
        \<and> ahead w' = (ahead w)(key := [Some old, next_version meta obj obj'])"
    and refused: "Get k w key = Inr old \<Longrightarrow> key_of (meta obj) = key \<Longrightarrow> Update k w obj = (Inl e, w') \<Longrightarrow>
      ahead w' = ahead w \<or> ahead w key = [Some old]
        \<and> ahead w' = (ahead w)(key := [Some old, next_version meta obj obj])"
    and adds_finalizer: "set (AddFinalizer k fs f) = insert f (set fs)"
    and removes_finalizer: "set (RemoveFinalizer k fs f) = set fs - {f}"

locale atomic_lagging_server = lagging_server +
  assumes refused_unchanged: "Update k w obj = (Inl e, w') \<Longrightarrow> ahead w' = ahead w"
begin
end

context lagging_server
begin

lemma stays: "lag_step meta f (ahead w key, b) (ahead w key, b)"
  by (intro lag_step.moved others_move_refl versions_exist)

lemma cached_split: "Get k w key = Inr obj \<Longrightarrow> ahead w key = Some obj # tl (ahead w key)"
  using cached_found [of w key obj] versions_exist [of w key] by (cases "ahead w key") auto

lemma next_carries:
  "f \<in> set (m_Finalizers (meta obj)) \<Longrightarrow> meta obj' = meta obj \<Longrightarrow> carries meta f (next_version meta obj obj')"
  by (auto simp: carries_def next_version_def doomed_def)

end

subsection \<open>The group controller implements the protocol\<close>

lemma group_flag_call:
  assumes "gauge_vec pv" "ValidString cid" "agg_wf pv a"
  obtains a' where "SetClusterAdmin pv cid b a = Ok a'" "agg_wf pv a'"
    "(exported pv a' Cluster_Admin_Enabled [cid] = Some 1) = b"
  using SetClusterAdmin_reports [OF assms, of b] by (cases b) (auto simp: expo_set_def elim: reportsE)

lemma group_lag_step:
  assumes server: "lagging_server k group_meta ahead" and laws: "gauge_vec pv" "ValidString cid" and wf: "agg_wf pv a"
    and run: "GroupReconcile k pv cid req w a = (out, w', a')"
  shows "agg_wf pv a' \<and> lag_step group_meta group_finalizer
      (ahead w req, exported pv a Cluster_Admin_Enabled [cid] = Some 1)
      (ahead w' req, exported pv a' Cluster_Admin_Enabled [cid] = Some 1)"
proof (cases "Get k w req")
  case (Inl err)
  then show ?thesis using run wf lagging_server.stays [OF server]
    by (auto simp: GroupReconcile_def split: if_splits)
next
  case get: (Inr g)
  let ?fs = "m_Finalizers (group_meta g)"
  note xs = lagging_server.cached_split [OF server get]
  have key: "key_of (group_meta (set_group_finalizers fs g)) = req" for fs
    using lagging_server.cached_key [OF server get] by simp
  note accepted = lagging_server.accepted [OF server get key] and refused = lagging_server.refused [OF server get key]
  note stays = lagging_server.stays [OF server]
  show ?thesis
  proof (cases "IsZero (m_DeletionTimestamp (group_meta g))")
    case alive: True
    obtain r w1 where upd: "(if \<not> ContainsString ?fs group_finalizer then
        Update k w (set_group_finalizers (AddFinalizer k ?fs group_finalizer) g) else (Inr g, w)) = (r, w1)"
      by (rule prod.exhaust)
    have on: "carries group_meta group_finalizer (next_version group_meta
        (set_group_finalizers (AddFinalizer k ?fs group_finalizer) g) g')"
      if "group_meta g' = group_meta (set_group_finalizers (AddFinalizer k ?fs group_finalizer) g)" for g'
      by (rule lagging_server.next_carries [OF server _ that]) (simp add: lagging_server.adds_finalizer [OF server])
    show ?thesis
    proof (cases r)
      case (Inl err)
      then have u: "Update k w (set_group_finalizers (AddFinalizer k ?fs group_finalizer) g) = (Inl err, w')" "a' = a"
        using run get alive upd by (auto simp: GroupReconcile_def split: if_splits)
      from refused [OF u(1)] on [OF refl] wf u(2) stays show ?thesis by (auto intro: lag_step.puts_on)
    next
      case (Inr g')
      obtain a1 where a1: "SetClusterAdmin pv cid (length (Users g') > 0) a = Ok a1" "agg_wf pv a1"
        by (rule group_flag_call [OF laws wf])
      then have a': "a' = a1" "w' = w1" using run get alive upd Inr by (auto simp: GroupReconcile_def)
      show ?thesis
      proof (cases "group_finalizer \<in> set ?fs")
        case True
        with alive have "lag_step group_meta group_finalizer (Some g # tl (ahead w req), b) (Some g # tl (ahead w req), b')"
          for b b' by (intro lag_step.reports) (simp_all add: alive_def carries_def)
        then show ?thesis using upd Inr a' a1(2) True unfolding xs [symmetric] by simp
      next
        case False
        with upd Inr have "Update k w (set_group_finalizers (AddFinalizer k ?fs group_finalizer) g) = (Inr g', w1)" by simp
        from accepted [OF this] on a' a1(2) show ?thesis by (auto intro: lag_step.puts_on)
      qed
    qed
  next
    case deleted: False
    then have off: "\<not> alive group_meta (Some g)" by (simp add: alive_def)
    obtain a1 where a1: "SetClusterAdmin pv cid False a = Ok a1" "agg_wf pv a1"
        "exported pv a1 Cluster_Admin_Enabled [cid] \<noteq> Some 1"
      by (rule group_flag_call [OF laws wf, of False]) auto
    show ?thesis
    proof (cases "group_finalizer \<in> set ?fs")
      case True
      obtain r w1 where upd: "Update k w (set_group_finalizers (RemoveFinalizer k ?fs group_finalizer) g) = (r, w1)"
        by (rule prod.exhaust)
      with True have a': "a' = a1" "w' = w1"
        using run get deleted a1(1) by (auto simp: GroupReconcile_def split: sum.splits)
      show ?thesis
      proof (cases r)
        case (Inl err)
        from refused [OF upd [unfolded Inl]] a' a1 off show ?thesis by (auto intro: lag_step.withdraws lag_step.takes_off)
      next
        case (Inr g')
        from accepted [OF upd [unfolded Inr]] a' a1 off show ?thesis by (auto intro: lag_step.takes_off)
      qed
    next
      case False
      then show ?thesis using run get deleted a1 by (auto simp: GroupReconcile_def intro: lag_step.withdraws)
    qed
  qed
qed


subsection \<open>The OAuth controller implements the protocol\<close>

lemma idp_reported_Set: "idp_reported (SetOAuthIDP (m_Name m) (m_Namespace m) ps a) key \<longleftrightarrow> key = key_of m \<or> idp_reported a key"
  by (auto simp: idp_reported_def providerMap_SetOAuthIDP)

lemma idp_reported_Delete: "idp_reported (DeleteOAuthIDP (m_Name m) (m_Namespace m) a) key \<longleftrightarrow> key \<noteq> key_of m \<and> idp_reported a key"
  by (auto simp: idp_reported_def providerMap_DeleteOAuthIDP)

lemma oauth_lag_step:
  assumes server: "atomic_lagging_server k oauth_meta ahead" and run: "OAuthReconcile k req w a = (out, w', a')"
  shows "lag_step oauth_meta oauth_finalizer (ahead w key, idp_reported a key) (ahead w' key, idp_reported a' key)"
proof (cases "Get k w req")
  case (Inl err)
  then show ?thesis using run lagging_server.stays [OF atomic_lagging_server.axioms(1) [OF server]]
    by (auto simp: OAuthReconcile_def split: if_splits)
next
  case get: (Inr obj)
  let ?fs = "m_Finalizers (oauth_meta obj)"
  have lag: "lagging_server k oauth_meta ahead" by (rule atomic_lagging_server.axioms(1) [OF server])
  note xs = lagging_server.cached_split [OF lag get] and stays = lagging_server.stays [OF lag]
  have own: "key_of (oauth_meta obj) = req" by (rule lagging_server.cached_key [OF lag get])
  then have sent: "key_of (oauth_meta (set_oauth_finalizers fs obj)) = req" for fs by simp
  note accepted = lagging_server.accepted [OF lag get sent]
    and refused = atomic_lagging_server.refused_unchanged [OF server]
  show ?thesis
  proof (cases "IsZero (m_DeletionTimestamp (oauth_meta obj))")
    case alive: True
    let ?sent = "set_oauth_finalizers (AddFinalizer k ?fs oauth_finalizer) obj"
    obtain r w1 where upd: "(if \<not> ContainsString ?fs oauth_finalizer then Update k w ?sent else (Inr obj, w)) = (r, w1)"
      by (rule prod.exhaust)
    show ?thesis
    proof (cases r)
      case (Inl err)
      then have u: "Update k w ?sent = (Inl err, w')" "a' = a"
        using run get alive upd by (auto simp: OAuthReconcile_def split: if_splits)
      from refused [OF u(1)] u(2) stays show ?thesis by simp
    next
      case (Inr obj')
      have a': "w' = w1" "a' = SetOAuthIDP (m_Name (oauth_meta obj')) (m_Namespace (oauth_meta obj'))
          (spec_IdentityProviders obj') a"
        using run get alive upd Inr by (simp_all add: OAuthReconcile_def)
      show ?thesis
      proof (cases "oauth_finalizer \<in> set ?fs")
        case True
        with alive have "lag_step oauth_meta oauth_finalizer (Some obj # tl (ahead w req), b) (Some obj # tl (ahead w req), b')"
          for b b' by (intro lag_step.reports) (simp_all add: alive_def carries_def)
        then show ?thesis using upd Inr a' True own stays unfolding xs [symmetric]
          by (cases "key = req") (simp_all add: idp_reported_Set)
      next
        case False
        with upd Inr have u: "Update k w ?sent = (Inr obj', w1)" by simp
        note acc = accepted [OF u]
        have "carries oauth_meta oauth_finalizer (next_version oauth_meta ?sent obj')"
          using acc by (intro lagging_server.next_carries [OF lag])
            (simp_all add: lagging_server.adds_finalizer [OF lag])
        with acc a' own stays show ?thesis
          by (cases "key = req") (auto simp: idp_reported_Set intro: lag_step.puts_on)
      qed
    qed
  next
    case deleted: False
    then have off: "\<not> alive oauth_meta (Some obj)" by (simp add: alive_def)
    let ?sent = "set_oauth_finalizers (RemoveFinalizer k ?fs oauth_finalizer) obj"
    obtain r w1 where upd: "(if ContainsString ?fs oauth_finalizer then Update k w ?sent else (Inr obj, w)) = (r, w1)"
      by (rule prod.exhaust)
    show ?thesis
    proof (cases r)
      case (Inl err)
      then have u: "Update k w ?sent = (Inl err, w')" "a' = a"
        using run get deleted upd by (auto simp: OAuthReconcile_def split: if_splits)
      from refused [OF u(1)] u(2) stays show ?thesis by simp
    next
      case (Inr obj')
      have a': "w' = w1" "a' = DeleteOAuthIDP (m_Name (oauth_meta obj')) (m_Namespace (oauth_meta obj')) a"
        using run get deleted upd Inr by (simp_all add: OAuthReconcile_def)
      show ?thesis
      proof (cases "oauth_finalizer \<in> set ?fs")
        case True
        with upd Inr have u: "Update k w ?sent = (Inr obj', w1)" by simp
        from accepted [OF u] a' own stays off show ?thesis
          by (cases "key = req") (auto simp: idp_reported_Delete intro: lag_step.takes_off)
      next
        case False
        with upd Inr a' own stays show ?thesis
          by (cases "key = req") (auto simp: idp_reported_Delete intro: lag_step.withdraws)
      qed
    qed
  qed
qed


subsection \<open>The guarantee\<close>

locale lagging_protocol =
  fixes meta :: "'o \<Rightarrow> object_meta" and f :: string
    and versions :: "'w \<Rightarrow> 'o option list"
    and reported :: "'s \<Rightarrow> bool"
    and wf :: "'s \<Rightarrow> bool"
    and reconcile :: "'w \<Rightarrow> 's \<Rightarrow> 'w \<Rightarrow> 's \<Rightarrow> bool"
  assumes lag_wf: "wf s \<Longrightarrow> reconcile w s w' s' \<Longrightarrow> wf s'"
    and implements: "wf s \<Longrightarrow> reconcile w s w' s' \<Longrightarrow>
      lag_step meta f (versions w, reported s) (versions w', reported s')"
begin

lemma lifecycle_ok:
  assumes "lifecycle others reconcile (w0, s0) (w, s)"
    and "\<And>w w'. others w w' \<Longrightarrow> others_move meta f (versions w) (versions w')"
    and "wf s0" and "lag_ok meta f (versions w0, reported s0)"
  shows "wf s \<and> lag_ok meta f (versions w, reported s)"
  using assms(1)
proof (induction "(w, s)" arbitrary: w s rule: lifecycle.induct)
  case start
  then show ?case using assms(3,4) by simp
next
  case (other w s w')
  then show ?case using lag_ok_moved assms(2) by blast
next
  case (reconciled w s w' s')
  then show ?case using lag_wf implements lag_ok_step by blast
qed

lemma reported_on_server:
  assumes "lifecycle others reconcile (w0, s0) (w, s)"
    and "\<And>w w'. others w w' \<Longrightarrow> others_move meta f (versions w) (versions w')"
    and "wf s0" and "versions w0 = [x]" and "\<not> reported s0" and "reported s"
  shows "\<exists>obj. last (versions w) = Some obj \<and> f \<in> set (m_Finalizers (meta obj))"
proof -
  have "lag_ok meta f (versions w0, reported s0)" using assms(4,5) by simp
  from lifecycle_ok [OF assms(1-3) this] assms(6) have "carries meta f (last (versions w))"
    by (cases "versions w") (simp_all split: if_splits)
  then show ?thesis by (auto simp: carries_def split: option.splits)
qed

end

lemma group_lagging:
  assumes "lagging_server k group_meta ahead" "gauge_vec pv" "ValidString cid"
  shows "lagging_protocol group_meta group_finalizer (\<lambda>w. ahead w req)
    (\<lambda>a. exported pv a Cluster_Admin_Enabled [cid] = Some 1) (agg_wf pv) (group_step k pv cid req)"
proof
  fix a w w' a' assume wf: "agg_wf pv a" and "group_step k pv cid req w a w' a'"
  then obtain out where "GroupReconcile k pv cid req w a = (out, w', a')"
    by (cases "GroupReconcile k pv cid req w a") (auto simp: group_step_def)
  from group_lag_step [OF assms wf this]
  show "agg_wf pv a'" "lag_step group_meta group_finalizer
      (ahead w req, exported pv a Cluster_Admin_Enabled [cid] = Some 1)
      (ahead w' req, exported pv a' Cluster_Admin_Enabled [cid] = Some 1)" by simp_all
qed

lemma oauth_lagging:
  assumes "atomic_lagging_server k oauth_meta ahead"
  shows "lagging_protocol oauth_meta oauth_finalizer (\<lambda>w. ahead w key) (\<lambda>a. idp_reported a key)
    (\<lambda>_. True) (oauth_step k)"
proof
  fix a w w' a' assume "oauth_step k w a w' a'"
  then obtain req out where "OAuthReconcile k req w a = (out, w', a')"
    by (auto simp: oauth_step_def) (metis prod.collapse)
  from oauth_lag_step [OF assms this]
  show "lag_step oauth_meta oauth_finalizer (ahead w key, idp_reported a key) (ahead w' key, idp_reported a' key)" .
qed simp

subsection \<open>A server with a cache that lags\<close>

type_synonym 'o lag_world = "NamespacedName \<Rightarrow> 'o option \<times> 'o option list"

definition lag_ahead :: "'o lag_world \<Rightarrow> NamespacedName \<Rightarrow> 'o option list" where
  "lag_ahead w key = fst (w key) # snd (w key)"

definition lag_client :: "('o \<Rightarrow> object_meta) \<Rightarrow> ('o lag_world, 'o, mem_error) client" where
  "lag_client meta = \<lparr>
     Get = (\<lambda>w key. case fst (w key) of
         None \<Rightarrow> Inl Mem_NotFound
       | Some obj \<Rightarrow> if key_of (meta obj) = key then Inr obj else Inl Mem_Timeout),
     Update = (\<lambda>w obj. let key = key_of (meta obj) in
       if snd (w key) = [] then (Inr obj, w(key := (fst (w key), [next_version meta obj obj])))
       else (Inl Mem_Timeout, w)),
     IsNotFound = (\<lambda>e. e = Mem_NotFound),
     AddFinalizer = (\<lambda>fs f. if f \<in> set fs then fs else fs @ [f]),
     RemoveFinalizer = (\<lambda>fs f. filter (\<lambda>g. g \<noteq> f) fs)\<rparr>"

lemma lag_ahead_upd: "lag_ahead (w(key := x)) = (lag_ahead w)(key := fst x # snd x)"
  by (auto simp: lag_ahead_def fun_eq_iff)

interpretation lag: atomic_lagging_server "lag_client meta" meta lag_ahead for meta
  by unfold_locales (auto simp: lag_client_def lag_ahead_def lag_ahead_upd Let_def split: option.splits if_splits)

interpretation lag_group: lagging_protocol group_meta group_finalizer "\<lambda>w. lag_ahead w admin_group_key"
    "\<lambda>a. exported map_api a Cluster_Admin_Enabled [''c1''] = Some 1" "agg_wf map_api"
    "group_step (lag_client group_meta) map_api ''c1'' admin_group_key"
  by (rule group_lagging [OF lag.lagging_server_axioms map_api_gauges]) (simp add: byte_def)

interpretation lag_oauth: lagging_protocol oauth_meta oauth_finalizer "\<lambda>w. lag_ahead w key"
    "\<lambda>a. idp_reported a key" "\<lambda>_. True" "oauth_step (lag_client oauth_meta)" for key
  by (rule oauth_lagging [OF lag.atomic_lagging_server_axioms])


subsection \<open>Properties\<close>

text \<open>
  C14: The cluster-admin flag is never left behind, even if the caches lag. The reconciler reads
  versions of the group that may be outdated and its updates are rejected unless they are based on
  the newest one; an update may be applied although it returns an error; others
  change the group at will, except that nobody else takes the finalizer away. Whenever the flag is
  1, the group exists on the API server itself and carries the finalizer there.
\<close>

theorem group_flag_backed_on_server:
  assumes "lagging_server k group_meta ahead" and "gauge_vec pv" and "ValidString clusterId"
    and "agg_wf pv a0" and "exported pv a0 Cluster_Admin_Enabled [clusterId] \<noteq> Some 1" and "ahead w0 req = [x]"
    and "\<And>w w'. others w w' \<Longrightarrow> others_move group_meta group_finalizer (ahead w req) (ahead w' req)"
    and "lifecycle others (group_step k pv clusterId req) (w0, a0) (w, a)"
    and "exported pv a Cluster_Admin_Enabled [clusterId] = Some 1"
  shows "\<exists>grp. last (ahead w req) = Some grp \<and> group_finalizer \<in> set (m_Finalizers (group_meta grp))"
  by (rule lagging_protocol.reported_on_server [OF group_lagging [OF assms(1-3)] assms(8) _ assms(4,6,5,9)])
    (rule assms(7))

text \<open>A group without the finalizer, in the cache and on the server, that is reconciled once.\<close>

definition admins_cached :: "Group lag_world" where
  "admins_cached = (\<lambda>key. (Some (admins [] None), []))"

theorem group_flag_backed_on_server_witness:
  "\<exists>w a grp. snd (GroupReconcile (lag_client group_meta) map_api ''c1'' admin_group_key admins_cached
        (new_collector map_api Minute)) = (w, a)
    \<and> exported map_api a Cluster_Admin_Enabled [''c1''] = Some 1
    \<and> hd (lag_ahead w admin_group_key) = Some (admins [] None)
    \<and> last (lag_ahead w admin_group_key) = Some grp \<and> group_finalizer \<in> set (m_Finalizers (group_meta grp))"
proof -
  let ?k = "lag_client group_meta" and ?a0 = "new_collector map_api Minute"
  let ?sent = "set_group_finalizers [group_finalizer] (admins [] None)"
  let ?others = "\<lambda>w w'. others_move group_meta group_finalizer (lag_ahead w admin_group_key) (lag_ahead w' admin_group_key)"
  have u: "ValidString ''c1''" by (simp add: byte_def)
  note wf = new_collector_map_wf [of Minute]
  obtain a where a: "SetClusterAdmin map_api ''c1'' True ?a0 = Ok a"
      "(exported map_api a Cluster_Admin_Enabled [''c1''] = Some 1) = True"
    by (rule group_flag_call [OF map_api_gauges u wf])
  define w where "w = admins_cached(admin_group_key := (Some (admins [] None), [next_version group_meta ?sent ?sent]))"
  have get: "Get ?k admins_cached admin_group_key = Inr (admins [] None)"
    by (simp add: lag_client_def admins_cached_def admins_def key_of_def admin_group_key_def)
  have upd: "Update ?k admins_cached ?sent = (Inr ?sent, w)"
    by (simp add: lag_client_def admins_cached_def w_def Let_def)
      (simp add: set_group_finalizers_def admins_def key_of_def admin_group_key_def)
  have new: "m_Finalizers (group_meta (admins [] None)) = []" "IsZero (m_DeletionTimestamp (group_meta (admins [] None)))"
      "Users (admins [] None) = [''alice'']" "AddFinalizer ?k [] group_finalizer = [group_finalizer]"
    by (simp_all add: admins_def IsZero_def lag_client_def)
  have "GroupReconcile ?k map_api ''c1'' admin_group_key admins_cached ?a0 = (Returned empty_Result None, w, a)"
    unfolding GroupReconcile_def get sum.case new(1,2,4) by (simp add: upd a(1) new)
  then have run: "snd (GroupReconcile ?k map_api ''c1'' admin_group_key admins_cached ?a0) = (w, a)" by simp
  have "lifecycle ?others (group_step ?k map_api ''c1'' admin_group_key) (admins_cached, ?a0) (w, a)"
    by (rule lifecycle.reconciled [OF lifecycle.start]) (simp add: group_step_def run)
  moreover have "exported map_api ?a0 Cluster_Admin_Enabled [''c1''] \<noteq> Some 1"
    using new_collector_wf(2) [OF map_api_gauges, of Minute] by simp
  moreover have "lag_ahead admins_cached admin_group_key = [Some (admins [] None)]"
    by (simp add: lag_ahead_def admins_cached_def)
  ultimately obtain grp where "last (lag_ahead w admin_group_key) = Some grp"
      "group_finalizer \<in> set (m_Finalizers (group_meta grp))"
    using group_flag_backed_on_server [OF lag.lagging_server_axioms map_api_gauges u wf, of admins_cached
        admin_group_key "Some (admins [] None)" ?others w a] a(2) by blast
  moreover have "hd (lag_ahead w admin_group_key) = Some (admins [] None)" by (simp add: w_def lag_ahead_def)
  ultimately show ?thesis using run a(2) by blast
qed

text \<open>
  C15: The same for the identity providers, for every OAuth object, provided that an update
  which returns an error has not been applied: whenever an object has an entry among the providers,
  it exists on the API server and carries the finalizer there, however far the cache lags.
\<close>

theorem oauth_entry_backed_on_server:
  assumes "atomic_lagging_server k oauth_meta ahead"
    and "\<not> idp_reported a0 key" and "ahead w0 key = [x]"
    and "\<And>w w'. others w w' \<Longrightarrow> others_move oauth_meta oauth_finalizer (ahead w key) (ahead w' key)"
    and "lifecycle others (oauth_step k) (w0, a0) (w, a)" and "idp_reported a key"
  shows "\<exists>obj. last (ahead w key) = Some obj \<and> oauth_finalizer \<in> set (m_Finalizers (oauth_meta obj))"
  by (rule lagging_protocol.reported_on_server [OF oauth_lagging [OF assms(1)] assms(5) _ TrueI assms(3,2,6)])
    (rule assms(4))


definition ldap_cached :: "OAuth lag_world" where
  "ldap_cached = (\<lambda>key. (Some (ldap_oauth [] None), []))"

theorem oauth_entry_backed_on_server_witness:
  "\<exists>w a obj. snd (OAuthReconcile (lag_client oauth_meta) oauth_key ldap_cached (new_collector map_api Minute)) = (w, a)
    \<and> idp_reported a oauth_key \<and> last (lag_ahead w oauth_key) = Some obj
    \<and> oauth_finalizer \<in> set (m_Finalizers (oauth_meta obj))"
proof -
  let ?k = "lag_client oauth_meta" and ?a0 = "new_collector map_api Minute"
  let ?others = "\<lambda>w w'. others_move oauth_meta oauth_finalizer (lag_ahead w oauth_key) (lag_ahead w' oauth_key)"
  obtain w a where run: "snd (OAuthReconcile ?k oauth_key ldap_cached ?a0) = (w, a)" by (rule prod.exhaust)
  have rep: "idp_reported a oauth_key"
    using run by (simp add: OAuthReconcile_def lag_client_def ldap_cached_def Let_def)
      (auto simp: ldap_oauth_def IsZero_def set_oauth_finalizers_def key_of_def oauth_key_def
        SetOAuthIDP_def provider_key_def idp_reported_def)
  have "lifecycle ?others (oauth_step ?k) (ldap_cached, ?a0) (w, a)"
    by (rule lifecycle.reconciled [OF lifecycle.start]) (use run in \<open>auto simp: oauth_step_def\<close>)
  moreover have "\<not> idp_reported ?a0 oauth_key" by (simp add: idp_reported_def new_collector_def)
  moreover have "lag_ahead ldap_cached oauth_key = [Some (ldap_oauth [] None)]"
    by (simp add: lag_ahead_def ldap_cached_def)
  ultimately obtain obj where "last (lag_ahead w oauth_key) = Some obj"
      "oauth_finalizer \<in> set (m_Finalizers (oauth_meta obj))"
    using oauth_entry_backed_on_server [OF lag.atomic_lagging_server_axioms, of ?a0 oauth_key ldap_cached
        "Some (ldap_oauth [] None)" ?others w a] rep by blast
  with run rep show ?thesis by blast
qed

end
