(* ===== verification/Lagging_Queue.thy ===== *)
theory Lagging_Queue
  imports Missed_Updates Stale_Caches
begin

section \<open>The work queue behind caches that lag\<close>

text \<open>
  \<open>Missed_Updates\<close> takes the reads of the reconcilers to be current, \<open>Stale_Caches\<close> takes the
  reconciles to come by themselves. Here both are put together: a reader sees the first of the
  versions of an object between the cache and the API server, a write goes to the server, and the informers announce
  an object whenever its cached version moves on. A run is one of the queue over what the
  caches show, in which the versions only move forward. For every object there is now a fourth
  possibility besides a waiting request, an event on its way, and metrics that show it: that its
  cache is behind, so that an event is still to come.
\<close>

subsection \<open>Versions of the objects of all kinds\<close>

record ('w, 'cm) object_versions =
  role_versions :: "'w \<Rightarrow> NamespacedName \<Rightarrow> ClusterRole option list"
  configmap_versions :: "'w \<Rightarrow> NamespacedName \<Rightarrow> 'cm option list"
  group_versions :: "'w \<Rightarrow> NamespacedName \<Rightarrow> Group option list"
  machine_versions :: "'w \<Rightarrow> NamespacedName \<Rightarrow> Machine option list"
  oauth_versions :: "'w \<Rightarrow> NamespacedName \<Rightarrow> OAuth option list"
  proxy_versions :: "'w \<Rightarrow> NamespacedName \<Rightarrow> Proxy option list"
  secret_versions :: "'w \<Rightarrow> NamespacedName \<Rightarrow> Secret option list"
  cpms_versions :: "'w \<Rightarrow> NamespacedName \<Rightarrow> ControlPlaneMachineSet option list"

text \<open>What the caches show, and what is on the server.\<close>

definition cached_views :: "('w, 'cm) object_versions \<Rightarrow> ('w, 'cm) object_views" where
  "cached_views av = \<lparr>view_roles = (\<lambda>w key. hd (role_versions av w key)),
     view_configmaps = (\<lambda>w key. hd (configmap_versions av w key)),
     view_groups = (\<lambda>w key. hd (group_versions av w key)),
     view_machines = (\<lambda>w key. hd (machine_versions av w key)),
     view_oauths = (\<lambda>w key. hd (oauth_versions av w key)),
     view_proxies = (\<lambda>w key. hd (proxy_versions av w key)),
     view_secrets = (\<lambda>w key. hd (secret_versions av w key)),
     view_cpms = (\<lambda>w key. hd (cpms_versions av w key))\<rparr>"

definition server_views :: "('w, 'cm) object_versions \<Rightarrow> ('w, 'cm) object_views" where
  "server_views av = \<lparr>view_roles = (\<lambda>w key. last (role_versions av w key)),
     view_configmaps = (\<lambda>w key. last (configmap_versions av w key)),
     view_groups = (\<lambda>w key. last (group_versions av w key)),
     view_machines = (\<lambda>w key. last (machine_versions av w key)),
     view_oauths = (\<lambda>w key. last (oauth_versions av w key)),
     view_proxies = (\<lambda>w key. last (proxy_versions av w key)),
     view_secrets = (\<lambda>w key. last (secret_versions av w key)),
     view_cpms = (\<lambda>w key. last (cpms_versions av w key))\<rparr>"

text \<open>The number of versions that a cache has still to see, and whether the cache of a kind knows an object.\<close>

fun behind_by :: "('w, 'cm) object_versions \<Rightarrow> 'w \<Rightarrow> object_kind \<Rightarrow> NamespacedName \<Rightarrow> nat" where
  "behind_by av w ClusterRole_K key = length (role_versions av w key) - 1"
| "behind_by av w ConfigMap_K key = length (configmap_versions av w key) - 1"
| "behind_by av w Group_K key = length (group_versions av w key) - 1"
| "behind_by av w Machine_K key = length (machine_versions av w key) - 1"
| "behind_by av w OAuth_K key = length (oauth_versions av w key) - 1"
| "behind_by av w Proxy_K key = length (proxy_versions av w key) - 1"
| "behind_by av w Secret_K key = length (secret_versions av w key) - 1"
| "behind_by av w ControlPlaneMachineSet_K key = length (cpms_versions av w key) - 1"
| "behind_by av w ClusterVersion_K key = 0"
| "behind_by av w Event_K key = 0"

definition caught_up :: "('w, 'cm) object_versions \<Rightarrow> 'w \<Rightarrow> bool" where
  "caught_up av w \<longleftrightarrow> (\<forall>kind key. behind_by av w kind key = 0)"

text \<open>New versions come at the end; the cache drops old ones at the front only with an event.\<close>

definition moves_on :: "bool \<Rightarrow> 'o list \<Rightarrow> 'o list \<Rightarrow> bool" where
  "moves_on told xs ys \<longleftrightarrow>
     (\<exists>new n. n < length (xs @ new) \<and> ys = drop n (xs @ new) \<and> (n > 0 \<longrightarrow> told))"

fun version_moves :: "('w, 'cm) object_versions \<Rightarrow> 'w \<Rightarrow> 'w \<Rightarrow> bool \<Rightarrow> object_kind \<Rightarrow> NamespacedName \<Rightarrow> bool" where
  "version_moves av w w' told ClusterRole_K key \<longleftrightarrow> moves_on told (role_versions av w key) (role_versions av w' key)"
| "version_moves av w w' told ConfigMap_K key \<longleftrightarrow> moves_on told (configmap_versions av w key) (configmap_versions av w' key)"
| "version_moves av w w' told Group_K key \<longleftrightarrow> moves_on told (group_versions av w key) (group_versions av w' key)"
| "version_moves av w w' told Machine_K key \<longleftrightarrow> moves_on told (machine_versions av w key) (machine_versions av w' key)"
| "version_moves av w w' told OAuth_K key \<longleftrightarrow> moves_on told (oauth_versions av w key) (oauth_versions av w' key)"
| "version_moves av w w' told Proxy_K key \<longleftrightarrow> moves_on told (proxy_versions av w key) (proxy_versions av w' key)"
| "version_moves av w w' told Secret_K key \<longleftrightarrow> moves_on told (secret_versions av w key) (secret_versions av w' key)"
| "version_moves av w w' told ControlPlaneMachineSet_K key \<longleftrightarrow>
     moves_on told (cpms_versions av w key) (cpms_versions av w' key)"
| "version_moves av w w' told ClusterVersion_K key \<longleftrightarrow> True"
| "version_moves av w w' told Event_K key \<longleftrightarrow> True"

lemma moves_on_refl [simp]: "moves_on told xs xs \<longleftrightarrow> xs \<noteq> []"
proof
  show "moves_on told xs xs" if "xs \<noteq> []"
    unfolding moves_on_def by (rule exI [of _ "[]"], rule exI [of _ 0]) (use that in simp)
qed (auto simp: moves_on_def)

lemma moves_on_add: "moves_on told [x] [x, y]"
  unfolding moves_on_def by (rule exI [of _ "[y]"], rule exI [of _ 0]) simp

lemma moves_on_catch_up: "moves_on True [x, y] [y]"
  unfolding moves_on_def by (rule exI [of _ "[]"], rule exI [of _ 1]) simp

lemma moves_on_untold: "moves_on False xs ys \<Longrightarrow> \<exists>new. ys = xs @ new"
  by (auto simp: moves_on_def)

subsection \<open>Runs\<close>

definition lag_queue_step :: "('w, 'g, 'cm, 'e) operator \<Rightarrow> ('w, 'cm) object_versions
    \<Rightarrow> (controller \<times> registration) list \<Rightarrow> queue_action \<Rightarrow> ('w, 'g) queue_state \<Rightarrow> ('w, 'g) queue_state \<Rightarrow> bool" where
  "lag_queue_step oper av regs l s s' \<longleftrightarrow> queue_step oper (cached_views av) regs l s s'
     \<and> (\<forall>kind key. version_moves av (cluster s) (cluster s') (announced (in_flight s') kind key) kind key)"

inductive lag_queue_reachable :: "('w, 'g, 'cm, 'e) operator \<Rightarrow> ('w, 'cm) object_versions
    \<Rightarrow> (controller \<times> registration) list \<Rightarrow> ('w, 'g) queue_state \<Rightarrow> bool" for oper av regs where
  lag_started: "queue_start oper (cached_views av) s \<Longrightarrow> lag_queue_reachable oper av regs s"
| lag_moved: "lag_queue_reachable oper av regs s \<Longrightarrow> lag_queue_step oper av regs l s s' \<Longrightarrow>
    lag_queue_reachable oper av regs s'"

text \<open>Such a run is one over the caches.\<close>

lemma lag_queue_reachable_cached:
  "lag_queue_reachable oper av regs s \<Longrightarrow> queue_reachable oper (cached_views av) regs s"
  by (induction rule: lag_queue_reachable.induct)
    (auto simp: lag_queue_step_def intro: queue_started queue_moved)

subsection \<open>The cluster behind lagging caches\<close>

lemma lagging_readable: "lagging_server k meta ahead \<Longrightarrow> object_reader k (\<lambda>w key. hd (ahead w key))"
  by (rule object_reader.intro) (auto intro: lagging_server.cached_found lagging_server.cached_missing)

locale lagging_cluster = read_cluster oper "cached_views av"
  + roles: lagging_server "op_role_client oper" role_meta "role_versions av"
  + groups: lagging_server "op_group_client oper" group_meta "group_versions av"
  + oauths: lagging_server "op_oauth_client oper" oauth_meta "oauth_versions av"
  for oper :: "('w, 'g, 'cm, 'e) operator" and av :: "('w, 'cm) object_versions" +
  assumes read_versions: "configmap_versions av w key \<noteq> []" "machine_versions av w key \<noteq> []"
      "proxy_versions av w key \<noteq> []" "secret_versions av w key \<noteq> []" "cpms_versions av w key \<noteq> []"
begin

lemmas versions_there = read_versions roles.versions_exist groups.versions_exist oauths.versions_exist

lemma lag_laws: "lagging_server (op_group_client oper) group_meta (group_versions av)"
  "lagging_server (op_oauth_client oper) oauth_meta (oauth_versions av)"
  by (fact groups.lagging_server_axioms) (fact oauths.lagging_server_axioms)

text \<open>An object that is not announced has the same cached version, and its cache has not caught up.\<close>

lemma unmoved:
  assumes "version_moves av w w' False kind key"
  shows "same_object (cached_views av) w w' kind key"
    and "behind_by av w kind key \<le> behind_by av w' kind key"
proof -
  have front: "hd ys = hd xs \<and> length xs \<le> length ys" if "moves_on False xs ys" "xs \<noteq> []" for xs ys :: "'x list"
    using moves_on_untold [OF that(1)] that(2) by (cases xs) auto
  show "same_object (cached_views av) w w' kind key"
    using assms by (cases kind) (auto simp: cached_views_def versions_there dest!: front)
  show "behind_by av w kind key \<le> behind_by av w' kind key"
    using assms by (cases kind) (auto simp: versions_there dest!: front intro!: diff_le_mono)
qed

text \<open>When the cache of an object has caught up, it shows what is on the server.\<close>

lemma reflected_on_server:
  assumes "behind_by av w (watched c) key = 0" and "reflected oper (cached_views av) c key w a"
  shows "reflected oper (server_views av) c key w a"
proof -
  have last: "last xs = hd xs" if "length xs - 1 = 0" "xs \<noteq> []" for xs :: "'x list" using that by (cases xs) auto
  show ?thesis using assms by (cases c) (simp_all add: cached_views_def server_views_def last versions_there)
qed

end


context lagging_cluster
begin

text \<open>A write leaves the cache behind; otherwise the reconciler has shown the cached object.\<close>

lemma role_answered:
  assumes run: "ClusterRoleReconcile (op_role_client oper) req w = (out, w')" and quiet: "\<not> asks_again out"
  shows "reflected oper (cached_views av) ClusterRole_C req w' a \<or> behind_by av w' ClusterRole_K req > 0"
proof (cases "Get (op_role_client oper) w req")
  case (Inl err)
  then show ?thesis using run quiet roles.cached_missing [OF Inl]
    by (auto simp: ClusterRoleReconcile_def cached_views_def split: if_splits)
next
  case get: (Inr role)
  have sent: "key_of (role_meta (set_role_finalizers fs role)) = req" for fs
    using roles.cached_key [OF get] by simp
  show ?thesis
    using run quiet get roles.cached_found [OF get] roles.accepted [OF get sent]
    by (fastforce simp: ClusterRoleReconcile_def cached_views_def split: if_splits prod.splits sum.splits)
qed

lemma group_answered:
  assumes wf: "agg_wf (op_gauges oper) a" and quiet: "\<not> asks_again out"
    and run: "GroupReconcile (op_group_client oper) (op_gauges oper) (op_clusterId oper) req w a = (out, w', a')"
  shows "reflected oper (cached_views av) Group_C req w' a' \<or> behind_by av w' Group_K req > 0"
proof (cases "Get (op_group_client oper) w req")
  case (Inl err)
  then show ?thesis using run quiet groups.cached_missing [OF Inl]
    by (auto simp: GroupReconcile_def cached_views_def split: if_splits)
next
  case get: (Inr g)
  have sent: "key_of (group_meta (set_group_finalizers fs g)) = req" for fs
    using groups.cached_key [OF get] by simp
  have "\<exists>a'. SetClusterAdmin (op_gauges oper) (op_clusterId oper) b a = Ok a'
      \<and> scraped oper a' Cluster_Admin_Enabled [op_clusterId oper] = Some (of_bool b)" for b
    using SetClusterAdmin_reports [OF laws(1,2) wf, of b] by (auto simp: expo_set_def elim: reportsE)
  then obtain A where set: "SetClusterAdmin (op_gauges oper) (op_clusterId oper) b a = Ok (A b)"
      "scraped oper (A b) Cluster_Admin_Enabled [op_clusterId oper] = Some (of_bool b)" for b by metis
  show ?thesis
    using run quiet get groups.cached_found [OF get] groups.accepted [OF get sent]
    by (fastforce simp: GroupReconcile_def set cached_views_def split: if_splits prod.splits sum.splits)
qed

lemma oauth_answered:
  assumes run: "OAuthReconcile (op_oauth_client oper) req w a = (out, w', a')" and quiet: "\<not> asks_again out"
  shows "reflected oper (cached_views av) OAuth_C req w' a' \<or> behind_by av w' OAuth_K req > 0"
proof (cases "Get (op_oauth_client oper) w req")
  case (Inl err)
  then show ?thesis using run quiet oauths.cached_missing [OF Inl]
    by (auto simp: OAuthReconcile_def cached_views_def split: if_splits)
next
  case get: (Inr obj)
  have own: "key_of (oauth_meta obj) = req" by (rule oauths.cached_key [OF get])
  then have sent: "key_of (oauth_meta (set_oauth_finalizers fs obj)) = req" for fs by simp
  show ?thesis
    using run quiet get own oauths.cached_found [OF get] oauths.accepted [OF get sent]
    by (fastforce simp: OAuthReconcile_def cached_views_def providerMap_SetOAuthIDP providerMap_DeleteOAuthIDP
        split: if_splits prod.splits sum.splits)
qed

lemma oauth_others:
  assumes run: "OAuthReconcile (op_oauth_client oper) req w a = (out, w', a')" and "key \<noteq> req"
  shows "map_of (providerMap a') (provider_key key) = map_of (providerMap a) (provider_key key)"
proof (cases "Get (op_oauth_client oper) w req")
  case (Inl err)
  then show ?thesis using run by (auto simp: OAuthReconcile_def split: if_splits)
next
  case get: (Inr obj)
  have own: "key_of (oauth_meta obj) = req" by (rule oauths.cached_key [OF get])
  then have sent: "key_of (oauth_meta (set_oauth_finalizers fs obj)) = req" for fs by simp
  show ?thesis
    using run get own oauths.accepted [OF get sent] \<open>key \<noteq> req\<close>
    by (fastforce simp: OAuthReconcile_def providerMap_SetOAuthIDP providerMap_DeleteOAuthIDP
        split: if_splits prod.splits sum.splits)
qed

end


subsection \<open>The invariant\<close>

definition accounted_or_behind :: "('w, 'g, 'cm, 'e) operator \<Rightarrow> ('w, 'cm) object_versions
    \<Rightarrow> ('w, 'g) queue_state \<Rightarrow> controller \<Rightarrow> NamespacedName \<Rightarrow> bool" where
  "accounted_or_behind oper av s c key \<longleftrightarrow>
     accounted oper (cached_views av) s c key \<or> behind_by av (cluster s) (watched c) key > 0"

definition nothing_lost :: "('w, 'g, 'cm, 'e) operator \<Rightarrow> ('w, 'cm) object_versions
    \<Rightarrow> (controller \<times> registration) list \<Rightarrow> ('w, 'g) queue_state \<Rightarrow> bool" where
  "nothing_lost oper av regs s \<longleftrightarrow>
     (\<forall>(c, req) \<in> pending s. c \<in> fst ` set regs \<and> concerns (op_network_operator oper) c req)
     \<and> (\<forall>c \<in> fst ` set regs. \<forall>key. relevant (op_network_operator oper) c key \<longrightarrow> accounted_or_behind oper av s c key)"

context lagging_cluster
begin

lemma lag_answered:
  assumes wf: "agg_wf (op_gauges oper) a" and run: "Reconcile oper now c req w a = (out, w', a')"
    and quiet: "\<not> asks_again out" and rel: "relevant (op_network_operator oper) c req"
  shows "reflected oper (cached_views av) c req w' a' \<or> behind_by av w' (watched c) req > 0"
proof (cases c)
  case ClusterRole_C
  then show ?thesis using run role_answered [OF _ quiet, of req w w' a'] by (auto split: prod.splits)
next
  case Group_C
  then show ?thesis using run group_answered [OF wf quiet, of req w w' a'] by simp
next
  case OAuth_C
  then show ?thesis using run oauth_answered [OF _ quiet, of req w a w' a'] by simp
qed (use answered_reader [OF wf run quiet rel] in simp_all)

lemma lag_undisturbed:
  assumes wf: "agg_wf (op_gauges oper) a" and run: "Reconcile oper now c req w a = (out, w', a')"
    and req: "concerns (op_network_operator oper) c req" "req \<noteq> key"
    and key: "relevant (op_network_operator oper) c key" "reflected oper (cached_views av) c key w a"
    and same: "same_object (cached_views av) w w' (watched c) key"
  shows "reflected oper (cached_views av) c key w' a'"
proof (cases "c = OAuth_C")
  case True
  then show ?thesis
    using run oauth_others [of req w a out w' a' key] req(2) key(2) same by (auto split: option.splits)
next
  case False
  with undisturbed_reader [OF wf run req key same] show ?thesis by simp
qed

text \<open>A step of somebody else.\<close>

lemma lag_kept:
  assumes acc: "accounted_or_behind oper av s c key" and "(c, key) \<in> pending s \<Longrightarrow> (c, key) \<in> pending s'"
    and "announced (in_flight s) (watched c) key \<Longrightarrow> announced (in_flight s') (watched c) key"
    and moves: "version_moves av (cluster s) (cluster s') (announced (in_flight s') (watched c) key) (watched c) key"
    and "same_object (cached_views av) (cluster s) (cluster s') (watched c) key \<Longrightarrow>
      reflected oper (cached_views av) c key (cluster s) (collector s) \<Longrightarrow>
      reflected oper (cached_views av) c key (cluster s') (collector s')"
  shows "accounted_or_behind oper av s' c key"
proof (cases "announced (in_flight s') (watched c) key")
  case False
  with unmoved [of "cluster s" "cluster s'" "watched c" key] moves assms show ?thesis
    by (auto simp: accounted_or_behind_def accounted_def)
qed (simp add: accounted_or_behind_def accounted_def)

lemma start_not_lost:
  assumes "queue_start oper (cached_views av) s" shows "nothing_lost oper av regs s"
  using assms unseen_reflected [OF assms]
  by (auto simp: nothing_lost_def accounted_or_behind_def accounted_def queue_start_def tells_all_def)

lemma lag_step_accounted:
  assumes step: "lag_queue_step oper av regs l s s'" and wf: "agg_wf (op_gauges oper) (collector s)"
    and regs: "proper_registrations (op_network_operator oper) regs" and inv: "nothing_lost oper av regs s"
  shows "nothing_lost oper av regs s'"
proof -
  note acc = inv [unfolded nothing_lost_def]
  have moves: "version_moves av (cluster s) (cluster s') (announced (in_flight s') kind key) kind key" for kind key
    using step by (simp add: lag_queue_step_def)
  from step have "queue_step oper (cached_views av) regs l s s'" by (simp add: lag_queue_step_def)
  then show ?thesis
  proof cases
    case (changes w' evs)
    have "accounted_or_behind oper av s' c key" if "accounted_or_behind oper av s c key" for c key
      by (rule lag_kept [OF that _ _ moves])
        (use changes others_keep_reflected [OF wf system_step.cluster_changes] in auto)
    with changes acc show ?thesis by (auto simp: nothing_lost_def)
  next
    case (delivers pre kind evt post)
    note new = requests_proper [OF regs, of kind evt]
    have "accounted_or_behind oper av s' c key" if "accounted_or_behind oper av s c key" "c \<in> fst ` set regs"
        "relevant (op_network_operator oper) c key" for c key
    proof -
      from that(1) [unfolded accounted_or_behind_def accounted_def delivers(3) announced_split]
      consider "(c, key) \<in> pending s" | "announced (pre @ post) (watched c) key"
        | "watched c = kind" "key = key_of (event_object evt)"
        | "reflected oper (cached_views av) c key (cluster s) (collector s)" | "behind_by av (cluster s) (watched c) key > 0"
        by argo
      then show ?thesis using that(2) relevant_concerns [OF that(3)] delivers(2)
        by cases (simp_all add: accounted_or_behind_def accounted_def new)
    qed
    with delivers acc show ?thesis by (auto simp: nothing_lost_def new)
  next
    case (ticks a')
    have "accounted_or_behind oper av s' c key" if "accounted_or_behind oper av s c key" for c key
      by (rule lag_kept [OF that _ _ moves])
        (use ticks others_keep_reflected [OF wf system_step.ticks [OF ticks(3)]] in auto)
    with ticks acc show ?thesis by (auto simp: nothing_lost_def)
  next
    case (answers c req now out w' a' evs)
    note step = Reconcile_step [OF answers(4)]
    have req: "c \<in> fst ` set regs" "concerns (op_network_operator oper) c req" using acc answers(3) by auto
    have "accounted_or_behind oper av s' c' key" if "accounted_or_behind oper av s c' key"
        "relevant (op_network_operator oper) c' key" for c' key
    proof (cases "(c', key) = (c, req)")
      case True
      with answers that(2) lag_answered [OF wf answers(4)] show ?thesis
        by (auto simp: accounted_or_behind_def accounted_def)
    next
      case False
      have "reflected oper (cached_views av) c' key w' a'"
        if "same_object (cached_views av) (cluster s) w' (watched c') key"
          "reflected oper (cached_views av) c' key (cluster s) (collector s)"
        using that False lag_undisturbed [OF wf answers(4) req(2)] \<open>relevant _ c' key\<close>
          others_keep_reflected [OF wf step, of c' key] by (cases "c' = c") auto
      with False answers show ?thesis
        by (intro lag_kept [OF \<open>accounted_or_behind oper av s c' key\<close> _ _ moves]) auto
    qed
    with answers acc show ?thesis by (auto simp: nothing_lost_def split: if_splits)
  qed
qed

lemma lag_invariant:
  assumes "lag_queue_reachable oper av regs s" and regs: "proper_registrations (op_network_operator oper) regs"
  shows "nothing_lost oper av regs s"
  using assms(1)
proof induction
  case (lag_started s)
  then show ?case by (rule start_not_lost)
next
  case (lag_moved s l s')
  have "agg_wf (op_gauges oper) (collector s)"
    using reachable_invariant [OF queue_reachable_system [OF lag_queue_reachable_cached [OF lag_moved(1)]] oper_ok]
    by simp
  with lag_moved regs show ?case by (blast intro: lag_step_accounted)
qed

end

end
