(* ===== verification/Lagging_Counts.thy ===== *)
theory Lagging_Counts
  imports Lagging_Queue End_To_End
begin

section \<open>The counts behind caches that lag\<close>

text \<open>
  The two results on lagging caches together: by the protocol of \<open>Stale_Caches\<close> an entry or a flag
  is backed by the finalizer on the server, so its object exists there, and by the invariant of \<open>Lagging_Queue\<close> the metrics show every object
  once its cache has caught up and its requests are answered.
\<close>

text \<open>A step in which others do not take a finalizer away between two versions of an object.\<close>

definition guarded_lag_step :: "('w, 'g, 'cm, 'e) operator \<Rightarrow> ('w, 'cm) object_versions
    \<Rightarrow> (controller \<times> registration) list \<Rightarrow> ('w, 'g) queue_state \<Rightarrow> ('w, 'g) queue_state \<Rightarrow> bool" where
  "guarded_lag_step oper av regs s s' \<longleftrightarrow> (\<exists>l. lag_queue_step oper av regs l s s'
     \<and> (answered_by l \<noteq> Some OAuth_C \<longrightarrow> (\<forall>key. others_move oauth_meta oauth_finalizer
          (oauth_versions av (cluster s) key) (oauth_versions av (cluster s') key)))
     \<and> (answered_by l \<noteq> Some Group_C \<longrightarrow> others_move group_meta group_finalizer
          (group_versions av (cluster s) admin_group_key) (group_versions av (cluster s') admin_group_key)))"

definition lag_backed :: "('w, 'g, 'cm, 'e) operator \<Rightarrow> ('w, 'cm) object_versions \<Rightarrow> ('w, 'g) queue_state \<Rightarrow> bool" where
  "lag_backed oper av s \<longleftrightarrow>
     (\<forall>key. lag_ok oauth_meta oauth_finalizer (oauth_versions av (cluster s) key, idp_reported (collector s) key))
     \<and> lag_ok group_meta group_finalizer (group_versions av (cluster s) admin_group_key,
         scraped oper (collector s) Cluster_Admin_Enabled [op_clusterId oper] = Some 1)"

text \<open>
  At the start nothing is reported. The caches may lag, but an object that they show alive with its
  finalizer has it in its next version.
\<close>

definition calm_start :: "('w, 'g, 'cm, 'e) operator \<Rightarrow> ('w, 'cm) object_versions \<Rightarrow> ('w, 'g) queue_state \<Rightarrow> bool" where
  "calm_start oper av s \<longleftrightarrow> queue_start oper (cached_views av) s
     \<and> (\<forall>key. lag_ok oauth_meta oauth_finalizer (oauth_versions av (cluster s) key, False))
     \<and> lag_ok group_meta group_finalizer (group_versions av (cluster s) admin_group_key, False)"

context lagging_cluster
begin

lemma start_backed:
  assumes "calm_start oper av s" shows "lag_backed oper av s"
proof -
  from NewMetricsAggregator_ok [OF laws(1,2), of aggregatorResyncInterval] assms
  have "\<not> idp_reported (collector s) key" "scraped oper (collector s) Cluster_Admin_Enabled [op_clusterId oper] \<noteq> Some 1" for key
    by (auto simp: calm_start_def queue_start_def idp_reported_def expo_set_def)
  with assms show ?thesis by (simp add: calm_start_def lag_backed_def)
qed

text \<open>The answer to a request keeps both reports backed: one by the protocol, the other undisturbed.\<close>

lemma answer_backed:
  assumes atomic: "atomic_lagging_server (op_oauth_client oper) oauth_meta (oauth_versions av)"
    and wf: "agg_wf (op_gauges oper) a" and run: "Reconcile oper now c req w a = (out, w', a')"
    and req: "concerns (op_network_operator oper) c req"
    and oauth: "c \<noteq> OAuth_C \<Longrightarrow> others_move oauth_meta oauth_finalizer (oauth_versions av w key) (oauth_versions av w' key)"
    and grp: "c \<noteq> Group_C \<Longrightarrow> others_move group_meta group_finalizer
      (group_versions av w admin_group_key) (group_versions av w' admin_group_key)"
  shows "lag_ok oauth_meta oauth_finalizer (oauth_versions av w key, idp_reported a key) \<Longrightarrow>
      lag_ok oauth_meta oauth_finalizer (oauth_versions av w' key, idp_reported a' key)"
    and "lag_ok group_meta group_finalizer (group_versions av w admin_group_key,
        scraped oper a Cluster_Admin_Enabled [op_clusterId oper] = Some 1) \<Longrightarrow>
      lag_ok group_meta group_finalizer (group_versions av w' admin_group_key,
        scraped oper a' Cluster_Admin_Enabled [op_clusterId oper] = Some 1)"
proof -
  note others = others_keep_reports [OF oper_ok wf Reconcile_step [OF run]]
  show "lag_ok oauth_meta oauth_finalizer (oauth_versions av w' key, idp_reported a' key)"
    if "lag_ok oauth_meta oauth_finalizer (oauth_versions av w key, idp_reported a key)"
  proof (cases "c = OAuth_C")
    case True
    then show ?thesis using lag_ok_step [OF oauth_lag_step [OF atomic] that] run by simp
  next
    case False
    then show ?thesis using lag_ok_moved [OF that oauth] others(1) by simp
  qed
  show "lag_ok group_meta group_finalizer (group_versions av w' admin_group_key,
      scraped oper a' Cluster_Admin_Enabled [op_clusterId oper] = Some 1)"
    if ok: "lag_ok group_meta group_finalizer (group_versions av w admin_group_key,
      scraped oper a Cluster_Admin_Enabled [op_clusterId oper] = Some 1)"
  proof (cases "c = Group_C")
    case True
    then have grun: "GroupReconcile (op_group_client oper) (op_gauges oper) (op_clusterId oper) req w a = (out, w', a')"
      using run by simp
    show ?thesis
    proof (cases "req = admin_group_key")
      case True
      with group_lag_step [OF groups.lagging_server_axioms laws(1,2) wf grun] lag_ok_step ok show ?thesis by blast
    next
      case False
      with group_elsewhere [OF _ False grun] req \<open>c = Group_C\<close> ok show ?thesis by simp
    qed
  next
    case False
    then show ?thesis using lag_ok_moved [OF ok grp] others(2) by simp
  qed
qed

lemma guarded_lag_backed:
  assumes atomic: "atomic_lagging_server (op_oauth_client oper) oauth_meta (oauth_versions av)"
    and step: "guarded_lag_step oper av regs s s'" and wf: "agg_wf (op_gauges oper) (collector s)"
    and inv: "nothing_lost oper av regs s" and backed: "lag_backed oper av s"
  shows "lag_backed oper av s'"
proof -
  obtain l where "lag_queue_step oper av regs l s s'"
    and oauth: "answered_by l \<noteq> Some OAuth_C \<Longrightarrow> others_move oauth_meta oauth_finalizer
      (oauth_versions av (cluster s) key) (oauth_versions av (cluster s') key)"
    and grp: "answered_by l \<noteq> Some Group_C \<Longrightarrow> others_move group_meta group_finalizer
      (group_versions av (cluster s) admin_group_key) (group_versions av (cluster s') admin_group_key)"
    for key using step unfolding guarded_lag_step_def by blast
  then have l: "queue_step oper (cached_views av) regs l s s'" by (simp add: lag_queue_step_def)
  have moved: "lag_backed oper av s'"
    if "l \<in> {Changes, Delivers, Ticks}" "idp_reported (collector s') = idp_reported (collector s)"
      "scraped oper (collector s') Cluster_Admin_Enabled = scraped oper (collector s) Cluster_Admin_Enabled"
    using that backed oauth grp by (auto simp: lag_backed_def intro: lag_ok_moved)
  from l show ?thesis
  proof cases
    case (ticks a')
    with others_keep_reports [OF oper_ok wf system_step.ticks [OF ticks(3)]] show ?thesis by (intro moved) simp_all
  next
    case (answers c req now out w' a' evs)
    then have "concerns (op_network_operator oper) c req" using inv by (auto simp: nothing_lost_def)
    from answer_backed [OF atomic wf answers(4) this] oauth grp backed answers(1,2) show ?thesis
      by (simp add: lag_backed_def)
  next
    case (changes w' evs)
    then show ?thesis by (intro moved) simp_all
  next
    case (delivers pre kind evt post)
    then show ?thesis by (intro moved) simp_all
  qed
qed

lemma guarded_lag_run:
  assumes "atomic_lagging_server (op_oauth_client oper) oauth_meta (oauth_versions av)"
    and "proper_registrations (op_network_operator oper) regs"
    and "(guarded_lag_step oper av regs)\<^sup>*\<^sup>* s0 s" and "calm_start oper av s0"
  shows "lag_queue_reachable oper av regs s \<and> lag_backed oper av s"
  using assms(3)
proof induction
  case base
  with start_backed assms(4) show ?case by (auto simp: calm_start_def intro: lag_started)
next
  case (step s s')
  have reach: "lag_queue_reachable oper av regs s" using step.IH by blast
  have wf: "agg_wf (op_gauges oper) (collector s)"
    using reachable_invariant [OF queue_reachable_system [OF lag_queue_reachable_cached [OF reach]] oper_ok] by simp
  have "lag_queue_reachable oper av regs s'"
    using step.hyps(2) reach unfolding guarded_lag_step_def by (blast intro: lag_moved)
  with guarded_lag_backed [OF assms(1) step.hyps(2) wf lag_invariant [OF reach assms(2)]] step.IH show ?case by blast
qed

text \<open>When there is nothing to do and the caches have caught up, the metrics show the objects on the server.\<close>

lemma shown_when_settled:
  assumes reach: "lag_queue_reachable oper av regs s" and regs: "proper_registrations (op_network_operator oper) regs"
    and "idle s" and "caught_up av (cluster s)"
    and "c \<in> fst ` set regs" and "relevant (op_network_operator oper) c key"
  shows "reflected oper (server_views av) c key (cluster s) (collector s)"
  using lag_invariant [OF reach regs] assms(3-6) reflected_on_server [of "cluster s" c key "collector s"]
  by (auto simp: nothing_lost_def accounted_or_behind_def accounted_def idle_def announced_def caught_up_def)

text \<open>What is reported exists on the server, once the caches have caught up.\<close>

lemma backed_on_server:
  assumes "lag_backed oper av s"
  shows "idp_reported (collector s) key \<Longrightarrow> view_oauths (server_views av) (cluster s) key \<noteq> None"
    and "scraped oper (collector s) Cluster_Admin_Enabled [op_clusterId oper] = Some 1 \<Longrightarrow>
      view_groups (server_views av) (cluster s) admin_group_key \<noteq> None"
proof -
  have there: "last xs \<noteq> None" if "lag_ok meta f (xs, True)" for meta f and xs :: "'x option list"
    using that by (cases xs) (auto simp: carries_def split: option.splits if_splits)
  show "view_oauths (server_views av) (cluster s) key \<noteq> None" if "idp_reported (collector s) key"
  proof -
    have "lag_ok oauth_meta oauth_finalizer (oauth_versions av (cluster s) key, True)"
      using assms that unfolding lag_backed_def by metis
    from there [OF this] show ?thesis by (simp add: server_views_def)
  qed
  show "view_groups (server_views av) (cluster s) admin_group_key \<noteq> None"
    if "scraped oper (collector s) Cluster_Admin_Enabled [op_clusterId oper] = Some 1"
  proof -
    have "lag_ok group_meta group_finalizer (group_versions av (cluster s) admin_group_key, True)"
      using assms that unfolding lag_backed_def by metis
    from there [OF this] show ?thesis by (simp add: server_views_def)
  qed
qed

text \<open>So when all is settled a round of the loop exports the counts on the server.\<close>

lemma settled_counts:
  assumes reach: "lag_queue_reachable oper av regs s" and backed: "lag_backed oper av s"
    and regs: "proper_registrations (op_network_operator oper) regs" "{OAuth_C, Group_C} \<subseteq> fst ` set regs"
    and settled: "idle s" "caught_up av (cluster s)"
    and run: "aggregate (op_gauges oper) (op_idp_types oper) (collector s) = Ok a'"
    and t: "t \<in> set (knownIdentityProviderTypes (op_idp_types oper))"
  shows "exported (op_gauges oper) a' Identity_Provider [t] =
      Some (float64 (int (idp_total (server_views av) (cluster s) t)))
    \<and> exported (op_gauges oper) a' Cluster_Admin_Enabled [op_clusterId oper] =
        Some (of_bool (\<exists>g. view_groups (server_views av) (cluster s) admin_group_key = Some g
          \<and> IsZero (m_DeletionTimestamp (group_meta g)) \<and> Users g \<noteq> []))"
proof -
  note sys = queue_reachable_system [OF lag_queue_reachable_cached [OF reach]]
  have wf: "agg_wf (op_gauges oper) (collector s)" using reachable_invariant [OF sys oper_ok] by simp
  have admins: "scraped oper (collector s) Cluster_Admin_Enabled [op_clusterId oper] \<in> {Some 0, Some 1}"
    using admin_flag_there [OF sys] by simp
  show ?thesis
  proof (rule counts_of_reflected [OF oper_ok wf _ _ _ _ admins run t])
    show "reflected oper (server_views av) OAuth_C key (cluster s) (collector s)" for key
      using regs(2) by (intro shown_when_settled [OF reach regs(1) settled]) simp_all
    show "reflected oper (server_views av) Group_C admin_group_key (cluster s) (collector s)"
      using regs(2) by (intro shown_when_settled [OF reach regs(1) settled]) simp_all
  qed (use backed_on_server [OF backed] in blast)+
qed

end

end
