(* ===== verification/Lagging_Memory.thy ===== *)
theory Lagging_Memory
  imports Lagging_Counts
begin

section \<open>A cluster in memory whose caches lag\<close>

text \<open>
  For every object the versions from its cache to the server. The contract of lagging caches
  holds for it, so the witnesses of the properties run on it.
\<close>

record lag_memory =
  lm_roles :: "ClusterRole lag_world"
  lm_configmaps :: "Certificate list lag_world"
  lm_groups :: "Group lag_world"
  lm_machines :: "Machine lag_world"
  lm_oauths :: "OAuth lag_world"
  lm_proxies :: "Proxy lag_world"
  lm_secrets :: "Secret lag_world"
  lm_cpms :: "ControlPlaneMachineSet lag_world"

lemma part_lagging:
  assumes "lagging_server k meta ahead"
    and "\<And>w obj r x old. Get k (part w) (key_of (meta obj)) = Inr old \<Longrightarrow> Update k (part w) obj = (r, x) \<Longrightarrow>
      part (put x w) = x"
  shows "lagging_server (part_client part put k) meta (\<lambda>w. ahead (part w))"
proof -
  note [simp] = part_client_def
  have upd: "\<exists>x. Update k (part w) obj = (r, x) \<and> part w' = x"
    if "Update (part_client part put k) w obj = (r, w')" "Get k (part w) (key_of (meta obj)) = Inr old" for w obj old r w'
    using that assms(2) by (auto split: prod.splits)
  show ?thesis
  proof
    fix w w' key old obj obj'
    assume "Get (part_client part put k) w key = Inr old" and key: "key_of (meta obj) = key"
      and run: "Update (part_client part put k) w obj = (Inr obj', w')"
    then have get: "Get k (part w) key = Inr old" by simp
    from upd [OF run] get key have "Update k (part w) obj = (Inr obj', part w')" by blast
    from lagging_server.accepted [OF assms(1) get key this] show "meta obj' = meta obj \<and> ahead (part w) key = [Some old]
        \<and> ahead (part w') = (ahead (part w))(key := [Some old, next_version meta obj obj'])" .
  next
    fix w w' key old obj e
    assume "Get (part_client part put k) w key = Inr old" and key: "key_of (meta obj) = key"
      and run: "Update (part_client part put k) w obj = (Inl e, w')"
    then have get: "Get k (part w) key = Inr old" by simp
    from upd [OF run] get key have "Update k (part w) obj = (Inl e, part w')" by blast
    from lagging_server.refused [OF assms(1) get key this] show "ahead (part w') = ahead (part w) \<or> ahead (part w) key = [Some old]
        \<and> ahead (part w') = (ahead (part w))(key := [Some old, next_version meta obj obj])" .
  next
    show "key_of (meta obj) = key" "hd (ahead (part w) key) = Some obj"
      if "Get (part_client part put k) w key = Inr obj" for w key obj
      using that lagging_server.cached_key [OF assms(1)] lagging_server.cached_found [OF assms(1)] by simp_all
    show "hd (ahead (part w) key) = None"
      if "Get (part_client part put k) w key = Inl e" "IsNotFound (part_client part put k) e" for w key e
      using that lagging_server.cached_missing [OF assms(1)] by simp
  qed (simp_all add: lagging_server.versions_exist [OF assms(1)] lagging_server.adds_finalizer [OF assms(1)]
      lagging_server.removes_finalizer [OF assms(1)])
qed

text \<open>Versions that are only read.\<close>

definition version_client :: "('w \<Rightarrow> NamespacedName \<Rightarrow> 'o option list) \<Rightarrow> ('w, 'o, mem_error) client" where
  "version_client versions = \<lparr>
     Get = (\<lambda>w key. case hd (versions w key) of None \<Rightarrow> Inl Mem_NotFound | Some obj \<Rightarrow> Inr obj),
     Update = (\<lambda>w obj. (Inr obj, w)), IsNotFound = (\<lambda>e. e = Mem_NotFound),
     AddFinalizer = (\<lambda>fs f. f # fs), RemoveFinalizer = (\<lambda>fs f. removeAll f fs)\<rparr>"

interpretation version: object_reader "version_client versions" "\<lambda>w key. hd (versions w key)" for versions
  by unfold_locales (auto simp: version_client_def split: option.splits)

text \<open>The API server accepts only groups without a namespace, and machines with valid names.\<close>

definition unscoped_versions :: "lag_memory \<Rightarrow> Group lag_world" where
  "unscoped_versions w = (\<lambda>key. if nn_Namespace key = '''' then lm_groups w key else (None, []))"

definition acceptable_machine :: "NamespacedName \<Rightarrow> Machine \<Rightarrow> bool" where
  "acceptable_machine key m \<longleftrightarrow> key_of (machine_meta m) = key \<and> ValidString (m_Name (machine_meta m))
     \<and> (\<forall>node \<in> set_option (status_NodeRef m). ValidString node)"

definition acceptable_versions :: "lag_memory \<Rightarrow> NamespacedName \<Rightarrow> Machine option list" where
  "acceptable_versions w key = map (\<lambda>x. Option.bind x (\<lambda>m. if acceptable_machine key m then Some m else None))
     (lag_ahead (lm_machines w) key)"

definition lag_versions :: "(lag_memory, Certificate list) object_versions" where
  "lag_versions = \<lparr>role_versions = (\<lambda>w. lag_ahead (lm_roles w)),
     configmap_versions = (\<lambda>w. lag_ahead (lm_configmaps w)),
     group_versions = (\<lambda>w. lag_ahead (unscoped_versions w)),
     machine_versions = acceptable_versions,
     oauth_versions = (\<lambda>w. lag_ahead (lm_oauths w)),
     proxy_versions = (\<lambda>w. lag_ahead (lm_proxies w)), secret_versions = (\<lambda>w. lag_ahead (lm_secrets w)),
     cpms_versions = (\<lambda>w. lag_ahead (lm_cpms w))\<rparr>"

definition lag_operator :: "(lag_memory, map_vec, Certificate list, mem_error) operator" where
  "lag_operator = \<lparr>op_gauges = map_api, op_idp_types = api_idp_types, op_clusterId = ''c1'',
     op_role_client = part_client lm_roles (\<lambda>x w. w\<lparr>lm_roles := x\<rparr>) (lag_client role_meta),
     op_configmap_client = version_client (configmap_versions lag_versions),
     op_group_client = part_client unscoped_versions (\<lambda>x w. w\<lparr>lm_groups := x\<rparr>) (lag_client group_meta),
     op_machine_client = version_client (machine_versions lag_versions),
     op_oauth_client = part_client lm_oauths (\<lambda>x w. w\<lparr>lm_oauths := x\<rparr>) (lag_client oauth_meta),
     op_proxy_client = version_client (proxy_versions lag_versions),
     op_secret_client = version_client (secret_versions lag_versions),
     op_cpms_client = version_client (cpms_versions lag_versions),
     op_network_operator = one_cert_operator, op_decoders = text_decoders,
     op_events = (\<lambda>w ns name. Inr [])\<rparr>"

lemma unscoped_versions_put:
  assumes "Get (lag_client group_meta) (unscoped_versions w) (key_of (group_meta g)) = Inr old"
    and "Update (lag_client group_meta) (unscoped_versions w) g = (r, x)"
  shows "unscoped_versions (w\<lparr>lm_groups := x\<rparr>) = x"
proof -
  have "nn_Namespace (key_of (group_meta g)) = ''''"
    using assms(1) by (auto simp: lag_client_def unscoped_versions_def split: if_splits)
  then show ?thesis
    using assms(2) by (auto simp: lag_client_def unscoped_versions_def Let_def fun_eq_iff split: if_splits)
qed

lemma acceptable_versions_hd:
  "hd (acceptable_versions w key) = Some m \<Longrightarrow> acceptable_machine key m"
  by (auto simp: acceptable_versions_def lag_ahead_def bind_eq_Some_conv split: if_splits)

lemma lag_operator_ok: "operator_ok lag_operator"
  by (auto simp: operator_ok_def lag_operator_def map_api_gauges api_idp_types_valid one_cert_valid
      text_decoders_valid valid_nodes_def version_client_def lag_versions_def byte_def acceptable_machine_def
      split: option.splits dest!: acceptable_versions_hd)

lemma lag_servers:
  "lagging_server (op_role_client lag_operator) role_meta (role_versions lag_versions)"
  "lagging_server (op_group_client lag_operator) group_meta (group_versions lag_versions)"
  "lagging_server (op_oauth_client lag_operator) oauth_meta (oauth_versions lag_versions)"
  unfolding lag_operator_def lag_versions_def operator.simps object_versions.simps
  by (auto intro!: part_lagging lag.lagging_server_axioms unscoped_versions_put)

lemma lag_views: "view_roles (cached_views av) = (\<lambda>w key. hd (role_versions av w key))"
  "view_configmaps (cached_views av) = (\<lambda>w key. hd (configmap_versions av w key))"
  "view_groups (cached_views av) = (\<lambda>w key. hd (group_versions av w key))"
  "view_machines (cached_views av) = (\<lambda>w key. hd (machine_versions av w key))"
  "view_oauths (cached_views av) = (\<lambda>w key. hd (oauth_versions av w key))"
  "view_proxies (cached_views av) = (\<lambda>w key. hd (proxy_versions av w key))"
  "view_secrets (cached_views av) = (\<lambda>w key. hd (secret_versions av w key))"
  "view_cpms (cached_views av) = (\<lambda>w key. hd (cpms_versions av w key))"
  by (simp_all add: cached_views_def)

lemma lag_tables:
  "object_reader (op_configmap_client lag_operator) (\<lambda>w key. hd (configmap_versions lag_versions w key))"
  "object_reader (op_machine_client lag_operator) (\<lambda>w key. hd (machine_versions lag_versions w key))"
  "object_reader (op_proxy_client lag_operator) (\<lambda>w key. hd (proxy_versions lag_versions w key))"
  "object_reader (op_secret_client lag_operator) (\<lambda>w key. hd (secret_versions lag_versions w key))"
  "object_reader (op_cpms_client lag_operator) (\<lambda>w key. hd (cpms_versions lag_versions w key))"
  unfolding lag_operator_def operator.simps by (fact version.object_reader_axioms)+

lemma lag_named:
  "hd (machine_versions lag_versions w key) = Some machine \<Longrightarrow> key_of (machine_meta machine) = key"
  "hd (group_versions lag_versions w key) \<noteq> None \<Longrightarrow> nn_Namespace key = ''''"
  by (auto simp: lag_versions_def acceptable_machine_def lag_ahead_def unscoped_versions_def
      dest!: acceptable_versions_hd split: if_splits)

interpretation lagging_memory: lagging_cluster lag_operator lag_versions
proof -
  have "read_cluster lag_operator (cached_views lag_versions)"
    unfolding read_cluster_def read_cluster_axioms_def lag_views
    using lag_servers [THEN lagging_readable] lag_tables lag_operator_ok lag_named by blast
  moreover have "lagging_cluster_axioms lag_versions"
    by (simp add: lagging_cluster_axioms_def lag_versions_def lag_ahead_def acceptable_versions_def)
  ultimately show "lagging_cluster lag_operator lag_versions"
    unfolding lagging_cluster_def using lag_servers by blast
qed

lemma lag_oauth_atomic:
  "atomic_lagging_server (op_oauth_client lag_operator) oauth_meta (oauth_versions lag_versions)"
proof -
  have "oauth_versions lag_versions w' = oauth_versions lag_versions w"
    if "Update (op_oauth_client lag_operator) w obj = (Inl e, w')" for w obj e w'
    using that by (auto simp: lag_operator_def lag_versions_def part_client_def lag_client_def Let_def
        split: if_splits prod.splits)
  with lag_servers(3) show ?thesis by (simp add: atomic_lagging_server_def atomic_lagging_server_axioms_def)
qed

end
