(* ===== verification/Lagging_Settling.thy ===== *)
theory Lagging_Settling
  imports Lagging_Queue Queue_Settling
begin

section \<open>The queues settle behind caches that lag\<close>

text \<open>
  With caches that lag the operator has a new way to be busy: an update based on an outdated version is
  rejected, the request is put back and can fail again until the cache has caught up. This is the
  only way. Every other step of work brings one of three numbers down: the objects on the server that still need a
  finalizer put on or taken off, the versions that the caches have not seen, and the backlog of the queue. So the
  operator is kept busy for ever only by a cache that stays behind for ever.
\<close>

subsection \<open>Caches catching up\<close>

fun same_versions :: "('w, 'cm) object_versions \<Rightarrow> 'w \<Rightarrow> 'w \<Rightarrow> object_kind \<Rightarrow> NamespacedName \<Rightarrow> bool" where
  "same_versions av w w' ClusterRole_K key \<longleftrightarrow> role_versions av w' key = role_versions av w key"
| "same_versions av w w' ConfigMap_K key \<longleftrightarrow> configmap_versions av w' key = configmap_versions av w key"
| "same_versions av w w' Group_K key \<longleftrightarrow> group_versions av w' key = group_versions av w key"
| "same_versions av w w' Machine_K key \<longleftrightarrow> machine_versions av w' key = machine_versions av w key"
| "same_versions av w w' OAuth_K key \<longleftrightarrow> oauth_versions av w' key = oauth_versions av w key"
| "same_versions av w w' Proxy_K key \<longleftrightarrow> proxy_versions av w' key = proxy_versions av w key"
| "same_versions av w w' Secret_K key \<longleftrightarrow> secret_versions av w' key = secret_versions av w key"
| "same_versions av w w' ControlPlaneMachineSet_K key \<longleftrightarrow> cpms_versions av w' key = cpms_versions av w key"
| "same_versions av w w' ClusterVersion_K key \<longleftrightarrow> True"
| "same_versions av w w' Event_K key \<longleftrightarrow> True"

text \<open>The cache of an object moves on by one version.\<close>

definition one_seen :: "'o list \<Rightarrow> 'o list \<Rightarrow> bool" where
  "one_seen xs ys \<longleftrightarrow> ys = tl xs \<and> ys \<noteq> []"

fun next_seen :: "('w, 'cm) object_versions \<Rightarrow> 'w \<Rightarrow> 'w \<Rightarrow> object_kind \<Rightarrow> NamespacedName \<Rightarrow> bool" where
  "next_seen av w w' ClusterRole_K key \<longleftrightarrow> one_seen (role_versions av w key) (role_versions av w' key)"
| "next_seen av w w' ConfigMap_K key \<longleftrightarrow> one_seen (configmap_versions av w key) (configmap_versions av w' key)"
| "next_seen av w w' Group_K key \<longleftrightarrow> one_seen (group_versions av w key) (group_versions av w' key)"
| "next_seen av w w' Machine_K key \<longleftrightarrow> one_seen (machine_versions av w key) (machine_versions av w' key)"
| "next_seen av w w' OAuth_K key \<longleftrightarrow> one_seen (oauth_versions av w key) (oauth_versions av w' key)"
| "next_seen av w w' Proxy_K key \<longleftrightarrow> one_seen (proxy_versions av w key) (proxy_versions av w' key)"
| "next_seen av w w' Secret_K key \<longleftrightarrow> one_seen (secret_versions av w key) (secret_versions av w' key)"
| "next_seen av w w' ControlPlaneMachineSet_K key \<longleftrightarrow> one_seen (cpms_versions av w key) (cpms_versions av w' key)"
| "next_seen av w w' ClusterVersion_K key \<longleftrightarrow> False"
| "next_seen av w w' Event_K key \<longleftrightarrow> False"

definition catches_up :: "('w, 'cm) object_versions \<Rightarrow> 'w \<Rightarrow> 'w \<Rightarrow> object_kind \<Rightarrow> NamespacedName \<Rightarrow> bool" where
  "catches_up av w w' kind key \<longleftrightarrow> next_seen av w w' kind key
     \<and> (\<forall>kind' key'. (kind', key') \<noteq> (kind, key) \<longrightarrow> same_versions av w w' kind' key')"

definition outdated :: "('w, 'cm) object_versions \<Rightarrow> 'w \<Rightarrow> (object_kind \<times> NamespacedName) set" where
  "outdated av w = {(kind, key). behind_by av w kind key > 0}"

definition unseen :: "('w, 'cm) object_versions \<Rightarrow> 'w \<Rightarrow> nat" where
  "unseen av w = (\<Sum>(kind, key) \<in> outdated av w. behind_by av w kind key)"

lemma outdated_here: "behind_by av w kind key > 0 \<Longrightarrow> outdated av w \<noteq> {}"
  by (auto simp: outdated_def)

lemma one_seenE:
  assumes "one_seen xs ys" obtains x y zs where "xs = x # y # zs" "ys = y # zs"
  using assms by (cases xs; cases "tl xs") (auto simp: one_seen_def)

lemma one_seen_moves: "one_seen xs ys \<Longrightarrow> moves_on True xs ys"
  unfolding moves_on_def by (erule one_seenE) (rule exI [of _ "[]"], rule exI [of _ 1], simp)

lemma one_seen_facts:
  "one_seen xs ys \<Longrightarrow> last ys = last xs" "one_seen xs ys \<Longrightarrow> length ys - Suc 0 < length xs - Suc 0"
  by (auto elim: one_seenE)

lemma next_seen_facts:
  assumes "next_seen av w w' kind key"
  shows "version_moves av w w' True kind key" "same_object (server_views av) w w' kind key"
    "behind_by av w' kind key < behind_by av w kind key"
  using assms by (cases kind; simp add: one_seen_moves one_seen_facts server_views_def)+

lemma same_versions_facts:
  assumes "same_versions av w w' kind key"
  shows "same_object (server_views av) w w' kind key" "same_object (cached_views av) w w' kind key"
    "behind_by av w' kind key = behind_by av w kind key"
  using assms by (cases kind; simp add: server_views_def cached_views_def)+

lemma catches_up_server: "catches_up av w w' kind key \<Longrightarrow> same_object (server_views av) w w' kind' key'"
  using next_seen_facts(2) same_versions_facts(1) unfolding catches_up_def by fastforce

lemma same_server_due:
  assumes "\<And>kind key. same_object vs w w' kind key" shows "due vs w' = due vs w"
proof -
  have "view_roles vs w' = view_roles vs w" "view_groups vs w' = view_groups vs w" "view_oauths vs w' = view_oauths vs w"
    using assms [of ClusterRole_K] assms [of Group_K] assms [of OAuth_K] by auto
  then show ?thesis by (simp add: due_def)
qed

lemma catches_up_unseen:
  assumes "catches_up av w w' kind key" and fin: "finite (outdated av w)"
  shows "unseen av w' < unseen av w"
proof -
  let ?b = "\<lambda>w. \<lambda>(kind, key). behind_by av w kind key"
  have less: "?b w' (kind, key) < ?b w (kind, key)" using assms(1) next_seen_facts(3) by (fastforce simp: catches_up_def)
  have same: "?b w' x = ?b w x" if "x \<noteq> (kind, key)" for x
    using assms(1) same_versions_facts(3) that by (fastforce simp: catches_up_def split: prod.splits)
  have le: "?b w' x \<le> ?b w x" for x using less same [of x] by (cases "x = (kind, key)") auto
  have sub: "outdated av w' \<subseteq> outdated av w"
    using le by (auto simp: outdated_def split: prod.splits intro: less_le_trans)
  have "unseen av w' = sum (?b w') (outdated av w')" by (simp add: unseen_def)
  also have "\<dots> = sum (?b w') (outdated av w)"
    by (rule sum.mono_neutral_left [OF fin sub]) (auto simp: outdated_def)
  also have "\<dots> < sum (?b w) (outdated av w)"
    by (rule sum_strict_mono_ex1 [OF fin]) (intro ballI le, rule bexI [where x = "(kind, key)"], use less in \<open>simp_all add: outdated_def\<close>)
  finally show ?thesis by (simp add: unseen_def)
qed

subsection \<open>Steps of work\<close>

text \<open>
  An event arrives, a request is answered, or the cache of one object moves on by one version, with
  its event; the cluster obliges all the time.
\<close>

definition lag_works :: "('w, 'g, 'cm, 'e) operator \<Rightarrow> ('w, 'cm) object_versions \<Rightarrow> ('w \<Rightarrow> bool)
    \<Rightarrow> (controller \<times> registration) list \<Rightarrow> ('w, 'g) queue_state \<Rightarrow> ('w, 'g) queue_state \<Rightarrow> bool" where
  "lag_works oper av good regs s s' \<longleftrightarrow> good (cluster s')
     \<and> (lag_queue_step oper av regs Delivers s s'
        \<or> (\<exists>c req. lag_queue_step oper av regs (Answers c req) s s') \<and> in_flight s' = in_flight s
        \<or> lag_queue_step oper av regs Changes s s'
          \<and> (\<exists>kind key evt. catches_up av (cluster s) (cluster s') kind key \<and> in_flight s' = in_flight s @ [(kind, evt)]))"

text \<open>The one kind of step that leads nowhere: an answer based on an outdated version.\<close>

definition conflict :: "('w, 'cm) object_versions \<Rightarrow> ('w, 'g) queue_state \<Rightarrow> ('w, 'g) queue_state \<Rightarrow> bool" where
  "conflict av s s' \<longleftrightarrow> cluster s' = cluster s \<and> in_flight s' = in_flight s \<and> pending s' = pending s
     \<and> outdated av (cluster s) \<noteq> {}"

definition lag_work_left :: "('w, 'cm) object_versions \<Rightarrow> (controller \<times> registration) list
    \<Rightarrow> (('w, 'g) queue_state \<times> ('w, 'g) queue_state) set" where
  "lag_work_left av regs =
     measures [\<lambda>s. due (server_views av) (cluster s), \<lambda>s. unseen av (cluster s), backlog regs]"

lemma wf_lag_work_left: "wf (lag_work_left av regs)"
  by (simp add: lag_work_left_def)

lemma conflict_same_work:
  "conflict av s s' \<Longrightarrow> (x, s') \<in> lag_work_left av regs \<longleftrightarrow> (x, s) \<in> lag_work_left av regs"
  by (simp add: lag_work_left_def conflict_def backlog_def)


subsection \<open>Clusters that oblige, behind caches\<close>

text \<open>An accepted write of an object that needed it.\<close>

context lagging_server
begin

lemma write_settles:
  assumes get: "Get k w key = Inr old" and key: "key_of (meta sent) = key" and upd: "Update k w sent = (Inr obj', w')"
    and "d old" and off: "\<And>obj. meta obj = meta sent \<Longrightarrow> \<not> d obj" and "finite (dom (\<lambda>key. last (ahead w key)))"
  shows "card (due_in d (\<lambda>key. last (ahead w' key))) < card (due_in d (\<lambda>key. last (ahead w key)))"
    and "moves_on told (ahead w key') (ahead w' key')"
proof -
  note acc = accepted [OF get key upd]
  then have view: "(\<lambda>key. last (ahead w' key)) = (\<lambda>key. last (ahead w key))(key := next_version meta sent obj')"
    by (auto simp: fun_eq_iff)
  show "card (due_in d (\<lambda>key. last (ahead w' key))) < card (due_in d (\<lambda>key. last (ahead w key)))"
    unfolding view
    by (rule card_due_put [OF assms(6), where obj = old and d = d])
      (use acc assms(4) off in \<open>auto simp: next_version_def\<close>)
  show "moves_on told (ahead w key') (ahead w' key')"
    using acc versions_exist by (cases "key' = key") (auto intro: moves_on_add)
qed

end

locale obliging_lagging_cluster = obliging_reads oper "cached_views av" good + lagging_cluster oper av
  for oper :: "('w, 'g, 'cm, 'e) operator" and av :: "('w, 'cm) object_versions" and good :: "'w \<Rightarrow> bool" +
  assumes role_write: "good w \<Longrightarrow> Get (op_role_client oper) w key = Inr old_role \<Longrightarrow> key_of (role_meta role) = key \<Longrightarrow>
      (\<exists>e. Update (op_role_client oper) w role = (Inl e, w) \<and> behind_by av w ClusterRole_K key > 0)
      \<or> (\<exists>role' w'. Update (op_role_client oper) w role = (Inr role', w') \<and> good w'
          \<and> (\<forall>kind key. kind \<noteq> ClusterRole_K \<longrightarrow> same_versions av w w' kind key))"
    and group_write: "good w \<Longrightarrow> Get (op_group_client oper) w key = Inr old_group \<Longrightarrow> key_of (group_meta g) = key \<Longrightarrow>
      (\<exists>e. Update (op_group_client oper) w g = (Inl e, w) \<and> behind_by av w Group_K key > 0)
      \<or> (\<exists>g' w'. Update (op_group_client oper) w g = (Inr g', w') \<and> good w'
          \<and> (\<forall>kind key. kind \<noteq> Group_K \<longrightarrow> same_versions av w w' kind key))"
    and oauth_write: "good w \<Longrightarrow> Get (op_oauth_client oper) w key = Inr old_oauth \<Longrightarrow> key_of (oauth_meta obj) = key \<Longrightarrow>
      (\<exists>e. Update (op_oauth_client oper) w obj = (Inl e, w) \<and> behind_by av w OAuth_K key > 0)
      \<or> (\<exists>obj' w'. Update (op_oauth_client oper) w obj = (Inr obj', w') \<and> good w'
          \<and> (\<forall>kind key. kind \<noteq> OAuth_K \<longrightarrow> same_versions av w w' kind key))"
    and finitely_many: "good w \<Longrightarrow> finite (dom (view_roles (server_views av) w))"
      "good w \<Longrightarrow> finite (dom (view_groups (server_views av) w))"
      "good w \<Longrightarrow> finite (dom (view_oauths (server_views av) w))"
    and finite_outdated: "good w \<Longrightarrow> finite (outdated av w)"
    and caches_follow: "good w \<Longrightarrow> behind_by av w kind key > 0 \<Longrightarrow> \<exists>w'. good w' \<and> catches_up av w w' kind key"
begin

lemma same_versions_move: "same_versions av w w' kind key \<Longrightarrow> version_moves av w w' told kind key"
  by (cases kind) (simp_all add: versions_there)

text \<open>What a reconcile does: it fails on an outdated version, or it finishes, with a write that was due or none.\<close>

definition finishes :: "'w \<Rightarrow> 'e outcome \<Rightarrow> 'w \<Rightarrow> bool" where
  "finishes w out w' \<longleftrightarrow>
     (asks_again out \<and> w' = w \<and> outdated av w \<noteq> {})
     \<or> (\<not> asks_again out \<and> good w' \<and> (w' = w \<or> due (server_views av) w' < due (server_views av) w)
        \<and> (\<forall>kind key. version_moves av w w' False kind key))"

lemma no_write: "good w \<Longrightarrow> \<not> asks_again out \<Longrightarrow> finishes w out w"
proof -
  assume "good w" "\<not> asks_again out"
  moreover have "version_moves av w w False kind key" for kind key
    by (rule same_versions_move) (cases kind; simp)
  ultimately show ?thesis by (simp add: finishes_def)
qed

lemma refused_write: "outdated av w \<noteq> {} \<Longrightarrow> asks_again out \<Longrightarrow> finishes w out w"
  by (simp add: finishes_def)

lemma server_views_simps: "view_roles (server_views av) w = (\<lambda>key. last (role_versions av w key))"
  "view_groups (server_views av) w = (\<lambda>key. last (group_versions av w key))"
  "view_oauths (server_views av) w = (\<lambda>key. last (oauth_versions av w key))"
  by (simp_all add: server_views_def)

text \<open>A write is refused because the version was outdated, or it is accepted.\<close>

lemma written:
  assumes "(\<exists>e. upd = (Inl e, w) \<and> behind_by av w K key > 0)
      \<or> (\<exists>obj w'. upd = (Inr obj, w') \<and> good w' \<and> (\<forall>kind key. kind \<noteq> K \<longrightarrow> same_versions av w w' kind key))"
    and "\<And>obj w'. upd = (Inr obj, w') \<Longrightarrow> \<forall>kind key. kind \<noteq> K \<longrightarrow> same_versions av w w' kind key \<Longrightarrow>
      due (server_views av) w' < due (server_views av) w"
    and "\<And>obj w' key. upd = (Inr obj, w') \<Longrightarrow> \<forall>kind key. kind \<noteq> K \<longrightarrow> same_versions av w w' kind key \<Longrightarrow>
      version_moves av w w' False K key"
  shows "(\<exists>e. upd = (Inl e, w) \<and> finishes w (Returned empty_Result (Some (LibError e))) w)
    \<or> (\<exists>obj w'. upd = (Inr obj, w') \<and> finishes w (Returned empty_Result None) w')"
  using assms(1)
proof (elim disjE exE conjE)
  fix obj w' assume upd: "upd = (Inr obj, w')" and "good w'"
    and same: "\<forall>kind key. kind \<noteq> K \<longrightarrow> same_versions av w w' kind key"
  have "version_moves av w w' False kind key'" for kind key'
    using assms(3) [OF upd same] same_versions_move same by (cases "kind = K") auto
  with assms(2) [OF upd same] upd \<open>good w'\<close> show ?thesis by (auto simp: finishes_def)
qed (use refused_write [OF outdated_here] in auto)

lemma role_written:
  assumes good: "good w" and get: "Get (op_role_client oper) w req = Inr obj" and due: "role_due obj"
    and off: "clusterrole_finalizer \<notin> set fs"
  shows "(\<exists>e. Update (op_role_client oper) w (set_role_finalizers fs obj) = (Inl e, w) \<and> finishes w (Returned empty_Result (Some (LibError e))) w)
    \<or> (\<exists>obj' w'. Update (op_role_client oper) w (set_role_finalizers fs obj) = (Inr obj', w')
        \<and> finishes w (Returned empty_Result None) w')"
proof -
  let ?sent = "set_role_finalizers fs obj"
  have key: "key_of (role_meta ?sent) = req" using roles.cached_key [OF get] by simp
  show ?thesis
  proof (rule written [OF role_write [OF good get key]])
    fix obj' w' assume upd: "Update (op_role_client oper) w ?sent = (Inr obj', w')"
      and same: "\<forall>kind key. kind \<noteq> ClusterRole_K \<longrightarrow> same_versions av w w' kind key"
    have "\<not> role_due x" if "role_meta x = role_meta ?sent" for x using that off by (auto simp: role_due_def)
    note moved = roles.write_settles [OF get key upd, of role_due, OF due this
        finitely_many(1) [OF good, unfolded server_views_simps]]
    have "view_groups (server_views av) w' = view_groups (server_views av) w"
      "view_oauths (server_views av) w' = view_oauths (server_views av) w"
      using same by (auto simp: server_views_simps)
    then show "due (server_views av) w' < due (server_views av) w" using moved(1) by (simp add: due_def server_views_simps)
    show "version_moves av w w' False ClusterRole_K key'" for key' using moved(2) by simp
  qed
qed

lemma group_written:
  assumes good: "good w" and get: "Get (op_group_client oper) w req = Inr obj" and due: "group_due obj"
    and off: "IsZero (m_DeletionTimestamp (group_meta obj)) \<longleftrightarrow> group_finalizer \<in> set fs"
  shows "(\<exists>e. Update (op_group_client oper) w (set_group_finalizers fs obj) = (Inl e, w) \<and> finishes w (Returned empty_Result (Some (LibError e))) w)
    \<or> (\<exists>obj' w'. Update (op_group_client oper) w (set_group_finalizers fs obj) = (Inr obj', w')
        \<and> finishes w (Returned empty_Result None) w')"
proof -
  let ?sent = "set_group_finalizers fs obj"
  have key: "key_of (group_meta ?sent) = req" using groups.cached_key [OF get] by simp
  show ?thesis
  proof (rule written [OF group_write [OF good get key]])
    fix obj' w' assume upd: "Update (op_group_client oper) w ?sent = (Inr obj', w')"
      and same: "\<forall>kind key. kind \<noteq> Group_K \<longrightarrow> same_versions av w w' kind key"
    have "\<not> group_due x" if "group_meta x = group_meta ?sent" for x using that off by (auto simp: group_due_def)
    note moved = groups.write_settles [OF get key upd, of group_due, OF due this
        finitely_many(2) [OF good, unfolded server_views_simps]]
    have "view_roles (server_views av) w' = view_roles (server_views av) w"
      "view_oauths (server_views av) w' = view_oauths (server_views av) w"
      using same by (auto simp: server_views_simps)
    then show "due (server_views av) w' < due (server_views av) w" using moved(1) by (simp add: due_def server_views_simps)
    show "version_moves av w w' False Group_K key'" for key' using moved(2) by simp
  qed
qed

lemma oauth_written:
  assumes good: "good w" and get: "Get (op_oauth_client oper) w req = Inr obj" and due: "oauth_due obj"
    and off: "IsZero (m_DeletionTimestamp (oauth_meta obj)) \<longleftrightarrow> oauth_finalizer \<in> set fs"
  shows "(\<exists>e. Update (op_oauth_client oper) w (set_oauth_finalizers fs obj) = (Inl e, w) \<and> finishes w (Returned empty_Result (Some (LibError e))) w)
    \<or> (\<exists>obj' w'. Update (op_oauth_client oper) w (set_oauth_finalizers fs obj) = (Inr obj', w')
        \<and> finishes w (Returned empty_Result None) w')"
proof -
  let ?sent = "set_oauth_finalizers fs obj"
  have key: "key_of (oauth_meta ?sent) = req" using oauths.cached_key [OF get] by simp
  show ?thesis
  proof (rule written [OF oauth_write [OF good get key]])
    fix obj' w' assume upd: "Update (op_oauth_client oper) w ?sent = (Inr obj', w')"
      and same: "\<forall>kind key. kind \<noteq> OAuth_K \<longrightarrow> same_versions av w w' kind key"
    have "\<not> oauth_due x" if "oauth_meta x = oauth_meta ?sent" for x using that off by (auto simp: oauth_due_def)
    note moved = oauths.write_settles [OF get key upd, of oauth_due, OF due this
        finitely_many(3) [OF good, unfolded server_views_simps]]
    have "view_roles (server_views av) w' = view_roles (server_views av) w"
      "view_groups (server_views av) w' = view_groups (server_views av) w"
      using same by (auto simp: server_views_simps)
    then show "due (server_views av) w' < due (server_views av) w" using moved(1) by (simp add: due_def server_views_simps)
    show "version_moves av w w' False OAuth_K key'" for key' using moved(2) by simp
  qed
qed

end


context obliging_lagging_cluster
begin

lemma role_finishes:
  assumes good: "good w" and run: "ClusterRoleReconcile (op_role_client oper) req w = (out, w')"
    and name: "nn_Name req = clusterAdminName"
  shows "finishes w out w'"
proof (cases "Get (op_role_client oper) w req")
  case (Inl err)
  then show ?thesis using run good reads_answered(1) by (auto simp: ClusterRoleReconcile_def no_write)
next
  case (Inr role)
  have "m_Name (role_meta role) = clusterAdminName" using roles.cached_key [OF Inr] name by (auto simp: key_of_def)
  then show ?thesis
    using run Inr good role_written [OF good Inr, of "RemoveFinalizer (op_role_client oper) (m_Finalizers (role_meta role))
        clusterrole_finalizer"]
    by (auto simp: ClusterRoleReconcile_def role_due_def roles.removes_finalizer no_write
        split: if_splits)
qed

lemma group_finishes:
  assumes good: "good w" and wf: "agg_wf (op_gauges oper) a"
    and run: "GroupReconcile (op_group_client oper) (op_gauges oper) (op_clusterId oper) req w a = (out, w', a')"
  shows "finishes w out w'"
proof (cases "Get (op_group_client oper) w req")
  case (Inl err)
  then show ?thesis using run good reads_answered(3) by (auto simp: GroupReconcile_def no_write)
next
  case (Inr g)
  have "\<exists>a'. SetClusterAdmin (op_gauges oper) (op_clusterId oper) b a = Ok a'" for b
    using group_flag_call [OF laws(1,2) wf] by metis
  then obtain A where A: "SetClusterAdmin (op_gauges oper) (op_clusterId oper) b a = Ok (A b)" for b by metis
  show ?thesis
    using run Inr good
      group_written [OF good Inr, of "AddFinalizer (op_group_client oper) (m_Finalizers (group_meta g)) group_finalizer"]
      group_written [OF good Inr, of "RemoveFinalizer (op_group_client oper) (m_Finalizers (group_meta g)) group_finalizer"]
    by (auto simp: GroupReconcile_def A group_due_def groups.adds_finalizer groups.removes_finalizer no_write
        split: if_splits)
qed

lemma oauth_finishes:
  assumes good: "good w" and run: "OAuthReconcile (op_oauth_client oper) req w a = (out, w', a')"
  shows "finishes w out w'"
proof (cases "Get (op_oauth_client oper) w req")
  case (Inl err)
  then show ?thesis using run good reads_answered(5) by (auto simp: OAuthReconcile_def no_write)
next
  case (Inr obj)
  show ?thesis
    using run Inr good
      oauth_written [OF good Inr, of "AddFinalizer (op_oauth_client oper) (m_Finalizers (oauth_meta obj)) oauth_finalizer"]
      oauth_written [OF good Inr, of "RemoveFinalizer (op_oauth_client oper) (m_Finalizers (oauth_meta obj)) oauth_finalizer"]
    by (auto simp: OAuthReconcile_def oauth_due_def oauths.adds_finalizer oauths.removes_finalizer no_write
        split: if_splits)
qed

lemma answer_finishes:
  assumes good: "good w" and wf: "agg_wf (op_gauges oper) a"
    and run: "Reconcile oper now c req w a = (out, w', a')" and req: "concerns (op_network_operator oper) c req"
  shows "finishes w out w'"
proof (cases c)
  case ClusterRole_C
  then show ?thesis using run req role_finishes [OF good] by (auto split: prod.splits)
next
  case Group_C
  then show ?thesis using run group_finishes [OF good wf] by simp
next
  case OAuth_C
  then show ?thesis using run oauth_finishes [OF good] by simp
qed (use reader_settles [OF good wf run] no_write [OF good] in auto)

end


subsection \<open>Working until the caches have caught up\<close>

lemma caught_up_outdated: "caught_up av w \<longleftrightarrow> outdated av w = {}"
  by (auto simp: caught_up_def outdated_def)

context obliging_lagging_cluster
begin

lemma lag_works_progress:
  assumes step: "lag_works oper av good regs s s'" and reach: "lag_queue_reachable oper av regs s"
    and regs: "proper_registrations (op_network_operator oper) regs" and good: "good (cluster s)"
  shows "lag_queue_reachable oper av regs s' \<and> good (cluster s')
    \<and> ((s', s) \<in> lag_work_left av regs \<or> conflict av s s')"
proof -
  note cached = lag_queue_reachable_cached [OF reach]
  have fin: "finite (pending s)" by (rule queue_finite [OF cached])
  have wf: "agg_wf (op_gauges oper) (collector s)"
    using reachable_invariant [OF queue_reachable_system [OF cached] oper_ok] by simp
  have good': "good (cluster s')" using step by (simp add: lag_works_def)
  from step have reach': "lag_queue_reachable oper av regs s'"
    using reach unfolding lag_works_def by (blast intro: lag_moved)
  from step consider "queue_step oper (cached_views av) regs Delivers s s'"
    | c req where "queue_step oper (cached_views av) regs (Answers c req) s s'" "in_flight s' = in_flight s"
    | kind key where "catches_up av (cluster s) (cluster s') kind key"
    unfolding lag_works_def lag_queue_step_def by blast
  then have "(s', s) \<in> lag_work_left av regs \<or> conflict av s s'"
  proof cases
    case 1
    then show ?thesis
    proof cases
      case (delivers pre kind evt post)
      have "card (pending s') \<le> card (pending s) + length regs"
        using card_Un_le [of "pending s" "requests_for regs kind evt"] card_requests [of regs kind evt] delivers(1)
        by simp
      then show ?thesis using delivers by (simp add: lag_work_left_def backlog_def)
    qed
  next
    case (2 c req)
    from this(1) show ?thesis
    proof cases
      case (answers now out w' a' evs)
      have "concerns (op_network_operator oper) c req"
        using lag_invariant [OF reach regs] answers(2) by (auto simp: nothing_lost_def)
      from answer_finishes [OF good wf answers(3) this]
      have "asks_again out \<and> w' = cluster s \<and> outdated av (cluster s) \<noteq> {}
          \<or> \<not> asks_again out \<and> (w' = cluster s \<or> due (server_views av) w' < due (server_views av) (cluster s))"
        by (auto simp: finishes_def)
      moreover have "card (pending s - {(c, req)}) < card (pending s)" by (rule card_Diff1_less [OF fin answers(2)])
      ultimately show ?thesis
        using answers 2(2) by (auto simp: lag_work_left_def backlog_def conflict_def)
    qed
  next
    case (3 kind key)
    then have "due (server_views av) (cluster s') = due (server_views av) (cluster s)"
      by (intro same_server_due catches_up_server)
    with catches_up_unseen [OF 3 finite_outdated [OF good]] show ?thesis by (simp add: lag_work_left_def)
  qed
  with reach' good' show ?thesis by blast
qed

text \<open>Whatever there is to do can be done.\<close>

lemma cache_can_follow:
  assumes good: "good (cluster s)" and "behind_by av (cluster s) kind key > 0"
  shows "\<exists>s'. lag_works oper av good regs s s' \<and> \<not> conflict av s s'"
proof -
  obtain w' where w': "good w'" "catches_up av (cluster s) w' kind key" using caches_follow [OF assms] by blast
  let ?evt = "GenericEvent \<lparr>m_Name = nn_Name key, m_Namespace = nn_Namespace key,
    m_Finalizers = [], m_DeletionTimestamp = None\<rparr>"
  let ?s' = "s\<lparr>cluster := w', in_flight := in_flight s @ [(kind, ?evt)]\<rparr>"
  have told: "announced [(kind, ?evt)] kind key" by (simp add: announced_def key_of_def)
  have other: "same_versions av (cluster s) w' kind' key'" if "(kind', key') \<noteq> (kind, key)" for kind' key'
    using w'(2) that by (simp add: catches_up_def)
  have "tells_changes (cached_views av) (cluster s) w' [(kind, ?evt)]"
    unfolding tells_changes_def
  proof (intro allI impI)
    fix kind' key' assume "\<not> same_object (cached_views av) (cluster s) w' kind' key'"
    then have "(kind', key') = (kind, key)" using same_versions_facts(2) [OF other] by blast
    with told show "announced [(kind, ?evt)] kind' key'" by simp
  qed
  then have "queue_step oper (cached_views av) regs Changes s ?s'" by (rule queue_step.changes)
  moreover have "version_moves av (cluster s) w' (announced (in_flight ?s') kind' key') kind' key'" for kind' key'
  proof (cases "(kind', key') = (kind, key)")
    case True
    have "version_moves av (cluster s) w' True kind key"
      by (rule next_seen_facts(1)) (use w'(2) in \<open>simp add: catches_up_def\<close>)
    with True told show ?thesis by simp
  qed (use same_versions_move other in blast)
  ultimately have "lag_queue_step oper av regs Changes s ?s'" by (simp add: lag_queue_step_def)
  then have "lag_works oper av good regs s ?s'" unfolding lag_works_def using w' by auto
  moreover have "\<not> conflict av s ?s'" by (simp add: conflict_def)
  ultimately show ?thesis by blast
qed

lemma lag_busy:
  assumes reach: "lag_queue_reachable oper av regs s" and regs: "proper_registrations (op_network_operator oper) regs"
    and good: "good (cluster s)" and "\<not> (idle s \<and> caught_up av (cluster s))"
  shows "\<exists>s'. lag_works oper av good regs s s' \<and> \<not> conflict av s s'"
proof (cases "outdated av (cluster s) = {}")
  case False
  then obtain kind key where "behind_by av (cluster s) kind key > 0" by (auto simp: outdated_def)
  then show ?thesis by (rule cache_can_follow [OF good])
next
  case True
  then have quiet: "\<not> conflict av s s'" for s' by (simp add: conflict_def)
  have "\<not> idle s" using assms(4) True by (simp add: caught_up_outdated)
  have stays: "version_moves av (cluster s) (cluster s) told kind key" for told kind key
    by (rule same_versions_move) (cases kind; simp)
  show ?thesis
  proof (cases "in_flight s")
    case (Cons x post)
    then obtain kind evt where "in_flight s = [] @ (kind, evt) # post" by (cases x) auto
    from queue_step.delivers [OF this, of oper "cached_views av" regs]
    obtain s' where "queue_step oper (cached_views av) regs Delivers s s'" "cluster s' = cluster s" by fastforce
    then have "lag_works oper av good regs s s'" unfolding lag_works_def lag_queue_step_def using good stays by simp
    with quiet show ?thesis by blast
  next
    case Nil
    with \<open>\<not> idle s\<close> obtain c req where req: "(c, req) \<in> pending s" by (auto simp: idle_def)
    obtain out w' a' where run: "Reconcile oper 0 c req (cluster s) (collector s) = (out, w', a')"
      by (rule prod_cases3)
    have "concerns (op_network_operator oper) c req"
      using lag_invariant [OF reach regs] req by (auto simp: nothing_lost_def)
    moreover have "agg_wf (op_gauges oper) (collector s)"
      using reachable_invariant [OF queue_reachable_system [OF lag_queue_reachable_cached [OF reach]] oper_ok] by simp
    ultimately have "finishes (cluster s) out w'" using answer_finishes [OF good _ run] by blast
    then have w': "good w'" "\<And>kind key. version_moves av (cluster s) w' False kind key"
      using True by (simp_all add: finishes_def)
    then have "tells_changes (cached_views av) (cluster s) w' []" using unmoved(1) by (simp add: tells_changes_def)
    from queue_step.answers [OF req run this, of regs] Nil
    obtain s' where s': "queue_step oper (cached_views av) regs (Answers c req) s s'" "cluster s' = w'" "in_flight s' = []"
      by fastforce
    then have "lag_works oper av good regs s s'"
      unfolding lag_works_def lag_queue_step_def using w' Nil by (auto simp: announced_def)
    with quiet show ?thesis by blast
  qed
qed


lemma lag_works_keeps:
  assumes "(lag_works oper av good regs)\<^sup>*\<^sup>* s s'" and "lag_queue_reachable oper av regs s"
    and "proper_registrations (op_network_operator oper) regs" and "good (cluster s)"
  shows "lag_queue_reachable oper av regs s' \<and> good (cluster s')"
  using assms by induction (auto dest: lag_works_progress)

lemma lag_works_to_end:
  assumes regs: "proper_registrations (op_network_operator oper) regs"
    and "lag_queue_reachable oper av regs s" and "good (cluster s)"
  shows "\<exists>s'. (lag_works oper av good regs)\<^sup>*\<^sup>* s s' \<and> idle s' \<and> caught_up av (cluster s')"
  using wf_lag_work_left [of av regs] assms(2,3)
proof (induction s rule: wf_induct_rule)
  case (less s)
  show ?case
  proof (cases "idle s \<and> caught_up av (cluster s)")
    case False
    from lag_busy [OF less.prems(1) regs less.prems(2) False]
    obtain s1 where s1: "lag_works oper av good regs s s1" "\<not> conflict av s s1" by blast
    from lag_works_progress [OF s1(1) less.prems(1) regs less.prems(2)] s1(2) less.IH
    obtain s' where "(lag_works oper av good regs)\<^sup>*\<^sup>* s1 s'" "idle s'" "caught_up av (cluster s')" by blast
    with s1(1) show ?thesis by (meson converse_rtranclp_into_rtranclp)
  qed blast
qed

text \<open>In a run without end nothing but conflicts is left after finitely many steps.\<close>

lemma only_conflicts_left:
  assumes regs: "proper_registrations (op_network_operator oper) regs"
    and "lag_queue_reachable oper av regs (f 0)" and "good (cluster (f 0))"
    and "\<And>n. lag_works oper av good regs (f n) (f (Suc n))"
  shows "\<exists>N. \<forall>n \<ge> N. conflict av (f n) (f (Suc n))"
proof -
  have inv: "lag_queue_reachable oper av regs (f n) \<and> good (cluster (f n))" for n
    by (induction n) (use assms lag_works_progress in blast)+
  have step: "(f (Suc n), f n) \<in> lag_work_left av regs \<or> conflict av (f n) (f (Suc n))" for n
    using lag_works_progress assms(4) inv regs by blast
  have "\<exists>N. \<forall>n \<ge> N. conflict av (f n) (f (Suc n))" if "x = f m" for x m
    using wf_lag_work_left [of av regs] that
  proof (induction x arbitrary: m rule: wf_induct_rule)
    case (less x)
    show ?case
    proof (cases "\<forall>n \<ge> m. conflict av (f n) (f (Suc n))")
      case False
      define n where "n = (LEAST n. n \<ge> m \<and> \<not> conflict av (f n) (f (Suc n)))"
      have n: "n \<ge> m" "\<not> conflict av (f n) (f (Suc n))"
        using LeastI_ex [of "\<lambda>n. n \<ge> m \<and> \<not> conflict av (f n) (f (Suc n))"] False by (auto simp: n_def)
      have before: "conflict av (f i) (f (Suc i))" if "m \<le> i" "i < n" for i
        using not_less_Least that unfolding n_def by blast
      have same: "(y, f n) \<in> lag_work_left av regs \<longleftrightarrow> (y, f m) \<in> lag_work_left av regs" for y
      proof -
        have "i \<le> n \<Longrightarrow> (y, f i) \<in> lag_work_left av regs \<longleftrightarrow> (y, f m) \<in> lag_work_left av regs" if "m \<le> i" for i
          using that
        proof (induction i rule: dec_induct)
          case (step i)
          then show ?case using conflict_same_work [OF before [of i]] by simp
        qed simp
        with n(1) show ?thesis by blast
      qed
      then have "(f (Suc n), x) \<in> lag_work_left av regs" using step [of n] n(2) less.prems by blast
      then show ?thesis using less.IH by blast
    qed blast
  qed
  then show ?thesis by blast
qed

end

text \<open>So some cache stays behind for ever.\<close>

lemma behind_for_ever:
  assumes "\<And>n. n \<ge> N \<Longrightarrow> conflict av (f n) (f (Suc n))"
  shows "\<exists>kind key. \<forall>n \<ge> N. behind_by av (cluster (f n)) kind key > 0"
proof -
  have "cluster (f n) = cluster (f N)" if "n \<ge> N" for n
    using that
  proof (induction n rule: dec_induct)
    case (step n)
    then show ?case using assms [of n] by (simp add: conflict_def)
  qed simp
  moreover obtain kind key where "behind_by av (cluster (f N)) kind key > 0"
    using assms [of N] by (auto simp: conflict_def outdated_def)
  ultimately show ?thesis by metis
qed

end
