(* ===== verification/Lagging_Obliges.thy ===== *)
theory Lagging_Obliges
  imports Lagging_Memory Lagging_Settling
begin

section \<open>A cluster in memory that obliges behind its caches\<close>

text \<open>
  The cluster of \<open>Lagging_Memory\<close> meets the contract of \<open>Lagging_Settling\<close> in the worlds whose
  versions the reconcilers can deal with.
\<close>

definition all_versions :: "(NamespacedName \<Rightarrow> 'o \<Rightarrow> bool) \<Rightarrow> (NamespacedName \<Rightarrow> 'o option list) \<Rightarrow> bool" where
  "all_versions P versions \<longleftrightarrow> (\<forall>key obj. Some obj \<in> set (versions key) \<longrightarrow> P key obj)"

definition finitely_present :: "(NamespacedName \<Rightarrow> 'o option list) \<Rightarrow> bool" where
  "finitely_present versions \<longleftrightarrow> finite {key. versions key \<noteq> [None]}"

lemma in_set_tl: "x \<in> set (tl xs) \<Longrightarrow> x \<in> set xs"
  by (cases xs) auto

lemma all_versions_upd:
  "all_versions P versions \<Longrightarrow> \<forall>obj. Some obj \<in> set xs \<longrightarrow> P key obj \<Longrightarrow> all_versions P (versions(key := xs))"
  by (auto simp: all_versions_def)

lemma all_versions_tl: "all_versions P versions \<Longrightarrow> all_versions P (versions(key := tl (versions key)))"
  by (rule all_versions_upd) (auto simp: all_versions_def neq_Nil_conv dest: in_set_tl)

lemma finitely_present_upd: "finitely_present versions \<Longrightarrow> finitely_present (versions(key := xs))"
  unfolding finitely_present_def
  by (rule finite_subset [of _ "insert key {key. versions key \<noteq> [None]}"]) auto

lemma finitely_present_dom: "finitely_present versions \<Longrightarrow> finite (dom (\<lambda>key. last (versions key)))"
  unfolding finitely_present_def by (rule finite_subset [rotated]) auto

lemma finitely_present_outdated: "finitely_present versions \<Longrightarrow> finite {key. Suc 0 < length (versions key)}"
  unfolding finitely_present_def by (rule finite_subset [rotated]) auto

abbreviation (input) "own_key meta \<equiv> (\<lambda>key obj. key_of (meta obj) = key)"

definition lag_good :: "lag_memory \<Rightarrow> bool" where
  "lag_good w \<longleftrightarrow> unscoped_versions w = lm_groups w
     \<and> all_versions (own_key role_meta) (role_versions lag_versions w)
     \<and> all_versions (own_key group_meta) (group_versions lag_versions w)
     \<and> all_versions (own_key oauth_meta) (oauth_versions lag_versions w)
     \<and> all_versions (\<lambda>key m. \<not> is_deleting m) (machine_versions lag_versions w)
     \<and> all_versions (\<lambda>key cm. list_all (\<lambda>c. ValidString (cert_Subject c)) cm) (configmap_versions lag_versions w)
     \<and> all_versions (\<lambda>key obj. case instance_type_of text_decoders obj of Known t \<Rightarrow> True | _ \<Rightarrow> False)
         (cpms_versions lag_versions w)
     \<and> finitely_present (role_versions lag_versions w) \<and> finitely_present (configmap_versions lag_versions w)
     \<and> finitely_present (group_versions lag_versions w) \<and> finitely_present (machine_versions lag_versions w)
     \<and> finitely_present (oauth_versions lag_versions w) \<and> finitely_present (proxy_versions lag_versions w)
     \<and> finitely_present (secret_versions lag_versions w) \<and> finitely_present (cpms_versions lag_versions w)"

subsection \<open>Reads and writes\<close>

lemma lag_client_answers:
  "all_versions (own_key meta) (lag_ahead ws) \<Longrightarrow> Get (lag_client meta) ws key = Inl err \<Longrightarrow> err = Mem_NotFound"
  by (auto simp: lag_client_def all_versions_def lag_ahead_def split: option.splits if_splits)

lemma version_client_answers: "Get (version_client versions) w key = Inl err \<Longrightarrow> err = Mem_NotFound"
  by (auto simp: version_client_def split: option.splits)

text \<open>The server refuses a write exactly if the cache of the object is behind.\<close>

lemma lag_client_write:
  assumes "Get (lag_client meta) ws key = Inr old" and "key_of (meta obj) = key"
  shows "Update (lag_client meta) ws obj = (if snd (ws key) = []
    then (Inr obj, ws(key := (Some old, [next_version meta obj obj]))) else (Inl Mem_Timeout, ws))"
  using assms by (auto simp: lag_client_def Let_def split: option.splits if_splits)

lemma lag_ahead_put: "lag_ahead (ws(key := (Some old, [x]))) = (lag_ahead ws)(key := [Some old, x])"
  by (auto simp: lag_ahead_def fun_eq_iff)

lemma written_versions:
  assumes "Get (lag_client meta) ws key = Inr old" and "key_of (meta obj) = key"
    and "all_versions (own_key meta) (lag_ahead ws)" and "finitely_present (lag_ahead ws)"
  shows "all_versions (own_key meta) ((lag_ahead ws)(key := [Some old, next_version meta obj obj]))"
    and "finitely_present ((lag_ahead ws)(key := [Some old, next_version meta obj obj]))"
proof -
  have "key_of (meta old) = key" using lagging_server.cached_key [OF lag.lagging_server_axioms assms(1)] .
  then show "all_versions (own_key meta) ((lag_ahead ws)(key := [Some old, next_version meta obj obj]))"
    using assms by (intro all_versions_upd) (auto simp: next_version_def split: if_splits)
  show "finitely_present ((lag_ahead ws)(key := [Some old, next_version meta obj obj]))"
    by (rule finitely_present_upd) fact
qed

lemma lag_versions_simps: "role_versions lag_versions w = lag_ahead (lm_roles w)"
  "configmap_versions lag_versions w = lag_ahead (lm_configmaps w)"
  "group_versions lag_versions w = lag_ahead (unscoped_versions w)"
  "machine_versions lag_versions w = acceptable_versions w"
  "oauth_versions lag_versions w = lag_ahead (lm_oauths w)"
  "proxy_versions lag_versions w = lag_ahead (lm_proxies w)"
  "secret_versions lag_versions w = lag_ahead (lm_secrets w)"
  "cpms_versions lag_versions w = lag_ahead (lm_cpms w)"
  by (simp_all add: lag_versions_def)

lemma acceptable_versions_part: "lm_machines w' = lm_machines w \<Longrightarrow> acceptable_versions w' = acceptable_versions w"
  by (rule ext) (simp add: acceptable_versions_def)

lemma unscoped_versions_part: "lm_groups w' = lm_groups w \<Longrightarrow> unscoped_versions w' = unscoped_versions w"
  by (rule ext) (simp add: unscoped_versions_def)

lemma unscoped_elsewhere: "unscoped_versions w = lm_groups w \<Longrightarrow> nn_Namespace key \<noteq> '''' \<Longrightarrow> lm_groups w key = (None, [])"
  by (metis unscoped_versions_def)

lemma unscoped_put_one:
  assumes "unscoped_versions w = lm_groups w" and "nn_Namespace key = ''''"
  shows "unscoped_versions (w\<lparr>lm_groups := (lm_groups w)(key := v)\<rparr>) = (lm_groups w)(key := v)"
proof
  fix x show "unscoped_versions (w\<lparr>lm_groups := (lm_groups w)(key := v)\<rparr>) x = ((lm_groups w)(key := v)) x"
    using unscoped_elsewhere [OF assms(1), of x] assms(2) by (auto simp: unscoped_versions_def)
qed

lemma lag_role_write:
  assumes good: "lag_good w" and get: "Get (op_role_client lag_operator) w key = Inr old" and key: "key_of (role_meta obj) = key"
  shows "(\<exists>e. Update (op_role_client lag_operator) w obj = (Inl e, w) \<and> behind_by lag_versions w ClusterRole_K key > 0)
    \<or> (\<exists>obj' w'. Update (op_role_client lag_operator) w obj = (Inr obj', w') \<and> lag_good w'
        \<and> (\<forall>kind key. kind \<noteq> ClusterRole_K \<longrightarrow> same_versions lag_versions w w' kind key))"
proof -
  have u: "unscoped_versions w = lm_groups w" using good by (simp add: lag_good_def)
  have get': "Get (lag_client role_meta) (lm_roles w) key = Inr old" using get u by (simp add: lag_operator_def)
  note upd = lag_client_write [OF get' key]
  let ?w' = "w\<lparr>lm_roles := (lm_roles w)(key := (Some old, [next_version role_meta obj obj]))\<rparr>"
  note parts = lag_versions_simps acceptable_versions_part [of ?w' w] unscoped_versions_part [of ?w' w] u lag_ahead_put
  show ?thesis
  proof (cases "snd (lm_roles w key) = []")
    case True
    have "lag_good ?w'"
      using good written_versions [OF get' key] by (simp add: lag_good_def parts)
    moreover have "same_versions lag_versions w ?w' kind key'" if "kind \<noteq> ClusterRole_K" for kind key'
      using that by (cases kind) (simp_all add: parts)
    ultimately show ?thesis using upd True u by (auto simp: lag_operator_def part_client_def)
  next
    case False
    then show ?thesis using upd u by (simp add: lag_operator_def part_client_def lag_versions_simps lag_ahead_def)
  qed
qed

lemma lag_group_write:
  assumes good: "lag_good w" and get: "Get (op_group_client lag_operator) w key = Inr old" and key: "key_of (group_meta obj) = key"
  shows "(\<exists>e. Update (op_group_client lag_operator) w obj = (Inl e, w) \<and> behind_by lag_versions w Group_K key > 0)
    \<or> (\<exists>obj' w'. Update (op_group_client lag_operator) w obj = (Inr obj', w') \<and> lag_good w'
        \<and> (\<forall>kind key. kind \<noteq> Group_K \<longrightarrow> same_versions lag_versions w w' kind key))"
proof -
  have u: "unscoped_versions w = lm_groups w" using good by (simp add: lag_good_def)
  have get': "Get (lag_client group_meta) (lm_groups w) key = Inr old" using get u by (simp add: lag_operator_def)
  note upd = lag_client_write [OF get' key]
  let ?w' = "w\<lparr>lm_groups := (lm_groups w)(key := (Some old, [next_version group_meta obj obj]))\<rparr>"
  have "nn_Namespace key = ''''"
    by (rule ccontr) (use get' unscoped_elsewhere [OF u, of key] in \<open>simp add: lag_client_def\<close>)
  then have u': "unscoped_versions ?w' = lm_groups ?w'" using unscoped_put_one [OF u] by simp
  note parts = lag_versions_simps acceptable_versions_part [of ?w' w] u lag_ahead_put
  show ?thesis
  proof (cases "snd (lm_groups w key) = []")
    case True
    have "lag_good ?w'"
      using good written_versions [OF get' key] by (simp add: lag_good_def parts u')
    moreover have "same_versions lag_versions w ?w' kind key'" if "kind \<noteq> Group_K" for kind key'
      using that by (cases kind) (simp_all add: parts u')
    ultimately show ?thesis using upd True u by (auto simp: lag_operator_def part_client_def)
  next
    case False
    then show ?thesis using upd u by (simp add: lag_operator_def part_client_def lag_versions_simps lag_ahead_def)
  qed
qed

lemma lag_oauth_write:
  assumes good: "lag_good w" and get: "Get (op_oauth_client lag_operator) w key = Inr old" and key: "key_of (oauth_meta obj) = key"
  shows "(\<exists>e. Update (op_oauth_client lag_operator) w obj = (Inl e, w) \<and> behind_by lag_versions w OAuth_K key > 0)
    \<or> (\<exists>obj' w'. Update (op_oauth_client lag_operator) w obj = (Inr obj', w') \<and> lag_good w'
        \<and> (\<forall>kind key. kind \<noteq> OAuth_K \<longrightarrow> same_versions lag_versions w w' kind key))"
proof -
  have u: "unscoped_versions w = lm_groups w" using good by (simp add: lag_good_def)
  have get': "Get (lag_client oauth_meta) (lm_oauths w) key = Inr old" using get u by (simp add: lag_operator_def)
  note upd = lag_client_write [OF get' key]
  let ?w' = "w\<lparr>lm_oauths := (lm_oauths w)(key := (Some old, [next_version oauth_meta obj obj]))\<rparr>"
  note parts = lag_versions_simps acceptable_versions_part [of ?w' w] unscoped_versions_part [of ?w' w] u lag_ahead_put
  show ?thesis
  proof (cases "snd (lm_oauths w key) = []")
    case True
    have "lag_good ?w'"
      using good written_versions [OF get' key] by (simp add: lag_good_def parts)
    moreover have "same_versions lag_versions w ?w' kind key'" if "kind \<noteq> OAuth_K" for kind key'
      using that by (cases kind) (simp_all add: parts)
    ultimately show ?thesis using upd True u by (auto simp: lag_operator_def part_client_def)
  next
    case False
    then show ?thesis using upd u by (simp add: lag_operator_def part_client_def lag_versions_simps lag_ahead_def)
  qed
qed

subsection \<open>Caches that follow\<close>

definition follow :: "'o lag_world \<Rightarrow> NamespacedName \<Rightarrow> 'o lag_world" where
  "follow ws key = ws(key := (hd (snd (ws key)), tl (snd (ws key))))"

lemma follow_ahead: "snd (ws key) \<noteq> [] \<Longrightarrow> lag_ahead (follow ws key) = (lag_ahead ws)(key := tl (lag_ahead ws key))"
  by (auto simp: lag_ahead_def follow_def fun_eq_iff)

fun follows :: "object_kind \<Rightarrow> NamespacedName \<Rightarrow> lag_memory \<Rightarrow> lag_memory" where
  "follows ClusterRole_K key w = w\<lparr>lm_roles := follow (lm_roles w) key\<rparr>"
| "follows ConfigMap_K key w = w\<lparr>lm_configmaps := follow (lm_configmaps w) key\<rparr>"
| "follows Group_K key w = w\<lparr>lm_groups := follow (lm_groups w) key\<rparr>"
| "follows Machine_K key w = w\<lparr>lm_machines := follow (lm_machines w) key\<rparr>"
| "follows OAuth_K key w = w\<lparr>lm_oauths := follow (lm_oauths w) key\<rparr>"
| "follows Proxy_K key w = w\<lparr>lm_proxies := follow (lm_proxies w) key\<rparr>"
| "follows Secret_K key w = w\<lparr>lm_secrets := follow (lm_secrets w) key\<rparr>"
| "follows ControlPlaneMachineSet_K key w = w\<lparr>lm_cpms := follow (lm_cpms w) key\<rparr>"
| "follows kind key w = w"

text \<open>The versions of the world in which a cache has followed.\<close>

lemma follows_unscoped:
  assumes "unscoped_versions w = lm_groups w"
  shows "unscoped_versions (follows kind key w) = lm_groups (follows kind key w)
    \<or> kind = Group_K \<and> snd (lm_groups w key) = []"
proof (cases "kind = Group_K \<and> nn_Namespace key = ''''")
  case True
  then show ?thesis using unscoped_put_one [OF assms] by (simp add: follow_def)
next
  case False
  have "snd (lm_groups w key) = []" if "nn_Namespace key \<noteq> ''''" using unscoped_elsewhere [OF assms that] by simp
  then show ?thesis using False assms unscoped_versions_part [of "follows kind key w" w] by (cases kind) auto
qed

lemma follow_acceptable:
  assumes "snd (lm_machines w key) \<noteq> []"
  shows "acceptable_versions (w\<lparr>lm_machines := follow (lm_machines w) key\<rparr>) =
    (acceptable_versions w)(key := tl (acceptable_versions w key))"
  by (rule ext) (simp add: acceptable_versions_def follow_ahead [of "lm_machines w", OF assms] map_tl)

lemma lag_follows:
  assumes good: "lag_good w" and behind: "behind_by lag_versions w kind key > 0"
  shows "lag_good (follows kind key w) \<and> catches_up lag_versions w (follows kind key w) kind key"
proof -
  have u: "unscoped_versions w = lm_groups w" using good by (simp add: lag_good_def)
  have u': "unscoped_versions (follows kind key w) = lm_groups (follows kind key w)"
    using follows_unscoped [OF u, of kind key] behind by (auto simp: lag_versions_simps u lag_ahead_def)
  have snd: "kind = ClusterRole_K \<Longrightarrow> snd (lm_roles w key) \<noteq> []" "kind = ConfigMap_K \<Longrightarrow> snd (lm_configmaps w key) \<noteq> []"
    "kind = Group_K \<Longrightarrow> snd (lm_groups w key) \<noteq> []" "kind = Machine_K \<Longrightarrow> snd (lm_machines w key) \<noteq> []"
    "kind = OAuth_K \<Longrightarrow> snd (lm_oauths w key) \<noteq> []" "kind = Proxy_K \<Longrightarrow> snd (lm_proxies w key) \<noteq> []"
    "kind = Secret_K \<Longrightarrow> snd (lm_secrets w key) \<noteq> []"
    "kind = ControlPlaneMachineSet_K \<Longrightarrow> snd (lm_cpms w key) \<noteq> []" "kind \<notin> {ClusterVersion_K, Event_K}"
    using behind by (auto simp: lag_versions_simps u lag_ahead_def acceptable_versions_def)
  note facts = lag_versions_simps u follow_ahead follow_acceptable
  note other = acceptable_versions_part [of "follows kind key w" w]
  have "lag_good (follows kind key w)"
    using good snd u' other
    by (cases kind) (simp_all add: lag_good_def facts all_versions_tl finitely_present_upd)
  moreover have "next_seen lag_versions w (follows kind key w) kind key"
    using snd u' by (cases kind) (simp_all add: facts one_seen_def, simp_all add: lag_ahead_def acceptable_versions_def)
  moreover have "same_versions lag_versions w (follows kind key w) kind' key'" if "(kind', key') \<noteq> (kind, key)" for kind' key'
    using that snd u' other by (cases kind; cases kind') (simp_all add: facts)
  ultimately show ?thesis by (simp add: catches_up_def)
qed

subsection \<open>The contract\<close>

lemma lag_good_reads:
  assumes good: "lag_good w"
  shows "Get (op_role_client lag_operator) w key = Inl err \<Longrightarrow> IsNotFound (op_role_client lag_operator) err"
    "Get (op_configmap_client lag_operator) w key = Inl err \<Longrightarrow> IsNotFound (op_configmap_client lag_operator) err"
    "Get (op_group_client lag_operator) w key = Inl err \<Longrightarrow> IsNotFound (op_group_client lag_operator) err"
    "Get (op_machine_client lag_operator) w key = Inl err \<Longrightarrow> IsNotFound (op_machine_client lag_operator) err"
    "Get (op_oauth_client lag_operator) w key = Inl err \<Longrightarrow> IsNotFound (op_oauth_client lag_operator) err"
    "Get (op_proxy_client lag_operator) w key = Inl err \<Longrightarrow> IsNotFound (op_proxy_client lag_operator) err"
    "Get (op_secret_client lag_operator) w key = Inl err \<Longrightarrow> IsNotFound (op_secret_client lag_operator) err"
    "Get (op_cpms_client lag_operator) w key = Inl err \<Longrightarrow> IsNotFound (op_cpms_client lag_operator) err"
proof -
  have not_found: "IsNotFound (lag_client meta) e \<longleftrightarrow> e = Mem_NotFound" "IsNotFound (version_client v) e \<longleftrightarrow> e = Mem_NotFound"
    for meta e and v by (simp_all add: lag_client_def version_client_def)
  have keyed: "all_versions (own_key role_meta) (lag_ahead (lm_roles w))"
    "all_versions (own_key group_meta) (lag_ahead (unscoped_versions w))"
    "all_versions (own_key oauth_meta) (lag_ahead (lm_oauths w))"
    using good unfolding lag_good_def lag_versions_simps by blast+
  note written = keyed [THEN lag_client_answers]
  show "Get (op_role_client lag_operator) w key = Inl err \<Longrightarrow> IsNotFound (op_role_client lag_operator) err"
    "Get (op_group_client lag_operator) w key = Inl err \<Longrightarrow> IsNotFound (op_group_client lag_operator) err"
    "Get (op_oauth_client lag_operator) w key = Inl err \<Longrightarrow> IsNotFound (op_oauth_client lag_operator) err"
    using written by (simp_all add: lag_operator_def not_found)
  show "Get (op_configmap_client lag_operator) w key = Inl err \<Longrightarrow> IsNotFound (op_configmap_client lag_operator) err"
    "Get (op_machine_client lag_operator) w key = Inl err \<Longrightarrow> IsNotFound (op_machine_client lag_operator) err"
    "Get (op_proxy_client lag_operator) w key = Inl err \<Longrightarrow> IsNotFound (op_proxy_client lag_operator) err"
    "Get (op_secret_client lag_operator) w key = Inl err \<Longrightarrow> IsNotFound (op_secret_client lag_operator) err"
    "Get (op_cpms_client lag_operator) w key = Inl err \<Longrightarrow> IsNotFound (op_cpms_client lag_operator) err"
    by (simp_all add: lag_operator_def not_found version_client_answers)
qed

lemma acceptable_versions_there: "acceptable_versions w key \<noteq> []"
  by (simp add: acceptable_versions_def lag_ahead_def)

text \<open>What holds of all versions holds of those in the caches.\<close>

lemma all_versions_hd:
  "all_versions P versions \<Longrightarrow> versions key \<noteq> [] \<Longrightarrow> hd (versions key) = Some obj \<Longrightarrow> P key obj"
  unfolding all_versions_def by (metis hd_in_set)

interpretation lag_obliges: obliging_lagging_cluster lag_operator lag_versions lag_good
proof
  fix w key machine assume "lag_good w" "view_machines (cached_views lag_versions) w key = Some machine"
  then show "\<not> is_deleting machine"
    using all_versions_hd [OF _ acceptable_versions_there] by (fastforce simp: lag_good_def lag_views lag_versions_simps)
next
  fix w cm err assume "lag_good w"
    "view_configmaps (cached_views lag_versions) w (ca_bundle_key (op_network_operator lag_operator)) = Some cm"
    and fails: "TrustBundleConfigMap (op_network_operator lag_operator) cm
       (TRUSTED_CA_BUNDLE_CONFIGMAP_KEY (op_network_operator lag_operator)) = Inl err"
  then have "list_all (\<lambda>c. ValidString (cert_Subject c)) cm"
    using all_versions_hd [of _ "configmap_versions lag_versions w"]
    by (fastforce simp: lag_good_def lag_views lagging_memory.read_versions)
  with fails show "strings_Contains (Error_text (op_network_operator lag_operator) err) ''failed parsing certificate''"
    by (auto simp: lag_operator_def one_cert_operator_def split: if_splits)
next
  fix w key machine_set assume "lag_good w" "view_cpms (cached_views lag_versions) w key = Some machine_set"
  then have "case instance_type_of text_decoders machine_set of Known t \<Rightarrow> True | _ \<Rightarrow> False"
    using all_versions_hd [of _ "cpms_versions lag_versions w" key]
    by (fastforce simp: lag_good_def lag_views lagging_memory.read_versions)
  then show "\<exists>t. instance_type_of (op_decoders lag_operator) machine_set = Known t"
    by (cases "instance_type_of text_decoders machine_set") (simp_all add: lag_operator_def)
next
  fix w assume good: "lag_good w"
  then show "finite (dom (view_roles (server_views lag_versions) w))" "finite (dom (view_groups (server_views lag_versions) w))"
    "finite (dom (view_oauths (server_views lag_versions) w))"
    by (simp_all add: lag_good_def server_views_def finitely_present_dom)
  have "finite {key. behind_by lag_versions w kind key > 0}" for kind
    using good by (cases kind) (simp_all add: lag_good_def finitely_present_outdated)
  then show "finite (outdated lag_versions w)" unfolding outdated_def by (rule kinds_finite)
  show "\<exists>w'. lag_good w' \<and> catches_up lag_versions w w' kind key" if "behind_by lag_versions w kind key > 0" for kind key
    using lag_follows [OF good that] by blast
qed (fact lag_good_reads lag_role_write lag_group_write lag_oauth_write)+

end
