(* ===== verification/Lagging_Properties.thy ===== *)
theory Lagging_Properties
  imports Lagging_Obliges
begin

section \<open>Properties of the operator behind lagging caches\<close>

text \<open>
  Three results for the whole operator, with the controllers that \<open>main\<close> sets up and caches that lag.
\<close>

text \<open>
  C5: Nothing is missed even if the caches lag. Reads answer from caches that follow the API server
  with any delay, updates go to the server, which rejects them unless they are based on the
  newest version, and the informers announce an object when its cache moves on. At every moment,
  for every object that a metric is about, a request for it waits, or an event that tells of it is on its way,
  or its cache is still behind the server, or the metrics show the object as it is on the server.
\<close>

theorem no_update_missed_behind_caches:
  assumes "lagging_cluster oper av" and "main (op_gauges oper) env = Next p"
    and "Network_operator env = op_network_operator oper"
    and "lag_queue_reachable oper av (registrations_of p) s"
    and "c \<in> set (wanted_controllers env)" and "relevant (op_network_operator oper) c key"
  shows "(c, key) \<in> pending s \<or> announced (in_flight s) (watched c) key
    \<or> behind_by av (cluster s) (watched c) key > 0
    \<or> reflected oper (server_views av) c key (cluster s) (collector s)"
proof -
  have "proper_registrations (op_network_operator oper) (registrations_of p)"
    using main_registrations(1) [OF assms(2)] assms(3) by simp
  from lagging_cluster.lag_invariant [OF assms(1,4) this] assms(5,6)
  have "accounted_or_behind oper av s c key" by (auto simp: nothing_lost_def wanted_registered [OF assms(2)])
  then show ?thesis
    using lagging_cluster.reflected_on_server [OF assms(1), of "cluster s" c key "collector s"]
    by (auto simp: accounted_or_behind_def accounted_def)
qed

text \<open>
  One OAuth object without the finalizer, in the cache and on the server; then with the finalizer
  on the server only; then in both.
\<close>

definition late_world :: "OAuth option \<times> OAuth option list \<Rightarrow> lag_memory" where
  "late_world x = \<lparr>lm_roles = (\<lambda>_. (None, [])), lm_configmaps = (\<lambda>_. (None, [])), lm_groups = (\<lambda>_. (None, [])),
     lm_machines = (\<lambda>_. (None, [])), lm_oauths = (\<lambda>_. (None, []))(oauth_key := x), lm_proxies = (\<lambda>_. (None, [])),
     lm_secrets = (\<lambda>_. (None, [])), lm_cpms = (\<lambda>_. (None, []))\<rparr>"

abbreviation "bare_oauth \<equiv> ldap_oauth [] None"
abbreviation "held_oauth \<equiv> ldap_oauth [oauth_finalizer] None"

lemma late_versions:
  "role_versions lag_versions (late_world x) key = [None]" "configmap_versions lag_versions (late_world x) key = [None]"
  "group_versions lag_versions (late_world x) key = [None]" "machine_versions lag_versions (late_world x) key = [None]"
  "oauth_versions lag_versions (late_world x) key = (if key = oauth_key then fst x # snd x else [None])"
  "proxy_versions lag_versions (late_world x) key = [None]" "secret_versions lag_versions (late_world x) key = [None]"
  "cpms_versions lag_versions (late_world x) key = [None]"
  by (simp_all add: lag_versions_def late_world_def lag_ahead_def unscoped_versions_def acceptable_versions_def)

lemma late_moves:
  "version_moves lag_versions (late_world x) (late_world y) told kind key \<longleftrightarrow>
     (kind = OAuth_K \<and> key = oauth_key \<longrightarrow> moves_on told (fst x # snd x) (fst y # snd y))"
  by (cases kind) (simp_all add: late_versions)

lemma late_same:
  "same_object (cached_views lag_versions) (late_world x) (late_world y) kind key \<longleftrightarrow>
     (kind = OAuth_K \<and> key = oauth_key \<longrightarrow> fst y = fst x)"
  by (cases kind) (auto simp: lag_views late_versions)

lemma late_exists:
  "object_exists (cached_views lag_versions) (late_world x) kind key \<longleftrightarrow> kind = OAuth_K \<and> key = oauth_key \<and> fst x \<noteq> None"
  by (cases kind) (auto simp: lag_views late_versions)

lemma ldap_fields: "m_Finalizers (oauth_meta (ldap_oauth fs d)) = fs" "m_DeletionTimestamp (oauth_meta (ldap_oauth fs d)) = d"
  "set_oauth_finalizers gs (ldap_oauth fs d) = ldap_oauth gs d"
  by (simp_all add: ldap_oauth_def set_oauth_finalizers_def)

lemma late_get:
  "Get (op_oauth_client lag_operator) (late_world (Some (ldap_oauth fs d), xs)) oauth_key = Inr (ldap_oauth fs d)"
  by (simp add: lag_operator_def part_client_def lag_client_def late_world_def)

lemma late_update:
  "Update (op_oauth_client lag_operator) (late_world (Some bare_oauth, [])) held_oauth =
     (Inr held_oauth, late_world (Some bare_oauth, [Some held_oauth]))"
  by (simp add: lag_operator_def part_client_def lag_client_def late_world_def Let_def next_version_def doomed_def ldap_fields)

lemma late_caught_up: "caught_up lag_versions (late_world (x, []))"
proof -
  have "behind_by lag_versions (late_world (x, [])) kind key = 0" for kind key by (cases kind) (simp_all add: late_versions)
  then show ?thesis by (simp add: caught_up_def)
qed


text \<open>Two reconciles: one before the cache knows of the finalizer, whose update the server accepts, one after.\<close>

lemma late_reconciles:
  fixes a :: "map_vec AdoptionMetricsAggregator"
  defines "shown \<equiv> SetOAuthIDP (m_Name (oauth_meta held_oauth)) (m_Namespace (oauth_meta held_oauth))
    (spec_IdentityProviders held_oauth)"
  shows "Reconcile lag_operator now OAuth_C oauth_key (late_world (Some bare_oauth, [])) a =
      (Returned empty_Result None, late_world (Some bare_oauth, [Some held_oauth]), shown a)"
    and "Reconcile lag_operator now OAuth_C oauth_key (late_world (Some held_oauth, [])) a =
      (Returned empty_Result None, late_world (Some held_oauth, []), shown a)"
proof -
  have fs: "AddFinalizer (op_oauth_client lag_operator) [] oauth_finalizer = [oauth_finalizer]"
    by (simp add: lag_operator_def part_client_def lag_client_def)
  show "Reconcile lag_operator now OAuth_C oauth_key (late_world (Some bare_oauth, [])) a =
      (Returned empty_Result None, late_world (Some bare_oauth, [Some held_oauth]), shown a)"
    by (simp add: OAuthReconcile_def late_get ldap_fields IsZero_def fs late_update shown_def)
  show "Reconcile lag_operator now OAuth_C oauth_key (late_world (Some held_oauth, [])) a =
      (Returned empty_Result None, late_world (Some held_oauth, []), shown a)"
    by (simp add: OAuthReconcile_def late_get ldap_fields IsZero_def shown_def)
qed

text \<open>The steps of the run.\<close>

definition late_state :: "OAuth option \<times> OAuth option list \<Rightarrow> 'g AdoptionMetricsAggregator \<Rightarrow> watch_event list
    \<Rightarrow> request set \<Rightarrow> (lag_memory, 'g) queue_state" where
  "late_state x a evts reqs = \<lparr>cluster = late_world x, collector = a,
     in_flight = map (Pair OAuth_K) evts, pending = reqs\<rparr>"

abbreviation "created \<equiv> CreateEvent (oauth_meta bare_oauth)"
abbreviation "updated \<equiv> UpdateEvent (oauth_meta bare_oauth) (oauth_meta held_oauth)"

lemma late_delivers:
  assumes regs: "proper_registrations one_cert_operator regs" "OAuth_C \<in> fst ` set regs" and "key_of (event_object evt) = oauth_key"
  shows "guarded_lag_step lag_operator lag_versions regs (late_state x a [evt] {}) (late_state x a [] {(OAuth_C, oauth_key)})"
proof -
  have "c = OAuth_C" if "watched c = OAuth_K" for c using that by (cases c) simp_all
  then have "requests_for regs OAuth_K evt = {(OAuth_C, oauth_key)}"
    using regs(2) assms(3) by (auto simp: requests_proper [OF regs(1)])
  then have "queue_step lag_operator (cached_views lag_versions) regs Delivers
      (late_state x a [evt] {}) (late_state x a [] {(OAuth_C, oauth_key)})"
    using queue_step.delivers [of "late_state x a [evt] {}" "[]" OAuth_K evt "[]" lag_operator "cached_views lag_versions" regs]
    by (simp add: late_state_def)
  then show ?thesis
    unfolding guarded_lag_step_def lag_queue_step_def
    by (intro exI [of _ Delivers]) (simp add: late_state_def late_moves late_versions others_move_refl)
qed

lemma late_answers:
  assumes "Reconcile lag_operator 0 OAuth_C oauth_key (late_world x) a = (Returned empty_Result None, late_world y, a')"
    and "fst y = fst x" and "\<And>told. moves_on told (fst x # snd x) (fst y # snd y)"
  shows "guarded_lag_step lag_operator lag_versions regs (late_state x a [] {(OAuth_C, oauth_key)}) (late_state y a' [] {})"
proof -
  have "queue_step lag_operator (cached_views lag_versions) regs (Answers OAuth_C oauth_key)
      (late_state x a [] {(OAuth_C, oauth_key)}) (late_state y a' [] {})"
    using queue_step.answers [of OAuth_C oauth_key "late_state x a [] {(OAuth_C, oauth_key)}" lag_operator 0
        "Returned empty_Result None" "late_world y" a' "cached_views lag_versions" "[]" regs] assms(1,2)
    by (simp add: late_state_def tells_changes_def late_same)
  then show ?thesis
    unfolding guarded_lag_step_def lag_queue_step_def
    by (intro exI [of _ "Answers OAuth_C oauth_key"])
      (simp add: late_state_def late_moves late_versions others_move_refl assms(3))
qed

lemma late_catches_up:
  "guarded_lag_step lag_operator lag_versions regs (late_state (Some bare_oauth, [Some held_oauth]) a [] {})
     (late_state (Some held_oauth, []) a [updated] {})"
proof -
  have told: "announced [(OAuth_K, updated)] OAuth_K oauth_key" by (simp add: announced_def)
  have "tells_changes (cached_views lag_versions) (late_world (Some bare_oauth, [Some held_oauth]))
      (late_world (Some held_oauth, [])) [(OAuth_K, updated)]"
    using told by (auto simp: tells_changes_def late_same)
  then have "queue_step lag_operator (cached_views lag_versions) regs Changes
      (late_state (Some bare_oauth, [Some held_oauth]) a [] {}) (late_state (Some held_oauth, []) a [updated] {})"
    using queue_step.changes [of "cached_views lag_versions" "late_state (Some bare_oauth, [Some held_oauth]) a [] {}"
        "late_world (Some held_oauth, [])" "[(OAuth_K, updated)]" lag_operator regs]
    by (simp add: late_state_def)
  moreover have "others_move oauth_meta oauth_finalizer [Some bare_oauth, Some held_oauth] [Some held_oauth]"
    unfolding others_move_def by (rule exI [of _ "[]"], rule exI [of _ 1]) simp
  ultimately show ?thesis
    unfolding guarded_lag_step_def lag_queue_step_def
    by (intro exI [of _ Changes])
      (auto simp: late_state_def late_moves late_versions others_move_refl told moves_on_catch_up)
qed

lemma late_start:
  assumes "NewMetricsAggregator map_api aggregatorResyncInterval ''c1'' = Ok a"
  shows "calm_start lag_operator lag_versions (late_state (Some bare_oauth, []) a [created] {})"
proof -
  have "announced [(OAuth_K, created)] OAuth_K oauth_key" by (simp add: announced_def)
  then have "tells_all (cached_views lag_versions) (late_world (Some bare_oauth, [])) [(OAuth_K, created)]"
    by (auto simp: tells_all_def late_exists)
  moreover have "op_gauges lag_operator = map_api" "op_clusterId lag_operator = ''c1''" by (simp_all add: lag_operator_def)
  ultimately show ?thesis
    using assms by (simp add: calm_start_def queue_start_def late_state_def late_versions)
qed


lemma late_run:
  assumes regs: "proper_registrations one_cert_operator regs" "OAuth_C \<in> fst ` set regs"
    and a: "NewMetricsAggregator map_api aggregatorResyncInterval ''c1'' = Ok a"
  obtains s0 s where "calm_start lag_operator lag_versions s0"
    and "(guarded_lag_step lag_operator lag_versions regs)\<^sup>*\<^sup>* s0 s"
    and "cluster s = late_world (Some held_oauth, [])" and "idle s" and "agg_wf map_api (collector s)"
proof -
  let ?shown = "SetOAuthIDP (m_Name (oauth_meta held_oauth)) (m_Namespace (oauth_meta held_oauth))
    (spec_IdentityProviders held_oauth)"
  let ?step = "guarded_lag_step lag_operator lag_versions regs" and ?bare = "Some bare_oauth" and ?held = "Some held_oauth"
  have first: "?step (late_state (?bare, []) a [created] {}) (late_state (?bare, []) a [] {(OAuth_C, oauth_key)})"
    "?step (late_state (?bare, []) a [] {(OAuth_C, oauth_key)}) (late_state (?bare, [?held]) (?shown a) [] {})"
    by (rule late_delivers [OF regs], simp) (rule late_answers [OF late_reconciles(1)], simp_all add: moves_on_add)
  have second: "?step (late_state (?held, []) (?shown a) [updated] {}) (late_state (?held, []) (?shown a) [] {(OAuth_C, oauth_key)})"
    "?step (late_state (?held, []) (?shown a) [] {(OAuth_C, oauth_key)}) (late_state (?held, []) (?shown (?shown a)) [] {})"
    by (rule late_delivers [OF regs], simp) (rule late_answers [OF late_reconciles(2)], simp_all)
  have run: "?step\<^sup>*\<^sup>* (late_state (?bare, []) a [created] {}) (late_state (?held, []) (?shown (?shown a)) [] {})"
    using first late_catches_up second by (meson r_into_rtranclp rtranclp_trans)
  have "ValidString ''c1''" by (simp add: byte_def)
  from NewMetricsAggregator_ok [OF map_api_gauges this, of aggregatorResyncInterval] a
  have "agg_wf map_api (?shown (?shown a))" by (auto intro: SetOAuthIDP_wf)
  with that [OF late_start [OF a] run] show ?thesis by (simp add: late_state_def idle_def)
qed

lemma late_main:
  obtains p a where "main map_api (good_env True []) = Next p"
    and "proper_registrations one_cert_operator (registrations_of p)" "OAuth_C \<in> fst ` set (registrations_of p)"
    and "NewMetricsAggregator map_api aggregatorResyncInterval ''c1'' = Ok a"
proof -
  have "parse_flags main_flags [] [] = Parsed [] []" by simp
  then obtain p where p: "main map_api (good_env True []) = Next p" by (rule good_main) blast
  have "ValidString ''c1''" by (simp add: byte_def)
  then obtain a where "NewMetricsAggregator map_api aggregatorResyncInterval ''c1'' = Ok a"
    using NewMetricsAggregator_ok [OF map_api_gauges] by blast
  with that [OF p] main_registrations(1) [OF p] wanted_registered [OF p, of OAuth_C] show ?thesis
    by (simp add: good_env_def wanted_controllers_def)
qed

lemma lag_operator_parts: "op_gauges lag_operator = map_api" "op_idp_types lag_operator = api_idp_types"
  "op_clusterId lag_operator = ''c1''" "op_network_operator lag_operator = one_cert_operator"
  by (simp_all add: lag_operator_def)

theorem no_update_missed_behind_caches_witness:
  "\<exists>p s. main map_api (good_env True []) = Next p
    \<and> lag_queue_reachable lag_operator lag_versions (registrations_of p) s \<and> idle s
    \<and> cluster s = late_world (Some held_oauth, [])
    \<and> reflected lag_operator (server_views lag_versions) OAuth_C oauth_key (cluster s) (collector s)"
proof -
  obtain p a where p: "main map_api (good_env True []) = Next p" and regs: "proper_registrations one_cert_operator (registrations_of p)"
      "OAuth_C \<in> fst ` set (registrations_of p)" and a: "NewMetricsAggregator map_api aggregatorResyncInterval ''c1'' = Ok a"
    by (rule late_main)
  obtain s0 s where s: "calm_start lag_operator lag_versions s0"
      "(guarded_lag_step lag_operator lag_versions (registrations_of p))\<^sup>*\<^sup>* s0 s"
      "cluster s = late_world (Some held_oauth, [])" "idle s"
    using late_run [OF regs a] by metis
  have reach: "lag_queue_reachable lag_operator lag_versions (registrations_of p) s"
    using lagging_memory.guarded_lag_run [OF lag_oauth_atomic _ s(2,1)] regs by (simp add: lag_operator_parts)
  have main: "main (op_gauges lag_operator) (good_env True []) = Next p"
    "Network_operator (good_env True []) = op_network_operator lag_operator"
    using p by (simp_all add: lag_operator_parts good_env_def)
  have "OAuth_C \<in> set (wanted_controllers (good_env True []))" by (simp add: wanted_controllers_def)
  from no_update_missed_behind_caches [OF lagging_memory.lagging_cluster_axioms main reach this, of oauth_key]
  have "reflected lag_operator (server_views lag_versions) OAuth_C oauth_key (cluster s) (collector s)"
    using s(4) late_caught_up by (simp add: s(3) idle_def announced_def caught_up_def del: reflected.simps behind_by.simps)
  with p reach s(3,4) show ?thesis by blast
qed

text \<open>
  C6: The counts are those on the server even if the caches lag. Let the operator run from its
  start behind such caches, with updates that are not applied when they return an error, and let nobody
  else take the finalizers of the operator away. Whenever it is idle and its caches have caught
  up, the next round of the aggregation loop exports, for every known type, the number of identity
  providers of this type over all OAuth objects on the server that are not being deleted, and the cluster-admin
  flag says whether the group exists on the server, is not being deleted and has users.
\<close>

theorem idle_counts_exact_behind_caches:
  assumes "lagging_cluster oper av"
    and "atomic_lagging_server (op_oauth_client oper) oauth_meta (oauth_versions av)"
    and "main (op_gauges oper) env = Next p" and "Network_operator env = op_network_operator oper"
    and "calm_start oper av s0" and "(guarded_lag_step oper av (registrations_of p))\<^sup>*\<^sup>* s0 s"
    and "idle s" and "caught_up av (cluster s)"
    and "aggregate (op_gauges oper) (op_idp_types oper) (collector s) = Ok a'"
    and "t \<in> set (knownIdentityProviderTypes (op_idp_types oper))"
  shows "exported (op_gauges oper) a' Identity_Provider [t] =
      Some (float64 (int (idp_total (server_views av) (cluster s) t)))
    \<and> exported (op_gauges oper) a' Cluster_Admin_Enabled [op_clusterId oper] =
        Some (of_bool (\<exists>g. view_groups (server_views av) (cluster s) admin_group_key = Some g
          \<and> IsZero (m_DeletionTimestamp (group_meta g)) \<and> Users g \<noteq> []))"
proof -
  have regs: "proper_registrations (op_network_operator oper) (registrations_of p)"
    "{OAuth_C, Group_C} \<subseteq> fst ` set (registrations_of p)"
    using main_registrations(1) [OF assms(3)] assms(4) wanted_registered [OF assms(3), of OAuth_C] wanted_registered [OF assms(3), of Group_C]
    by (simp_all add: wanted_controllers_def)
  from lagging_cluster.guarded_lag_run [OF assms(1,2) regs(1) assms(6,5)]
  have "lag_queue_reachable oper av (registrations_of p) s" "lag_backed oper av s" by simp_all
  from lagging_cluster.settled_counts [OF assms(1) this regs assms(7-10)] show ?thesis .
qed

theorem idle_counts_exact_behind_caches_witness:
  "\<exists>p s0 s a'. main map_api (good_env True []) = Next p
    \<and> (guarded_lag_step lag_operator lag_versions (registrations_of p))\<^sup>*\<^sup>* s0 s
    \<and> cluster s = late_world (Some held_oauth, [])
    \<and> aggregate map_api api_idp_types (collector s) = Ok a'
    \<and> exported map_api a' Identity_Provider [''LDAP''] = Some 1
    \<and> exported map_api a' Cluster_Admin_Enabled [''c1''] = Some 0"
proof -
  obtain p a where p: "main map_api (good_env True []) = Next p" and regs: "proper_registrations one_cert_operator (registrations_of p)"
      "OAuth_C \<in> fst ` set (registrations_of p)" and a: "NewMetricsAggregator map_api aggregatorResyncInterval ''c1'' = Ok a"
    by (rule late_main)
  obtain s0 s where s: "calm_start lag_operator lag_versions s0"
      "(guarded_lag_step lag_operator lag_versions (registrations_of p))\<^sup>*\<^sup>* s0 s" "idle s"
      "cluster s = late_world (Some held_oauth, [])" "agg_wf map_api (collector s)"
    using late_run [OF regs a] by metis
  have main: "main (op_gauges lag_operator) (good_env True []) = Next p"
    "Network_operator (good_env True []) = op_network_operator lag_operator"
    using p by (simp_all add: lag_operator_parts good_env_def)
  obtain a' where a': "aggregate map_api api_idp_types (collector s) = Ok a'"
    using aggregate_returns [OF map_api_gauges s(5) api_idp_types_valid] by blast
  have known: "''LDAP'' \<in> set (knownIdentityProviderTypes api_idp_types)" by (simp add: api_idp_types_def knownIdentityProviderTypes_def)
  have views: "view_oauths (server_views lag_versions) (late_world (Some held_oauth, [])) = [oauth_key \<mapsto> held_oauth]"
    "view_groups (server_views lag_versions) (late_world (Some held_oauth, [])) key = None" for key
    by (auto simp: server_views_def late_versions fun_eq_iff)
  have "live_oauths (server_views lag_versions) (late_world (Some held_oauth, [])) = {oauth_key}"
    by (auto simp: live_oauths_def views ldap_fields IsZero_def split: if_splits)
  then have total: "idp_total (server_views lag_versions) (late_world (Some held_oauth, [])) ''LDAP'' = 1"
    by (simp add: idp_total_def views) (simp add: ldap_oauth_def)
  have "caught_up lag_versions (cluster s)" by (simp add: s(4) late_caught_up)
  from idle_counts_exact_behind_caches [OF lagging_memory.lagging_cluster_axioms lag_oauth_atomic main s(1-3) this,
      unfolded lag_operator_parts, OF a' known]
  have "exported map_api a' Identity_Provider [''LDAP''] = Some 1" "exported map_api a' Cluster_Admin_Enabled [''c1''] = Some 0"
    by (simp_all add: s(4) views total float64_exact)
  with p s(2,4) a' show ?thesis by blast
qed


text \<open>
  C10: The queues settle even if the caches lag. Take any state that the operator can reach and let the
  cluster oblige from then on: reads fail with not-found only, an update is refused only if it is based on an
  outdated version, no machine is being deleted, the bundle and the machine set can be read. The
  caches catch up one version at a time, in any order with the deliveries and the answers, refused updates and their
  retries included. Such work goes on for ever only if from some point on the cache of one object stays
  behind for ever. An end, with nothing on its way, no request waiting and all caches caught up, can be
  reached, and at every such end the metrics of every controller show their objects as they are on the server.
\<close>

theorem queues_settle_behind_caches:
  assumes "obliging_lagging_cluster oper av good" and "main (op_gauges oper) env = Next p"
    and "Network_operator env = op_network_operator oper"
    and "lag_queue_reachable oper av (registrations_of p) s" and "good (cluster s)"
  shows "(\<forall>f. f 0 = s \<and> (\<forall>n. lag_works oper av good (registrations_of p) (f n) (f (Suc n))) \<longrightarrow>
        (\<exists>N kind key. \<forall>n \<ge> N. behind_by av (cluster (f n)) kind key > 0))
    \<and> (\<exists>s'. (lag_works oper av good (registrations_of p))\<^sup>*\<^sup>* s s' \<and> idle s' \<and> caught_up av (cluster s'))
    \<and> (\<forall>s'. (lag_works oper av good (registrations_of p))\<^sup>*\<^sup>* s s' \<and> idle s' \<and> caught_up av (cluster s') \<longrightarrow>
        (\<forall>c \<in> set (wanted_controllers env). \<forall>key. relevant (op_network_operator oper) c key \<longrightarrow>
          reflected oper (server_views av) c key (cluster s') (collector s')))"
proof (intro conjI allI impI ballI)
  let ?regs = "registrations_of p"
  have regs: "proper_registrations (op_network_operator oper) ?regs"
    using main_registrations(1) [OF assms(2)] assms(3) by simp
  have lagging: "lagging_cluster oper av" using assms(1) by (simp add: obliging_lagging_cluster_def)
  show "\<exists>N kind key. \<forall>n \<ge> N. behind_by av (cluster (f n)) kind key > 0"
    if run: "f 0 = s \<and> (\<forall>n. lag_works oper av good ?regs (f n) (f (Suc n)))" for f
  proof -
    obtain N where "\<forall>n \<ge> N. conflict av (f n) (f (Suc n))"
      using obliging_lagging_cluster.only_conflicts_left [OF assms(1) regs, of f] run assms(4,5) by auto
    then show ?thesis using behind_for_ever [of N av f] by blast
  qed
  show "\<exists>s'. (lag_works oper av good ?regs)\<^sup>*\<^sup>* s s' \<and> idle s' \<and> caught_up av (cluster s')"
    by (rule obliging_lagging_cluster.lag_works_to_end [OF assms(1) regs assms(4,5)])
  show "reflected oper (server_views av) c key (cluster s') (collector s')"
    if stop: "(lag_works oper av good ?regs)\<^sup>*\<^sup>* s s' \<and> idle s' \<and> caught_up av (cluster s')"
      and "c \<in> set (wanted_controllers env)" "relevant (op_network_operator oper) c key" for s' c key
  proof -
    have "lag_queue_reachable oper av ?regs s'"
      using obliging_lagging_cluster.lag_works_keeps [OF assms(1) _ assms(4) regs assms(5)] stop by blast
    from lagging_cluster.shown_when_settled [OF lagging this regs, of c key] stop that(2,3) show ?thesis
      by (simp add: wanted_registered [OF assms(2)])
  qed
qed

lemma late_good: "lag_good (late_world (Some bare_oauth, []))"
proof -
  have "unscoped_versions (late_world x) = lm_groups (late_world x)" for x
    by (rule ext) (simp add: unscoped_versions_def late_world_def)
  moreover have "finitely_present (oauth_versions lag_versions (late_world (Some bare_oauth, [])))"
    unfolding finitely_present_def late_versions by (rule finite_subset [of _ "{oauth_key}"]) auto
  ultimately show ?thesis
    by (simp add: lag_good_def all_versions_def finitely_present_def late_versions)
qed

theorem queues_settle_behind_caches_witness:
  "\<exists>p s s'. main map_api (good_env True []) = Next p
    \<and> lag_queue_reachable lag_operator lag_versions (registrations_of p) s
    \<and> cluster s = late_world (Some bare_oauth, [])
    \<and> (lag_works lag_operator lag_versions lag_good (registrations_of p))\<^sup>*\<^sup>* s s'
    \<and> idle s' \<and> caught_up lag_versions (cluster s')
    \<and> reflected lag_operator (server_views lag_versions) OAuth_C oauth_key (cluster s') (collector s')"
proof -
  obtain p a where p: "main map_api (good_env True []) = Next p" and a: "NewMetricsAggregator map_api aggregatorResyncInterval ''c1'' = Ok a"
    by (rule late_main)
  let ?s = "late_state (Some bare_oauth, []) a [created] {}"
  have main: "main (op_gauges lag_operator) (good_env True []) = Next p"
    "Network_operator (good_env True []) = op_network_operator lag_operator"
    using p by (simp_all add: lag_operator_parts good_env_def)
  have reach: "lag_queue_reachable lag_operator lag_versions (registrations_of p) ?s"
    using late_start [OF a] by (auto simp: calm_start_def intro: lag_started)
  have good: "lag_good (cluster ?s)" by (simp add: late_state_def late_good)
  have wanted: "OAuth_C \<in> set (wanted_controllers (good_env True []))" by (simp add: wanted_controllers_def)
  note settle = queues_settle_behind_caches [OF lag_obliges.obliging_lagging_cluster_axioms main reach good]
  from settle obtain s' where s': "(lag_works lag_operator lag_versions lag_good (registrations_of p))\<^sup>*\<^sup>* ?s s'"
      "idle s'" "caught_up lag_versions (cluster s')" by (elim conjE exE)
  with settle wanted have "reflected lag_operator (server_views lag_versions) OAuth_C oauth_key (cluster s') (collector s')"
    by (simp del: reflected.simps)
  moreover have "cluster ?s = late_world (Some bare_oauth, [])" by (simp add: late_state_def)
  ultimately show ?thesis using p reach s' by blast
qed

end
