(* ===== verification/E2E_Checks.thy ===== *)
theory E2E_Checks
  imports Lagging_Properties
begin

section \<open>The end-to-end tests (\<open>test/e2e\<close>)\<close>

text \<open>
  The tests query Prometheus for the metrics of the exporter. They state, in a second place, what
  the metrics promise. Here the queries and the expectations are transcribed, and it is
  shown which clusters pass them. The client of Prometheus is a parameter, from a query to an error or the values of the
  samples found. The conversions of a value to \<open>int\<close> and \<open>int64\<close> are left out, since all values here
  are whole. A check that is repeated until it holds is taken at one moment. The steps that prepare the cluster and wait
  for the target to be up are not modelled.
\<close>

record query =
  q_name :: string
  q_match :: "(string \<times> string) list"

definition expect :: "'e + int list \<Rightarrow> (int list \<Rightarrow> bool) \<Rightarrow> bool" where
  "expect results holds = (case results of Inl err \<Rightarrow> False | Inr vs \<Rightarrow> holds vs)"

definition first_is :: "(int \<Rightarrow> bool) \<Rightarrow> int list \<Rightarrow> bool" where
  "first_is holds vs = (case vs of [] \<Rightarrow> False | v # _ \<Rightarrow> holds v)"

definition expectedMetricNames :: "string list" where
  "expectedMetricNames =
     [''identity_provider'', ''cluster_admin_enabled'', ''limited_support_enabled'',
      ''cluster_proxy'', ''cluster_proxy_ca_expiry_timestamp'', ''cluster_proxy_ca_valid'',
      ''cluster_id'', ''pods_preventing_node_drain'', ''cpms_enabled'']"

definition optionalMetrics :: "(string, bool) go_map" where
  "optionalMetrics =
     [(''cluster_proxy_ca_expiry_timestamp'', True), (''cluster_proxy_ca_valid'', True),
      (''pods_preventing_node_drain'', True)]"

definition names_queryable :: "(query \<Rightarrow> 'e + int list) \<Rightarrow> bool" where
  "names_queryable prom \<longleftrightarrow> list_all (\<lambda>metricName.
     let query = (if metricName = ''pods_preventing_node_drain'' then \<lparr>q_name = metricName, q_match = []\<rparr>
                  else \<lparr>q_name = metricName, q_match = [(''name'', ''osd_exporter'')]\<rparr>)
     in expect (prom query) (\<lambda>results. map_of optionalMetrics metricName = Some True \<or> results \<noteq> []))
   expectedMetricNames"

definition of_cluster :: "string \<Rightarrow> string \<Rightarrow> query" where
  "of_cluster metric metricClusterID =
     \<lparr>q_name = metric, q_match = [(''_id'', metricClusterID), (''name'', ''osd_exporter'')]\<rparr>"

definition metrics_checks :: "(query \<Rightarrow> 'e + int list) \<Rightarrow> string \<Rightarrow> bool" where
  "metrics_checks prom metricClusterID \<longleftrightarrow>
     expect (prom \<lparr>q_name = ''identity_provider'', q_match = [(''provider'', ''HTPasswd''), (''name'', ''osd_exporter'')]\<rparr>)
       (first_is (\<lambda>v. v = 1))
     \<and> expect (prom (of_cluster ''cluster_id'' metricClusterID)) (first_is (\<lambda>v. v = 1))
     \<and> expect (prom (of_cluster ''limited_support_enabled'' metricClusterID)) (first_is (\<lambda>v. v \<in> {0, 1}))
     \<and> expect (prom (of_cluster ''cluster_admin_enabled'' metricClusterID)) (first_is (\<lambda>v. v \<in> {0, 1}))
     \<and> expect (prom (of_cluster ''cluster_proxy'' metricClusterID)) (first_is (\<lambda>v. 0 \<le> v \<and> v \<le> 1))
     \<and> expect (prom (of_cluster ''cluster_proxy_ca_valid'' metricClusterID))
         (\<lambda>vs. vs = [] \<or> first_is (\<lambda>v. v \<in> {0, 1}) vs)
     \<and> expect (prom (of_cluster ''cluster_proxy_ca_expiry_timestamp'' metricClusterID))
         (list_all (\<lambda>ts. 1577836800 \<le> ts \<and> ts \<le> 2208988800))
     \<and> expect (prom \<lparr>q_name = ''identity_provider'', q_match = [(''name'', ''osd_exporter'')]\<rparr>)
         (\<lambda>vs. vs \<noteq> [] \<and> list_all (\<lambda>v. 0 \<le> v) vs)
     \<and> expect (prom (of_cluster ''cpms_enabled'' metricClusterID)) (first_is (\<lambda>v. v \<in> {0, 1}))
     \<and> expect (prom \<lparr>q_name = ''pods_preventing_node_drain'', q_match = []\<rparr>) (list_all (\<lambda>v. v = 1))
     \<and> names_queryable prom"

subsection \<open>What Prometheus answers\<close>

text \<open>
  The options of each metric are read off the constructor, by running it on vectors that are nothing
  but their declarations.
\<close>

definition declarations :: "(GaugeOpts \<times> string list) gauge_api" where
  "declarations = \<lparr>NewGaugeVec = Pair, WithSet = (\<lambda>g ls v. Some g), VecReset = (\<lambda>g. g), label_names = snd,
     series = (\<lambda>g. Map.empty)\<rparr>"

definition metric_opts :: "vec_id \<Rightarrow> GaugeOpts" where
  "metric_opts v = fst (vec_of v (new_collector declarations 0))"

lemma metric_declared:
  "vec_of v (new_collector pv interval) = NewGaugeVec pv (metric_opts v) (declared_labels v)"
  by (cases v) (simp_all add: metric_opts_def new_collector_def declarations_def)

text \<open>
  Prometheus finds the series of a metric that have the labels of the query. The label \<open>instance\<close>
  is one that Prometheus attaches itself.
\<close>

definition series_labels :: "vec_id \<Rightarrow> string list \<Rightarrow> labels" where
  "series_labels v key = opts_ConstLabels (metric_opts v) @ zip (declared_labels v) key"

definition scraped_by :: "(query \<Rightarrow> 'e + int list) \<Rightarrow> exposition \<Rightarrow> bool" where
  "scraped_by prom e \<longleftrightarrow> (\<forall>v ms.
     fst ` set ms \<subseteq> fst ` set (opts_ConstLabels (metric_opts v)) \<union> set (declared_labels v) - {''instance''} \<longrightarrow>
     (\<exists>vs. prom \<lparr>q_name = opts_Name (metric_opts v), q_match = ms\<rparr> = Inr vs
       \<and> set vs = {x. \<exists>key. e v key = Some x \<and> set ms \<subseteq> set (series_labels v key)}))"

text \<open>The values that a query finds.\<close>

definition found :: "exposition \<Rightarrow> vec_id \<Rightarrow> (string \<times> string) list \<Rightarrow> int set" where
  "found e v ms = {x. \<exists>key. e v key = Some x \<and> set ms \<subseteq> set (series_labels v key)}"

lemma metric_names:
  "opts_Name (metric_opts Identity_Provider) = ''identity_provider''"
  "opts_Name (metric_opts Cluster_Admin_Enabled) = ''cluster_admin_enabled''"
  "opts_Name (metric_opts Limited_Support_Enabled) = ''limited_support_enabled''"
  "opts_Name (metric_opts Cluster_Proxy) = ''cluster_proxy''"
  "opts_Name (metric_opts Cluster_Proxy_CA_Expiry) = ''cluster_proxy_ca_expiry_timestamp''"
  "opts_Name (metric_opts Cluster_Proxy_CA_Valid) = ''cluster_proxy_ca_valid''"
  "opts_Name (metric_opts Cluster_ID) = ''cluster_id''"
  "opts_Name (metric_opts Pods_Preventing_Node_Drain) = ''pods_preventing_node_drain''"
  "opts_Name (metric_opts CPMS_Enabled) = ''cpms_enabled''"
  by (simp_all add: metric_opts_def new_collector_def declarations_def osd_gauge_def)

lemma metric_consts:
  "opts_ConstLabels (metric_opts v) = (if v = Pods_Preventing_Node_Drain then [] else [(''name'', ''osd_exporter'')])"
  by (cases v) (simp_all add: metric_opts_def new_collector_def declarations_def osd_gauge_def osdExporterValue_def)

lemma answer_found:
  assumes "scraped_by prom e"
    and "fst ` set ms \<subseteq> fst ` set (opts_ConstLabels (metric_opts v)) \<union> set (declared_labels v) - {''instance''}"
  obtains vs where "prom \<lparr>q_name = opts_Name (metric_opts v), q_match = ms\<rparr> = Inr vs" and "set vs = found e v ms"
  using assms unfolding scraped_by_def found_def by blast

lemma first_is_all: "(\<And>x. x \<in> set vs \<Longrightarrow> holds x) \<Longrightarrow> first_is holds vs \<longleftrightarrow> vs \<noteq> []"
  by (cases vs) (simp_all add: first_is_def)

abbreviation "exporter_label \<equiv> (''name'', ''osd_exporter'')"

lemma found_all: "v \<noteq> Pods_Preventing_Node_Drain \<Longrightarrow> found e v [exporter_label] = ran (e v)"
  "found e v [] = ran (e v)"
  by (auto simp: found_def series_labels_def metric_consts ran_def)

text \<open>All series of a metric with a cluster id carry the same one.\<close>

lemma found_cluster:
  assumes "exposition_sane cid c e" and "v \<notin> {Identity_Provider, Pods_Preventing_Node_Drain}"
  shows "found e v [(''_id'', cid), exporter_label] = ran (e v)"
proof -
  have "(''_id'', cid) \<in> set (zip (declared_labels v) key)" if "e v key = Some x" for key x
    using sane_series [OF assms(1) that] assms(2) by (cases v) (auto simp: clusterIDLabel_def)
  then show ?thesis
    using assms(2) by (fastforce simp: found_def series_labels_def metric_consts ran_def)
qed

lemma found_provider:
  assumes "exposition_sane cid c e"
  shows "found e Identity_Provider [(''provider'', t), exporter_label] = set_option (e Identity_Provider [t])"
proof -
  have "\<exists>t. key = [t]" if "e Identity_Provider key = Some x" for key x using sane_series [OF assms that] by auto
  then show ?thesis
    by (fastforce simp: found_def series_labels_def metric_consts providerLabel_def elem_set)
qed

subsection \<open>Which exported series pass\<close>

text \<open>Each kind of expectation in terms of the values found.\<close>

lemma expect_found:
  assumes "scraped_by prom e"
    and "fst ` set ms \<subseteq> fst ` set (opts_ConstLabels (metric_opts v)) \<union> set (declared_labels v) - {''instance''}"
    and "opts_Name (metric_opts v) = n"
  shows "(\<And>x. x \<in> found e v ms \<Longrightarrow> holds x) \<Longrightarrow> expect (prom \<lparr>q_name = n, q_match = ms\<rparr>) (first_is holds) \<longleftrightarrow> found e v ms \<noteq> {}"
    and "(\<And>x. x \<in> found e v ms \<Longrightarrow> holds x) \<Longrightarrow> expect (prom \<lparr>q_name = n, q_match = ms\<rparr>) (\<lambda>vs. vs = [] \<or> first_is holds vs)"
    and "expect (prom \<lparr>q_name = n, q_match = ms\<rparr>) (list_all holds) \<longleftrightarrow> (\<forall>x \<in> found e v ms. holds x)"
    and "expect (prom \<lparr>q_name = n, q_match = ms\<rparr>) (\<lambda>vs. vs \<noteq> [] \<and> list_all holds vs)
      \<longleftrightarrow> found e v ms \<noteq> {} \<and> (\<forall>x \<in> found e v ms. holds x)"
    and "expect (prom \<lparr>q_name = n, q_match = ms\<rparr>) (\<lambda>vs. optional \<or> vs \<noteq> []) \<longleftrightarrow> optional \<or> found e v ms \<noteq> {}"
    and "found e v ms = set_option r \<Longrightarrow> expect (prom \<lparr>q_name = n, q_match = ms\<rparr>) (first_is (\<lambda>x. x = 1)) \<longleftrightarrow> r = Some 1"
proof -
  obtain vs where vs: "prom \<lparr>q_name = n, q_match = ms\<rparr> = Inr vs" and set: "set vs = found e v ms"
    using answer_found [OF assms(1,2)] assms(3) by blast
  show "expect (prom \<lparr>q_name = n, q_match = ms\<rparr>) (first_is holds) \<longleftrightarrow> found e v ms \<noteq> {}"
    "expect (prom \<lparr>q_name = n, q_match = ms\<rparr>) (\<lambda>vs. vs = [] \<or> first_is holds vs)"
    if "\<And>x. x \<in> found e v ms \<Longrightarrow> holds x"
    using first_is_all [of vs holds] that by (auto simp: expect_def vs simp flip: set)
  show "expect (prom \<lparr>q_name = n, q_match = ms\<rparr>) (list_all holds) \<longleftrightarrow> (\<forall>x \<in> found e v ms. holds x)"
    "expect (prom \<lparr>q_name = n, q_match = ms\<rparr>) (\<lambda>vs. vs \<noteq> [] \<and> list_all holds vs)
      \<longleftrightarrow> found e v ms \<noteq> {} \<and> (\<forall>x \<in> found e v ms. holds x)"
    "expect (prom \<lparr>q_name = n, q_match = ms\<rparr>) (\<lambda>vs. optional \<or> vs \<noteq> []) \<longleftrightarrow> optional \<or> found e v ms \<noteq> {}"
    by (auto simp: expect_def vs list_all_iff simp flip: set)
  show "expect (prom \<lparr>q_name = n, q_match = ms\<rparr>) (first_is (\<lambda>x. x = 1)) \<longleftrightarrow> r = Some 1"
    if "found e v ms = set_option r"
  proof -
    from that have "set vs = set_option r" using set by simp
    then show ?thesis by (cases vs; cases r) (auto simp: expect_def vs first_is_def)
  qed
qed

text \<open>The names, one after another.\<close>

lemma names_found:
  assumes "scraped_by prom e"
  shows "names_queryable prom \<longleftrightarrow> (\<forall>v \<in> {Identity_Provider, Cluster_Admin_Enabled, Limited_Support_Enabled,
    Cluster_Proxy, Cluster_ID, CPMS_Enabled}. ran (e v) \<noteq> {})"
proof -
  have named: "expect (prom \<lparr>q_name = opts_Name (metric_opts v), q_match = [exporter_label]\<rparr>) (\<lambda>vs. vs \<noteq> [])
        \<longleftrightarrow> ran (e v) \<noteq> {}"
      "expect (prom \<lparr>q_name = opts_Name (metric_opts v), q_match = [exporter_label]\<rparr>) (\<lambda>vs. True)"
    if "v \<noteq> Pods_Preventing_Node_Drain" for v
    using expect_found(5) [OF assms, of "[exporter_label]" v _ False] expect_found(5) [OF assms, of "[exporter_label]" v _ True] that
    by (simp_all add: found_all metric_consts)
  have pods: "expect (prom \<lparr>q_name = ''pods_preventing_node_drain'', q_match = []\<rparr>) (\<lambda>vs. True)"
    using expect_found(5) [OF assms, of "[]" Pods_Preventing_Node_Drain _ True] by (simp add: metric_names)
  note by_name = named(1) [of Identity_Provider] named(1) [of Cluster_Admin_Enabled] named(1) [of Limited_Support_Enabled]
    named(1) [of Cluster_Proxy] named(1) [of Cluster_ID] named(1) [of CPMS_Enabled]
    named(2) [of Cluster_Proxy_CA_Expiry] named(2) [of Cluster_Proxy_CA_Valid]
  show ?thesis
    by (simp add: names_queryable_def expectedMetricNames_def optionalMetrics_def pods by_name [simplified metric_names, simplified])
qed

text \<open>
  For sane series the checks come to this: one provider of the type that the test has added, a
  series of each metric that is not optional, and expiries between 2020 and 2040.
\<close>

lemma checks_of_series:
  assumes sane: "exposition_sane cid c e" and prom: "scraped_by prom e"
  shows "metrics_checks prom cid \<longleftrightarrow> e Identity_Provider [''HTPasswd''] = Some 1
    \<and> (\<forall>v \<in> {Cluster_Admin_Enabled, Limited_Support_Enabled, Cluster_Proxy, Cluster_ID, CPMS_Enabled}. ran (e v) \<noteq> {})
    \<and> (\<forall>x \<in> ran (e Cluster_Proxy_CA_Expiry). 1577836800 \<le> x \<and> x \<le> 2208988800)"
proof -
  have mine: "fst ` set [(''_id'', cid), exporter_label] \<subseteq>
      fst ` set (opts_ConstLabels (metric_opts v)) \<union> set (declared_labels v) - {''instance''}"
    if "v \<notin> {Identity_Provider, Pods_Preventing_Node_Drain}" for v
    using that by (cases v) (simp_all add: metric_consts clusterIDLabel_def)
  have sets: "expect (prom (of_cluster (opts_Name (metric_opts v)) cid)) (first_is holds) \<longleftrightarrow> ran (e v) \<noteq> {}"
    and maybe: "expect (prom (of_cluster (opts_Name (metric_opts v)) cid)) (\<lambda>vs. vs = [] \<or> first_is holds vs)"
    if other: "v \<notin> {Identity_Provider, Pods_Preventing_Node_Drain}"
      and good: "\<And>key x. series_sane cid c v key x \<Longrightarrow> holds x" for v holds
  proof -
    have "holds x" if there: "x \<in> ran (e v)" for x
      using there sane_series [OF sane] good unfolding ran_def by blast
    then show "expect (prom (of_cluster (opts_Name (metric_opts v)) cid)) (first_is holds) \<longleftrightarrow> ran (e v) \<noteq> {}"
      "expect (prom (of_cluster (opts_Name (metric_opts v)) cid)) (\<lambda>vs. vs = [] \<or> first_is holds vs)"
      using expect_found(1,2) [OF prom mine [OF other] refl] other by (simp_all add: of_cluster_def found_cluster [OF sane])
  qed
  have expiry: "expect (prom (of_cluster ''cluster_proxy_ca_expiry_timestamp'' cid)) (list_all holds)
      \<longleftrightarrow> (\<forall>x \<in> ran (e Cluster_Proxy_CA_Expiry). holds x)" for holds
    using expect_found(3) [OF prom mine, of Cluster_Proxy_CA_Expiry]
    by (simp add: metric_names of_cluster_def found_cluster [OF sane])
  have added: "expect (prom \<lparr>q_name = ''identity_provider'', q_match = [(''provider'', ''HTPasswd''), exporter_label]\<rparr>)
      (first_is (\<lambda>x. x = 1)) \<longleftrightarrow> e Identity_Provider [''HTPasswd''] = Some 1"
    using expect_found(6) [OF prom _ _ found_provider [OF sane]] by (simp add: metric_names metric_consts providerLabel_def)
  have "0 \<le> x" if "x \<in> ran (e Identity_Provider)" for x using that sane_series [OF sane] by (fastforce simp: ran_def)
  then have providers: "expect (prom \<lparr>q_name = ''identity_provider'', q_match = [exporter_label]\<rparr>)
      (\<lambda>vs. vs \<noteq> [] \<and> list_all (\<lambda>x. 0 \<le> x) vs) \<longleftrightarrow> ran (e Identity_Provider) \<noteq> {}"
    using expect_found(4) [OF prom, of "[exporter_label]" Identity_Provider] by (simp add: metric_names metric_consts found_all)
  have "x = 1" if "x \<in> ran (e Pods_Preventing_Node_Drain)" for x using that sane_series [OF sane] by (fastforce simp: ran_def)
  then have pods: "expect (prom \<lparr>q_name = ''pods_preventing_node_drain'', q_match = []\<rparr>) (list_all (\<lambda>x. x = 1))"
    using expect_found(3) [OF prom, of "[]" Pods_Preventing_Node_Drain] by (simp add: metric_names found_all)
  have flags: "expect (prom (of_cluster ''cluster_id'' cid)) (first_is (\<lambda>x. x = 1)) \<longleftrightarrow> ran (e Cluster_ID) \<noteq> {}"
    "expect (prom (of_cluster ''limited_support_enabled'' cid)) (first_is (\<lambda>x. x \<in> {0, 1})) \<longleftrightarrow> ran (e Limited_Support_Enabled) \<noteq> {}"
    "expect (prom (of_cluster ''cluster_admin_enabled'' cid)) (first_is (\<lambda>x. x \<in> {0, 1})) \<longleftrightarrow> ran (e Cluster_Admin_Enabled) \<noteq> {}"
    "expect (prom (of_cluster ''cluster_proxy'' cid)) (first_is (\<lambda>x. 0 \<le> x \<and> x \<le> 1)) \<longleftrightarrow> ran (e Cluster_Proxy) \<noteq> {}"
    "expect (prom (of_cluster ''cpms_enabled'' cid)) (first_is (\<lambda>x. x \<in> {0, 1})) \<longleftrightarrow> ran (e CPMS_Enabled) \<noteq> {}"
    by (rule sets [where v = Cluster_ID, unfolded metric_names], simp, fastforce)
      (rule sets [where v = Limited_Support_Enabled, unfolded metric_names], simp, fastforce,
       rule sets [where v = Cluster_Admin_Enabled, unfolded metric_names], simp, fastforce,
       rule sets [where v = Cluster_Proxy, unfolded metric_names], simp, fastforce,
       rule sets [where v = CPMS_Enabled, unfolded metric_names], simp, fastforce)
  have ca: "expect (prom (of_cluster ''cluster_proxy_ca_valid'' cid)) (\<lambda>vs. vs = [] \<or> first_is (\<lambda>x. x \<in> {0, 1}) vs)"
    by (rule maybe [where v = Cluster_Proxy_CA_Valid, unfolded metric_names]) (simp, fastforce)
  have "ran (e Identity_Provider) \<noteq> {}" if "e Identity_Provider [''HTPasswd''] = Some 1" using that by (auto simp: ran_def)
  then show ?thesis
    unfolding metrics_checks_def flags expiry added providers names_found [OF prom] ball_simps
    using pods ca by (auto simp del: ball_simps)
qed

subsection \<open>Which clusters pass\<close>

text \<open>The metric of a controller that is not set up stays as the constructor leaves it.\<close>

lemma unregistered_idle:
  assumes "queue_reachable oper vs regs s" and ok: "operator_ok oper" and c: "c \<notin> fst ` set regs" "owner v = Ran c"
  shows "fst ` pending s \<subseteq> fst ` set regs
    \<and> (\<exists>a. NewMetricsAggregator (op_gauges oper) aggregatorResyncInterval (op_clusterId oper) = Ok a
        \<and> scraped oper (collector s) v = scraped oper a v)"
  using assms(1)
proof induction
  case (queue_started s)
  then show ?case by (auto simp: queue_start_def)
next
  case (queue_moved s l s')
  have wf: "agg_wf (op_gauges oper) (collector s)"
    using reachable_invariant [OF queue_reachable_system [OF queue_moved(1)] ok] by simp
  have keeps: "scraped oper a' v = scraped oper (collector s) v"
    if "system_step oper l' (cluster s, collector s) (w', a')" "l' \<noteq> Ran c" for l' w' a'
    using system_step_expo [OF ok that(1) wf] expo_step_owner c(2) that(2) by metis
  from queue_moved(2) show ?case
  proof cases
    case (ticks a')
    with keeps [OF system_step.ticks [OF ticks(3)]] queue_moved.IH show ?thesis by simp
  next
    case (answers c' req now out w' a' evs)
    then have "c' \<noteq> c" using c(1) queue_moved.IH by force
    with keeps [OF Reconcile_step [OF answers(4)]] answers queue_moved.IH show ?thesis by auto
  qed (use queue_moved.IH in \<open>force simp: requests_for_def\<close>)+
qed

lemma float64_is_1: "float64 (int n) = 1 \<longleftrightarrow> n = 1"
proof (cases "n < 2 ^ 53")
  case True
  then show ?thesis by (simp add: float64_exact nat_less_iff)
next
  case False
  then obtain k where k: "excess_bits n = Suc k" by (simp add: excess_bits.simps)
  have "even (round_even n (Suc k))" by (simp add: round_even_def Let_def)
  then have "round_even n (Suc k) \<noteq> 1" by (metis odd_one)
  then show ?thesis using False by (simp add: float64_def k sgn_if)
qed

lemma aggregate_keeps:
  assumes "operator_ok oper" "reachable oper (w, a)" "aggregate (op_gauges oper) (op_idp_types oper) a = Ok a'"
  shows "exposition_sane (op_clusterId oper) (op_idp_types oper) (scraped oper a')"
    and "v \<noteq> Identity_Provider \<Longrightarrow> scraped oper a' v = scraped oper a v"
proof -
  note tick = system_step.ticks [OF assms(3)]
  have inv: "agg_wf (op_gauges oper) a" using reachable_invariant [OF assms(2,1)] by simp
  show "exposition_sane (op_clusterId oper) (op_idp_types oper) (scraped oper a')"
    using reachable_invariant [OF reachable.stepped [OF assms(2) tick] assms(1)] by simp
  have "owner v \<noteq> Ticker" if "v \<noteq> Identity_Provider" using that by (cases v) simp_all
  then show "scraped oper a' v = scraped oper a v" if "v \<noteq> Identity_Provider"
    using system_step_expo [OF assms(1) tick inv] expo_step_owner that by metis
qed

text \<open>
  C11: What decides the end-to-end checks of the metrics. Let the operator run from its start under the controllers of
  \<open>main\<close>, in a cluster that meets the contract of the watches and whose caches may lag behind the API server, on these
  terms. An update of an OAuth object that returns an error has not been applied; without this an entry can outlive its
  object and be counted. Nobody but the operator takes its finalizers from OAuth objects and from the group
  cluster-admins, also not between the versions that are still on their way to a cache at the start. The operator has come to rest,
  its caches have caught up, and then the aggregation loop has made a round; Prometheus answers every query from the
  series exported after this round. HTPasswd is among the known types. The cluster has a proxy object and, if the
  exporter watches them, a control plane machine set of a known instance type. Then the checks pass if and only if the
  cluster serves control plane machine sets, exactly one HTPasswd provider is configured on the server over all OAuth
  objects that are not being deleted, and the expiries that the trusted bundle stands for, one per subject,
  all lie between 2020 and 2040. In particular, on these terms the exporter cannot pass them on a cluster without control
  plane machine sets, which \<open>main\<close> supports.
\<close>

theorem e2e_checks_exact:
  assumes "lagging_cluster oper av"
    and "atomic_lagging_server (op_oauth_client oper) oauth_meta (oauth_versions av)"
    and "main (op_gauges oper) env = Next p" and "Network_operator env = op_network_operator oper"
    and "calm_start oper av s0" and "(guarded_lag_step oper av (registrations_of p))\<^sup>*\<^sup>* s0 s"
    and "idle s" and "caught_up av (cluster s)"
    and "aggregate (op_gauges oper) (op_idp_types oper) (collector s) = Ok a'"
    and "''HTPasswd'' \<in> set (knownIdentityProviderTypes (op_idp_types oper))"
    and "scraped_by prom (exported (op_gauges oper) a')"
    and "view_proxies (server_views av) (cluster s) pkey = Some obj"
    and "fst (hasCpmsCrd env) \<Longrightarrow> \<exists>machines t. view_cpms (server_views av) (cluster s) cpms_key = Some machines
      \<and> instance_type_of (op_decoders oper) machines = Known t"
  shows "metrics_checks prom (op_clusterId oper) \<longleftrightarrow> fst (hasCpmsCrd env)
    \<and> idp_total (server_views av) (cluster s) ''HTPasswd'' = 1
    \<and> (\<forall>x \<in> ran (fst (ca_metrics (op_network_operator oper) (op_clusterId oper)
          (view_configmaps (server_views av) (cluster s) (ca_bundle_key (op_network_operator oper))))).
        1577836800 \<le> x \<and> x \<le> 2208988800)"
proof -
  let ?regs = "registrations_of p" and ?a = "collector s"
  note wanted = wanted_registered [OF assms(3)]
  have regs: "proper_registrations (op_network_operator oper) ?regs" "{OAuth_C, Group_C} \<subseteq> fst ` set ?regs"
    using main_registrations(1) [OF assms(3)] assms(4) wanted [of OAuth_C] wanted [of Group_C]
    by (simp_all add: wanted_controllers_def)
  have ok: "operator_ok oper" using read_cluster.oper_ok assms(1) unfolding lagging_cluster_def by blast
  from lagging_cluster.guarded_lag_run [OF assms(1,2) regs(1) assms(6,5)]
  have reach: "lag_queue_reachable oper av ?regs s" and backed: "lag_backed oper av s" by simp_all
  note cached = lag_queue_reachable_cached [OF reach]
  note round = aggregate_keeps [OF ok queue_reachable_system [OF cached] assms(9)]
  have shown: "reflected oper (server_views av) c key (cluster s) ?a"
    if "c \<in> set (wanted_controllers env)" "relevant (op_network_operator oper) c key" for c key
    using lagging_cluster.shown_when_settled [OF assms(1) reach regs(1) assms(7,8)] that wanted by simp
  from lagging_cluster.settled_counts [OF assms(1) reach backed regs assms(7-10)]
  have idp: "scraped oper a' Identity_Provider [''HTPasswd''] = Some (float64 (int (idp_total (server_views av) (cluster s) ''HTPasswd'')))"
    and admin: "ran (scraped oper a' Cluster_Admin_Enabled) \<noteq> {}" by (auto simp: ran_def)
  have support: "ran (scraped oper a' Limited_Support_Enabled) \<noteq> {}"
    using shown [of LimitedSupport_C limited_support_key] by (auto simp: wanted_controllers_def round(2) ran_def)
  have proxy: "ran (scraped oper a' Cluster_ID) \<noteq> {}" "ran (scraped oper a' Cluster_Proxy) \<noteq> {}"
    using shown [of Proxy_C pkey] assms(12) by (auto simp: wanted_controllers_def round(2) ran_def)
  have expiry: "scraped oper a' Cluster_Proxy_CA_Expiry = fst (ca_metrics (op_network_operator oper) (op_clusterId oper)
      (view_configmaps (server_views av) (cluster s) (ca_bundle_key (op_network_operator oper))))"
    using shown [of ConfigMap_C "ca_bundle_key (op_network_operator oper)"] by (simp add: wanted_controllers_def round(2) eq_fst_iff) metis
  have machines: "ran (scraped oper a' CPMS_Enabled) \<noteq> {} \<longleftrightarrow> fst (hasCpmsCrd env)"
  proof (cases "fst (hasCpmsCrd env)")
    case True
    with shown [of CPMS_C cpms_key] assms(13) show ?thesis by (auto simp: wanted_controllers_def round(2))
  next
    case False
    then have "CPMS_C \<notin> fst ` set ?regs" using wanted [of CPMS_C] by (simp add: wanted_controllers_def)
    from unregistered_idle [OF cached ok this, of CPMS_Enabled] obtain a0
      where a0: "NewMetricsAggregator (op_gauges oper) aggregatorResyncInterval (op_clusterId oper) = Ok a0"
        "scraped oper ?a CPMS_Enabled = scraped oper a0 CPMS_Enabled" by auto
    have "gauge_vec (op_gauges oper)" "ValidString (op_clusterId oper)" using ok by (simp_all add: operator_ok_def)
    from NewMetricsAggregator_ok [OF this, of aggregatorResyncInterval] a0 have "scraped oper ?a CPMS_Enabled = Map.empty"
      by (auto simp: expo_set_def)
    with False show ?thesis by (simp add: round(2))
  qed
  show ?thesis
    unfolding checks_of_series [OF round(1) assms(11)] expiry idp option.inject float64_is_1
    using admin support proxy machines by auto
qed

subsection \<open>A cluster that passes\<close>

text \<open>Prometheus right after a scrape of concrete vectors.\<close>

definition map_values :: "map_vec \<Rightarrow> vec_id \<Rightarrow> (string \<times> string) list \<Rightarrow> int list" where
  "map_values g v ms = map (\<lambda>key. the (map_of (mv_series g) key))
     (filter (\<lambda>key. set ms \<subseteq> set (series_labels v key)) (map fst (mv_series g)))"

definition map_prom :: "map_vec AdoptionMetricsAggregator \<Rightarrow> query \<Rightarrow> mem_error + int list" where
  "map_prom a q = Inr (concat (map (\<lambda>v. if opts_Name (metric_opts v) = q_name q then map_values (vec_of v a) v (q_match q) else [])
     Enum.enum))"

lemma metric_names_differ: "opts_Name (metric_opts v) = opts_Name (metric_opts v') \<longleftrightarrow> v = v'"
  by (cases v; cases v') (simp_all add: metric_opts_def new_collector_def declarations_def osd_gauge_def)

lemma set_map_values: "set (map_values g v ms) = {x. \<exists>key. map_of (mv_series g) key = Some x \<and> set ms \<subseteq> set (series_labels v key)}"
proof (intro equalityI subsetI)
  fix x assume "x \<in> set (map_values g v ms)"
  then obtain key where key: "key \<in> fst ` set (mv_series g)" "set ms \<subseteq> set (series_labels v key)"
    "x = the (map_of (mv_series g) key)" by (auto simp: map_values_def)
  from key(1) obtain y where "map_of (mv_series g) key = Some y"
    by (cases "map_of (mv_series g) key") (auto simp: map_of_eq_None_iff)
  with key(2,3) show "x \<in> {x. \<exists>key. map_of (mv_series g) key = Some x \<and> set ms \<subseteq> set (series_labels v key)}" by auto
next
  fix x assume "x \<in> {x. \<exists>key. map_of (mv_series g) key = Some x \<and> set ms \<subseteq> set (series_labels v key)}"
  then obtain key where key: "map_of (mv_series g) key = Some x" "set ms \<subseteq> set (series_labels v key)" by blast
  from map_of_SomeD [OF key(1)] have "key \<in> set (map fst (mv_series g))" by force
  with key show "x \<in> set (map_values g v ms)" by (simp add: map_values_def image_iff) (metis option.sel)
qed

lemma map_prom_scrapes: "scraped_by (map_prom a) (exported map_api a)"
proof -
  have "\<exists>vs. map_prom a \<lparr>q_name = opts_Name (metric_opts v), q_match = ms\<rparr> = Inr vs
      \<and> set vs = {x. \<exists>key. exported map_api a v key = Some x \<and> set ms \<subseteq> set (series_labels v key)}" for v ms
  proof -
    have "set (concat (map (\<lambda>v'. if v' = v then map_values (vec_of v' a) v' ms else []) Enum.enum)) = set (map_values (vec_of v a) v ms)"
      by (auto simp: enum_UNIV split: if_splits)
    then show ?thesis
      by (simp add: map_prom_def metric_names_differ set_map_values exported_def map_api_def)
  qed
  then show ?thesis unfolding scraped_by_def by blast
qed

text \<open>One OAuth object with an HTPasswd provider, one proxy object and one machine set, all in the caches.\<close>

definition added_oauth :: OAuth where
  "added_oauth = \<lparr>oauth_meta = \<lparr>m_Name = ''cluster'', m_Namespace = '''', m_Finalizers = [oauth_finalizer],
     m_DeletionTimestamp = None\<rparr>, spec_IdentityProviders = [\<lparr>idp_Type = ''HTPasswd''\<rparr>]\<rparr>"

definition no_proxy :: Proxy where
  "no_proxy = \<lparr>status_HTTPProxy = '''', status_HTTPSProxy = '''', spec_TrustedCA_Name = ''''\<rparr>"

definition e2e_world :: lag_memory where
  "e2e_world = \<lparr>lm_roles = (\<lambda>_. (None, [])), lm_configmaps = (\<lambda>_. (None, [])), lm_groups = (\<lambda>_. (None, [])),
     lm_machines = (\<lambda>_. (None, [])), lm_oauths = (\<lambda>_. (None, []))(oauth_key := (Some added_oauth, [])),
     lm_proxies = (\<lambda>_. (None, []))(proxy_object_key := (Some no_proxy, [])), lm_secrets = (\<lambda>_. (None, [])),
     lm_cpms = (\<lambda>_. (None, []))(cpms_key := (Some (aws_machine_set (Some ''AWS'')), []))\<rparr>"

definition announcement :: "NamespacedName \<Rightarrow> watch_event" where
  "announcement key = CreateEvent \<lparr>m_Name = nn_Name key, m_Namespace = nn_Namespace key, m_Finalizers = [], m_DeletionTimestamp = None\<rparr>"

lemma announcement_key [simp]: "key_of (event_object (announcement key)) = key"
  by (simp add: announcement_def key_of_def)

lemma e2e_versions:
  "role_versions lag_versions e2e_world key = [None]" "configmap_versions lag_versions e2e_world key = [None]"
  "group_versions lag_versions e2e_world key = [None]" "machine_versions lag_versions e2e_world key = [None]"
  "oauth_versions lag_versions e2e_world key = [if key = oauth_key then Some added_oauth else None]"
  "proxy_versions lag_versions e2e_world key = [if key = proxy_object_key then Some no_proxy else None]"
  "secret_versions lag_versions e2e_world key = [None]"
  "cpms_versions lag_versions e2e_world key = [if key = cpms_key then Some (aws_machine_set (Some ''AWS'')) else None]"
  by (simp_all add: lag_versions_def e2e_world_def lag_ahead_def unscoped_versions_def acceptable_versions_def)

lemma e2e_still:
  "version_moves lag_versions e2e_world e2e_world told kind key" "behind_by lag_versions e2e_world kind key = 0"
  by (cases kind; simp add: e2e_versions)+

text \<open>An event is delivered and its request answered, while the cluster stays as it is.\<close>

definition e2e_state :: "event_stream \<Rightarrow> request set \<Rightarrow> 'g AdoptionMetricsAggregator \<Rightarrow> (lag_memory, 'g) queue_state" where
  "e2e_state evs reqs a = \<lparr>cluster = e2e_world, collector = a, in_flight = evs, pending = reqs\<rparr>"

lemma e2e_handles:
  assumes regs: "proper_registrations one_cert_operator regs" "c \<in> fst ` set regs" "{c'. watched c' = kind} = {c}"
    and key: "concerns one_cert_operator c key"
    and run: "Reconcile lag_operator 0 c key e2e_world a = (out, e2e_world, a')" "\<not> asks_again out"
  shows "(guarded_lag_step lag_operator lag_versions regs)\<^sup>*\<^sup>* (e2e_state ((kind, announcement key) # rest) {} a) (e2e_state rest {} a')"
proof -
  have "requests_for regs kind (announcement key) = {(c, key)}"
    using regs(2,3) key by (auto simp: requests_proper [OF regs(1)])
  then have "queue_step lag_operator (cached_views lag_versions) regs Delivers
      (e2e_state ((kind, announcement key) # rest) {} a) (e2e_state rest {(c, key)} a)"
    using queue_step.delivers [of "e2e_state ((kind, announcement key) # rest) {} a" "[]" kind "announcement key" rest
        lag_operator "cached_views lag_versions" regs]
    by (simp add: e2e_state_def)
  then have first: "guarded_lag_step lag_operator lag_versions regs (e2e_state ((kind, announcement key) # rest) {} a)
      (e2e_state rest {(c, key)} a)"
    unfolding guarded_lag_step_def lag_queue_step_def
    by (intro exI [of _ Delivers]) (simp add: e2e_state_def e2e_still e2e_versions others_move_refl)
  have "queue_step lag_operator (cached_views lag_versions) regs (Answers c key) (e2e_state rest {(c, key)} a) (e2e_state rest {} a')"
    using queue_step.answers [of c key "e2e_state rest {(c, key)} a" lag_operator 0 out e2e_world a' _ "[]"] run
    by (simp add: e2e_state_def tells_changes_def del: Reconcile.simps)
  then have "guarded_lag_step lag_operator lag_versions regs (e2e_state rest {(c, key)} a) (e2e_state rest {} a')"
    unfolding guarded_lag_step_def lag_queue_step_def
    by (intro exI [of _ "Answers c key"]) (simp add: e2e_state_def e2e_still e2e_versions others_move_refl)
  with first show ?thesis by (meson r_into_rtranclp rtranclp_trans)
qed

text \<open>The answers of the three controllers.\<close>

lemma e2e_reconciles:
  assumes "agg_wf map_api a"
  shows "\<exists>a'. Reconcile lag_operator 0 OAuth_C oauth_key e2e_world a = (Returned empty_Result None, e2e_world, a') \<and> agg_wf map_api a'"
    and "\<exists>a'. Reconcile lag_operator 0 Proxy_C proxy_object_key e2e_world a = (Returned empty_Result None, e2e_world, a') \<and> agg_wf map_api a'"
    and "\<exists>a'. Reconcile lag_operator 0 CPMS_C cpms_key e2e_world a = (DoNotRequeue, e2e_world, a') \<and> agg_wf map_api a'"
proof -
  have id: "ValidString ''c1''" by (simp add: byte_def)
  have gets: "Get (op_oauth_client lag_operator) e2e_world oauth_key = Inr added_oauth"
    "Get (op_proxy_client lag_operator) e2e_world proxy_object_key = Inr no_proxy"
    "Get (op_cpms_client lag_operator) e2e_world cpms_key = Inr (aws_machine_set (Some ''AWS''))"
    by (simp_all add: lag_operator_def part_client_def lag_client_def version_client_def e2e_versions)
      (simp_all add: e2e_world_def added_oauth_def oauth_key_def key_of_def)
  have decoders: "op_decoders lag_operator = text_decoders" by (simp add: lag_operator_def)
  have machines: "instance_type_of text_decoders (aws_machine_set (Some ''AWS'')) = Known ''m5.xlarge''"
    by (simp add: instance_type_of_def aws_machine_set_def text_decoders_def ascii_def byte_def)
  show "\<exists>a'. Reconcile lag_operator 0 OAuth_C oauth_key e2e_world a = (Returned empty_Result None, e2e_world, a') \<and> agg_wf map_api a'"
    using SetOAuthIDP_wf(1) [OF assms] by (simp add: OAuthReconcile_def gets(1)) (simp add: added_oauth_def IsZero_def)
  show "\<exists>a'. Reconcile lag_operator 0 Proxy_C proxy_object_key e2e_world a = (Returned empty_Result None, e2e_world, a') \<and> agg_wf map_api a'"
    using proxy_cases [OF map_api_gauges id assms, of "op_proxy_client lag_operator" proxy_object_key e2e_world]
    by (auto simp: gets(2) lag_operator_parts)
  show "\<exists>a'. Reconcile lag_operator 0 CPMS_C cpms_key e2e_world a = (DoNotRequeue, e2e_world, a') \<and> agg_wf map_api a'"
    using cpms_report [OF map_api_gauges id assms text_decoders_valid, of "op_cpms_client lag_operator" cpms_key e2e_world]
    by (auto simp: gets(3) machines decoders lag_operator_parts)
qed

lemma e2e_run:
  assumes regs: "proper_registrations one_cert_operator regs" "{OAuth_C, Proxy_C, CPMS_C} \<subseteq> fst ` set regs"
    and a: "NewMetricsAggregator map_api aggregatorResyncInterval ''c1'' = Ok a"
  obtains s0 s where "calm_start lag_operator lag_versions s0"
    and "(guarded_lag_step lag_operator lag_versions regs)\<^sup>*\<^sup>* s0 s"
    and "cluster s = e2e_world" and "idle s" and "agg_wf map_api (collector s)"
proof -
  let ?step = "guarded_lag_step lag_operator lag_versions regs"
  let ?machines = "[(ControlPlaneMachineSet_K, announcement cpms_key)]" and ?proxy = "(Proxy_K, announcement proxy_object_key)"
  let ?news = "(OAuth_K, announcement oauth_key) # ?proxy # ?machines"
  have "announced ?news kind key" if "object_exists (cached_views lag_versions) e2e_world kind key" for kind key
    using that by (cases kind) (auto simp: lag_views e2e_versions announced_def split: if_splits)
  then have start: "calm_start lag_operator lag_versions (e2e_state ?news {} a)"
    using a by (simp add: calm_start_def queue_start_def tells_all_def e2e_state_def lag_operator_parts e2e_versions)
  have "ValidString ''c1''" by (simp add: byte_def)
  from NewMetricsAggregator_ok [OF map_api_gauges this, of aggregatorResyncInterval] a have "agg_wf map_api a" by auto
  from e2e_reconciles(1) [OF this] obtain a1 where a1: "agg_wf map_api a1"
    "Reconcile lag_operator 0 OAuth_C oauth_key e2e_world a = (Returned empty_Result None, e2e_world, a1)" by blast
  from e2e_reconciles(2) [OF a1(1)] obtain a2 where a2: "agg_wf map_api a2"
    "Reconcile lag_operator 0 Proxy_C proxy_object_key e2e_world a1 = (Returned empty_Result None, e2e_world, a2)" by blast
  from e2e_reconciles(3) [OF a2(1)] obtain a3 where a3: "agg_wf map_api a3"
    "Reconcile lag_operator 0 CPMS_C cpms_key e2e_world a2 = (DoNotRequeue, e2e_world, a3)" by blast
  have one: "{c'. watched c' = OAuth_K} = {OAuth_C}" "{c'. watched c' = Proxy_K} = {Proxy_C}"
    "{c'. watched c' = ControlPlaneMachineSet_K} = {CPMS_C}"
    by (auto elim: watched.elims)
  note handles = e2e_handles [OF regs(1)]
  have "?step\<^sup>*\<^sup>* (e2e_state ?news {} a) (e2e_state (?proxy # ?machines) {} a1)"
    by (rule handles [OF _ one(1) _ a1(2)]) (use regs(2) in simp_all)
  also have "?step\<^sup>*\<^sup>* (e2e_state (?proxy # ?machines) {} a1) (e2e_state ?machines {} a2)"
    by (rule handles [OF _ one(2) _ a2(2)]) (use regs(2) in simp_all)
  also have "?step\<^sup>*\<^sup>* (e2e_state ?machines {} a2) (e2e_state [] {} a3)"
    by (rule handles [OF _ one(3) _ a3(2)]) (use regs(2) in simp_all)
  finally have "?step\<^sup>*\<^sup>* (e2e_state ?news {} a) (e2e_state [] {} a3)" .
  from that [OF start this] a3(1) show thesis by (simp add: e2e_state_def idle_def)
qed

theorem e2e_checks_exact_witness:
  "\<exists>p s0 s a'. main map_api (good_env True []) = Next p
    \<and> (guarded_lag_step lag_operator lag_versions (registrations_of p))\<^sup>*\<^sup>* s0 s
    \<and> cluster s = e2e_world \<and> aggregate map_api api_idp_types (collector s) = Ok a'
    \<and> metrics_checks (map_prom a') ''c1''"
proof -
  obtain p a where p: "main map_api (good_env True []) = Next p" and regs: "proper_registrations one_cert_operator (registrations_of p)"
      and a: "NewMetricsAggregator map_api aggregatorResyncInterval ''c1'' = Ok a"
    by (rule late_main)
  have crd: "fst (hasCpmsCrd (good_env True []))" by (simp add: hasCpmsCrd_def good_env_def)
  have "{OAuth_C, Proxy_C, CPMS_C} \<subseteq> fst ` set (registrations_of p)"
    using wanted_registered [OF p, of OAuth_C] wanted_registered [OF p, of Proxy_C] wanted_registered [OF p, of CPMS_C] crd
    by (simp add: wanted_controllers_def)
  from e2e_run [OF regs this a] obtain s0 s where s: "calm_start lag_operator lag_versions s0"
      "(guarded_lag_step lag_operator lag_versions (registrations_of p))\<^sup>*\<^sup>* s0 s" "idle s"
      "cluster s = e2e_world" "agg_wf map_api (collector s)" by metis
  have main: "main (op_gauges lag_operator) (good_env True []) = Next p"
    "Network_operator (good_env True []) = op_network_operator lag_operator"
    using p by (simp_all add: lag_operator_parts good_env_def)
  obtain a' where a': "aggregate map_api api_idp_types (collector s) = Ok a'"
    using aggregate_returns [OF map_api_gauges s(5) api_idp_types_valid] by blast
  have known: "''HTPasswd'' \<in> set (knownIdentityProviderTypes api_idp_types)"
    by (simp add: api_idp_types_def knownIdentityProviderTypes_def)
  have views: "view_oauths (server_views lag_versions) e2e_world = [oauth_key \<mapsto> added_oauth]"
    "view_proxies (server_views lag_versions) e2e_world proxy_object_key = Some no_proxy"
    "view_cpms (server_views lag_versions) e2e_world cpms_key = Some (aws_machine_set (Some ''AWS''))"
    "view_configmaps (server_views lag_versions) e2e_world key = None" for key
    by (auto simp: server_views_def e2e_versions fun_eq_iff)
  have "live_oauths (server_views lag_versions) e2e_world = {oauth_key}"
    by (auto simp: live_oauths_def views added_oauth_def IsZero_def split: if_splits)
  then have total: "idp_total (server_views lag_versions) e2e_world ''HTPasswd'' = 1"
    by (simp add: idp_total_def views) (simp add: added_oauth_def)
  have machines: "instance_type_of (op_decoders lag_operator) (aws_machine_set (Some ''AWS'')) = Known ''m5.xlarge''"
    by (simp add: lag_operator_def instance_type_of_def aws_machine_set_def text_decoders_def ascii_def byte_def)
  have there: "caught_up lag_versions (cluster s)" by (simp add: caught_up_def s(4) e2e_still)
  have proxy: "view_proxies (server_views lag_versions) (cluster s) proxy_object_key = Some no_proxy" by (simp add: s(4) views)
  have "metrics_checks (map_prom a') (op_clusterId lag_operator)"
    by (subst e2e_checks_exact [OF lagging_memory.lagging_cluster_axioms lag_oauth_atomic main s(1-3) there _ _ _ proxy])
      (use a' known machines crd map_prom_scrapes [of a'] in \<open>simp_all add: lag_operator_parts s(4) views total ca_metrics_def\<close>)
  with p s(2,4) a' show ?thesis by (auto simp: lag_operator_parts)
qed

end
