(* ===== verification/Deployment.thy ===== *)
theory Deployment
  imports Startup_Properties Cached_Reads
begin

section \<open>The permissions (\<open>deploy\<close>, \<open>deploy_pko\<close>, \<open>resources\<close>)\<close>

text \<open>
  The operator runs as a service account, under the roles and bindings of the manifests: once as they
  are shipped for OLM (\<open>deploy\<close>, with the role for \<open>openshift-config\<close> in \<open>resources\<close>) and once for
  the package operator (\<open>deploy_pko\<close>). The definitions are the manifests; \<open>permitted\<close> is the
  documented meaning of RBAC. Against them stand the calls that the program makes: the lists and watches of
  its caches in every namespace that \<open>main\<close> configures, the updates of the finalizers, and the read of
  the cluster version.
\<close>

record policy_rule =
  pr_apiGroups :: "string list"
  pr_resources :: "string list"
  pr_verbs :: "string list"

record rbac_role =
  role_Name :: string
  role_Namespace :: "string option"
  role_Rules :: "policy_rule list"

record rbac_binding =
  rb_Namespace :: "string option"
  rb_RoleRef_Kind :: string
  rb_RoleRef_Name :: string
  rb_Subject :: "string \<times> string"

abbreviation read_verbs :: "string list" where "read_verbs \<equiv> [''get'', ''list'', ''watch'']"

subsection \<open>The manifests for OLM\<close>

definition olm_cluster_role :: rbac_role where
  "olm_cluster_role = \<lparr>role_Name = ''osd-metrics-exporter-watch-clusterscope'', role_Namespace = None,
     role_Rules = [
       \<lparr>pr_apiGroups = [''config.openshift.io''], pr_resources = [''oauths''], pr_verbs = read_verbs @ [''update'']\<rparr>,
       \<lparr>pr_apiGroups = [''config.openshift.io''], pr_resources = [''proxies'', ''clusterversions''], pr_verbs = read_verbs\<rparr>,
       \<lparr>pr_apiGroups = [''''], pr_resources = [''events''], pr_verbs = read_verbs\<rparr>,
       \<lparr>pr_apiGroups = [''rbac.authorization.k8s.io''], pr_resources = [''clusterroles''], pr_verbs = read_verbs @ [''update'']\<rparr>,
       \<lparr>pr_apiGroups = [''user.openshift.io''], pr_resources = [''groups''], pr_verbs = read_verbs @ [''update'']\<rparr>,
       \<lparr>pr_apiGroups = [''machine.openshift.io''], pr_resources = [''machines''], pr_verbs = read_verbs\<rparr>,
       \<lparr>pr_apiGroups = [''machine.openshift.io''], pr_resources = [''controlplanemachinesets''], pr_verbs = read_verbs\<rparr>]\<rparr>"

definition olm_machine_api_role :: rbac_role where
  "olm_machine_api_role = \<lparr>role_Name = ''osd-metrics-exporter'', role_Namespace = Some ''openshift-machine-api'',
     role_Rules = [
       \<lparr>pr_apiGroups = [''''], pr_resources = [''events'', ''configmaps''], pr_verbs = read_verbs\<rparr>,
       \<lparr>pr_apiGroups = [''machine.openshift.io''], pr_resources = [''controlplanemachinesets''], pr_verbs = read_verbs\<rparr>]\<rparr>"

definition olm_own_role :: rbac_role where
  "olm_own_role = \<lparr>role_Name = ''osd-metrics-exporter'', role_Namespace = Some ''openshift-osd-metrics'',
     role_Rules = [
       \<lparr>pr_apiGroups = [''''], pr_resources = [''pods'', ''services'', ''endpoints'', ''events'', ''secrets''], pr_verbs = [''*'']\<rparr>,
       \<lparr>pr_apiGroups = [''''], pr_resources = [''namespaces''], pr_verbs = [''get'']\<rparr>,
       \<lparr>pr_apiGroups = [''''], pr_resources = [''configmaps''], pr_verbs = read_verbs\<rparr>,
       \<lparr>pr_apiGroups = [''apps''], pr_resources = [''deployments'', ''daemonsets''], pr_verbs = [''*'']\<rparr>,
       \<lparr>pr_apiGroups = [''monitoring.coreos.com''], pr_resources = [''servicemonitors''], pr_verbs = [''get'', ''create'', ''update'']\<rparr>]\<rparr>"

definition olm_config_role :: rbac_role where
  "olm_config_role = \<lparr>role_Name = ''osd-metrics-exporter-watch-configmaps'', role_Namespace = Some ''openshift-config'',
     role_Rules = [
       \<lparr>pr_apiGroups = [''''], pr_resources = [''configmaps'', ''secrets''], pr_verbs = read_verbs\<rparr>]\<rparr>"

definition olm_cluster_binding :: rbac_binding where
  "olm_cluster_binding = \<lparr>rb_Namespace = None, rb_RoleRef_Kind = ''ClusterRole'', rb_RoleRef_Name = ''osd-metrics-exporter-watch-clusterscope'',
     rb_Subject = (''openshift-osd-metrics'', ''osd-metrics-exporter'')\<rparr>"

definition olm_machine_api_binding :: rbac_binding where
  "olm_machine_api_binding = \<lparr>rb_Namespace = Some ''openshift-machine-api'', rb_RoleRef_Kind = ''Role'', rb_RoleRef_Name = ''osd-metrics-exporter'',
     rb_Subject = (''openshift-osd-metrics'', ''osd-metrics-exporter'')\<rparr>"

definition olm_own_binding :: rbac_binding where
  "olm_own_binding = \<lparr>rb_Namespace = Some ''openshift-osd-metrics'', rb_RoleRef_Kind = ''Role'', rb_RoleRef_Name = ''osd-metrics-exporter'',
     rb_Subject = (''openshift-osd-metrics'', ''osd-metrics-exporter'')\<rparr>"

definition olm_config_binding :: rbac_binding where
  "olm_config_binding = \<lparr>rb_Namespace = Some ''openshift-config'', rb_RoleRef_Kind = ''Role'', rb_RoleRef_Name = ''osd-metrics-exporter-watch-configmaps'',
     rb_Subject = (''openshift-osd-metrics'', ''osd-metrics-exporter'')\<rparr>"

subsection \<open>The manifests for the package operator\<close>

definition pko_cluster_role :: rbac_role where
  "pko_cluster_role = \<lparr>role_Name = ''osd-metrics-exporter-watch-clusterscope'', role_Namespace = None,
     role_Rules = [
       \<lparr>pr_apiGroups = [''config.openshift.io''], pr_resources = [''oauths''], pr_verbs = read_verbs @ [''update'']\<rparr>,
       \<lparr>pr_apiGroups = [''config.openshift.io''], pr_resources = [''proxies'', ''clusterversions''], pr_verbs = read_verbs\<rparr>,
       \<lparr>pr_apiGroups = [''''], pr_resources = [''events''], pr_verbs = read_verbs\<rparr>,
       \<lparr>pr_apiGroups = [''rbac.authorization.k8s.io''], pr_resources = [''clusterroles''], pr_verbs = read_verbs @ [''update'']\<rparr>,
       \<lparr>pr_apiGroups = [''user.openshift.io''], pr_resources = [''groups''], pr_verbs = read_verbs @ [''update'']\<rparr>,
       \<lparr>pr_apiGroups = [''machine.openshift.io''], pr_resources = [''machines''], pr_verbs = read_verbs\<rparr>,
       \<lparr>pr_apiGroups = [''machine.openshift.io''], pr_resources = [''controlplanemachinesets''], pr_verbs = read_verbs\<rparr>]\<rparr>"

definition pko_machine_api_role :: rbac_role where
  "pko_machine_api_role = \<lparr>role_Name = ''osd-metrics-exporter'', role_Namespace = Some ''openshift-machine-api'',
     role_Rules = [
       \<lparr>pr_apiGroups = [''''], pr_resources = [''events'', ''configmaps''], pr_verbs = read_verbs\<rparr>,
       \<lparr>pr_apiGroups = [''machine.openshift.io''], pr_resources = [''controlplanemachinesets''], pr_verbs = read_verbs\<rparr>]\<rparr>"

definition pko_own_role :: rbac_role where
  "pko_own_role = \<lparr>role_Name = ''osd-metrics-exporter'', role_Namespace = Some ''openshift-osd-metrics'',
     role_Rules = [
       \<lparr>pr_apiGroups = [''''], pr_resources = [''pods'', ''services'', ''endpoints'', ''events'', ''secrets''], pr_verbs = [''*'']\<rparr>,
       \<lparr>pr_apiGroups = [''''], pr_resources = [''namespaces''], pr_verbs = [''get'']\<rparr>,
       \<lparr>pr_apiGroups = [''''], pr_resources = [''configmaps''], pr_verbs = read_verbs\<rparr>,
       \<lparr>pr_apiGroups = [''apps''], pr_resources = [''deployments'', ''daemonsets''], pr_verbs = [''*'']\<rparr>,
       \<lparr>pr_apiGroups = [''monitoring.coreos.com''], pr_resources = [''servicemonitors''], pr_verbs = [''get'', ''create'', ''update'']\<rparr>]\<rparr>"

definition pko_config_role :: rbac_role where
  "pko_config_role = \<lparr>role_Name = ''osd-metrics-exporter-watch-configmaps'', role_Namespace = Some ''openshift-config'',
     role_Rules = [
       \<lparr>pr_apiGroups = [''''], pr_resources = [''configmaps'', ''secrets''], pr_verbs = read_verbs\<rparr>]\<rparr>"

definition pko_cluster_binding :: rbac_binding where
  "pko_cluster_binding = \<lparr>rb_Namespace = None, rb_RoleRef_Kind = ''ClusterRole'', rb_RoleRef_Name = ''osd-metrics-exporter-watch-clusterscope'',
     rb_Subject = (''openshift-osd-metrics'', ''osd-metrics-exporter'')\<rparr>"

definition pko_machine_api_binding :: rbac_binding where
  "pko_machine_api_binding = \<lparr>rb_Namespace = Some ''openshift-machine-api'', rb_RoleRef_Kind = ''Role'', rb_RoleRef_Name = ''osd-metrics-exporter'',
     rb_Subject = (''openshift-osd-metrics'', ''osd-metrics-exporter'')\<rparr>"

definition pko_own_binding :: rbac_binding where
  "pko_own_binding = \<lparr>rb_Namespace = Some ''openshift-osd-metrics'', rb_RoleRef_Kind = ''Role'', rb_RoleRef_Name = ''osd-metrics-exporter'',
     rb_Subject = (''openshift-osd-metrics'', ''osd-metrics-exporter'')\<rparr>"

definition pko_config_binding :: rbac_binding where
  "pko_config_binding = \<lparr>rb_Namespace = Some ''openshift-config'', rb_RoleRef_Kind = ''Role'', rb_RoleRef_Name = ''osd-metrics-exporter-watch-configmaps'',
     rb_Subject = (''openshift-osd-metrics'', ''osd-metrics-exporter'')\<rparr>"

subsection \<open>Permissions\<close>

record rbac =
  rbac_Roles :: "rbac_role list"
  rbac_Bindings :: "rbac_binding list"

definition olm_rbac :: rbac where
  "olm_rbac = \<lparr>rbac_Roles = [olm_cluster_role, olm_machine_api_role, olm_own_role, olm_config_role],
     rbac_Bindings = [olm_cluster_binding, olm_machine_api_binding, olm_own_binding, olm_config_binding]\<rparr>"

definition pko_rbac :: rbac where
  "pko_rbac = \<lparr>rbac_Roles = [pko_cluster_role, pko_machine_api_role, pko_own_role, pko_config_role],
     rbac_Bindings = [pko_cluster_binding, pko_machine_api_binding, pko_own_binding, pko_config_binding]\<rparr>"

text \<open>
  A call names the namespace (none for cluster-scoped objects and for all namespaces), the API
  group, the resource and the verb. A cluster role binding grants its cluster role everywhere, a role
  binding grants its role, of the same namespace, in this namespace.
\<close>

record api_call =
  call_Namespace :: string
  call_Group :: string
  call_Resource :: string
  call_Verb :: string

definition covers :: "string list \<Rightarrow> string \<Rightarrow> bool" where
  "covers xs x \<longleftrightarrow> x \<in> set xs \<or> ''*'' \<in> set xs"

definition rule_permits :: "api_call \<Rightarrow> policy_rule \<Rightarrow> bool" where
  "rule_permits call rule \<longleftrightarrow> covers (pr_apiGroups rule) (call_Group call)
     \<and> covers (pr_resources rule) (call_Resource call) \<and> covers (pr_verbs rule) (call_Verb call)"

definition binding_permits :: "rbac_role list \<Rightarrow> string \<times> string \<Rightarrow> api_call \<Rightarrow> rbac_binding \<Rightarrow> bool" where
  "binding_permits roles account call b \<longleftrightarrow> rb_Subject b = account
     \<and> (case rb_Namespace b of None \<Rightarrow> True | Some ns \<Rightarrow> ns = call_Namespace call)
     \<and> list_ex (\<lambda>r. role_Name r = rb_RoleRef_Name b
         \<and> role_Namespace r = (if rb_RoleRef_Kind b = ''ClusterRole'' then None else rb_Namespace b)
         \<and> list_ex (rule_permits call) (role_Rules r)) roles"

definition permitted :: "rbac \<Rightarrow> string \<times> string \<Rightarrow> api_call \<Rightarrow> bool" where
  "permitted rb account call \<longleftrightarrow> list_ex (binding_permits (rbac_Roles rb) account call) (rbac_Bindings rb)"

subsection \<open>The calls of the program\<close>

text \<open>The API group and the resource of a kind.\<close>

fun kind_resource :: "object_kind \<Rightarrow> string \<times> string" where
  "kind_resource ClusterVersion_K = (''config.openshift.io'', ''clusterversions'')"
| "kind_resource ClusterRole_K = (''rbac.authorization.k8s.io'', ''clusterroles'')"
| "kind_resource ConfigMap_K = ('''', ''configmaps'')"
| "kind_resource Group_K = (''user.openshift.io'', ''groups'')"
| "kind_resource Machine_K = (''machine.openshift.io'', ''machines'')"
| "kind_resource Event_K = ('''', ''events'')"
| "kind_resource OAuth_K = (''config.openshift.io'', ''oauths'')"
| "kind_resource Proxy_K = (''config.openshift.io'', ''proxies'')"
| "kind_resource Secret_K = ('''', ''secrets'')"
| "kind_resource ControlPlaneMachineSet_K = (''machine.openshift.io'', ''controlplanemachinesets'')"

definition call_of :: "string \<Rightarrow> object_kind \<Rightarrow> string \<Rightarrow> api_call" where
  "call_of ns kind verb = \<lparr>call_Namespace = ns, call_Group = fst (kind_resource kind),
     call_Resource = snd (kind_resource kind), call_Verb = verb\<rparr>"

text \<open>The namespaces in which a cache lists and watches a kind, by the options of the manager.\<close>

definition cache_namespaces :: "cache_options \<Rightarrow> object_kind \<Rightarrow> string list" where
  "cache_namespaces cache kind =
     (if namespaced kind
      then map fst (case map_of (ByObject_Namespaces cache) kind of None \<Rightarrow> DefaultNamespaces cache | Some m \<Rightarrow> m)
      else [''''])"

definition informer_calls :: "cache_options \<Rightarrow> object_kind \<Rightarrow> api_call list" where
  "informer_calls cache kind =
     concat (map (\<lambda>ns. [call_of ns kind ''list'', call_of ns kind ''watch'']) (cache_namespaces cache kind))"

text \<open>
  The cluster version is read directly; every kind that a controller watches, and the
  events that the machine controller lists, have an informer; three controllers update their object.
\<close>

definition program_calls :: "cache_options \<Rightarrow> controller list \<Rightarrow> api_call list" where
  "program_calls cache cs = call_of '''' ClusterVersion_K ''get''
     # concat (map (informer_calls cache) (map watched cs @ [Event_K]))
     @ map (\<lambda>kind. call_of '''' kind ''update'') [ClusterRole_K, Group_K, OAuth_K]"

definition operator_account :: "string \<times> string" where
  "operator_account = (OperatorNamespace, OperatorName)"

lemmas rbac_defs =
  olm_cluster_role_def olm_machine_api_role_def olm_own_role_def olm_config_role_def
  olm_cluster_binding_def olm_machine_api_binding_def olm_own_binding_def olm_config_binding_def
  pko_cluster_role_def pko_machine_api_role_def pko_own_role_def pko_config_role_def
  pko_cluster_binding_def pko_machine_api_binding_def pko_own_binding_def pko_config_binding_def

text \<open>Both sets of manifests grant the same.\<close>

lemma same_rbac: "pko_rbac = olm_rbac"
  by (simp add: olm_rbac_def pko_rbac_def rbac_defs)

lemmas permission_defs = permitted_def binding_permits_def rule_permits_def covers_def olm_rbac_def
  operator_account_def OperatorNamespace_def OperatorName_def call_of_def

subsection \<open>Properties\<close>

lemma cluster_scoped_permitted:
  "list_all (permitted olm_rbac operator_account)
     [call_of '''' ClusterVersion_K ''get'', call_of '''' ClusterRole_K ''update'',
      call_of '''' Group_K ''update'', call_of '''' OAuth_K ''update'']"
  by code_simp

definition operator_cache :: cache_options where
  "operator_cache = \<lparr>DefaultNamespaces = watchNamespaces, ByObject_Namespaces = [(Secret_K, [(''openshift-config'', ())])]\<rparr>"

lemma informers_permitted: "list_all (permitted olm_rbac operator_account) (informer_calls operator_cache kind)"
  by (cases kind; simp only:; code_simp)

text \<open>
  C19: The manifests and the program fit. Every call that the program makes of its own accord is
  permitted to its service account, under the manifests for OLM and under those for the package
  operator: reading the cluster version, listing and watching every watched kind and the events in every
  namespace of the caches that \<open>main\<close> configures, and writing the three kinds that carry finalizers. The
  separate entry for Secrets in the options of the caches is needed: without it the program would watch Secrets
  in a namespace where it may not.
\<close>

theorem permissions_suffice:
  "list_all (\<lambda>call. permitted olm_rbac operator_account call \<and> permitted pko_rbac operator_account call)
     (program_calls (opt_Cache (manager_options scheme addr leader)) (wanted_controllers env))
   \<and> \<not> list_all (permitted olm_rbac operator_account)
     (program_calls ((opt_Cache (manager_options scheme addr leader))\<lparr>ByObject_Namespaces := []\<rparr>)
       (wanted_controllers env))"
proof
  have cache: "opt_Cache (manager_options scheme addr leader) = operator_cache"
    by (simp add: manager_options_def operator_cache_def)
  have "list_all (permitted olm_rbac operator_account) (program_calls operator_cache cs)" for cs
    using informers_permitted cluster_scoped_permitted
    by (auto simp: program_calls_def list_all_iff)
  then show "list_all (\<lambda>call. permitted olm_rbac operator_account call \<and> permitted pko_rbac operator_account call)
      (program_calls (opt_Cache (manager_options scheme addr leader)) (wanted_controllers env))"
    by (simp add: same_rbac cache)
  have "call_of ''openshift-machine-api'' Secret_K ''list''
      \<in> set (program_calls (operator_cache\<lparr>ByObject_Namespaces := []\<rparr>) (wanted_controllers env))"
    by (simp add: program_calls_def wanted_controllers_def informer_calls_def cache_namespaces_def operator_cache_def
        watchNamespaces_def)
  moreover have "\<not> permitted olm_rbac operator_account (call_of ''openshift-machine-api'' Secret_K ''list'')"
    by (simp add: permission_defs rbac_defs)
  ultimately show "\<not> list_all (permitted olm_rbac operator_account)
      (program_calls ((opt_Cache (manager_options scheme addr leader))\<lparr>ByObject_Namespaces := []\<rparr>)
        (wanted_controllers env))"
    unfolding cache list_all_iff by blast
qed

end
