(* ===== verification/Spec2Isabelle.thy ===== *)
theory Spec2Isabelle
  imports Scrapes Aggregator_Locks Convergence Startup_Properties Cached_Reads Event_Index Operator_Refinement E2E_Checks Deployment
begin

text \<open>
  \<^bold>\<open>A verification development for osd-metrics-exporter.\<close>

  \<^bold>\<open>The program.\<close> The operator watches a handful of objects of an OpenShift cluster and exports
  Prometheus gauges about them. \<open>main.go\<close> starts nine controllers
  (\<open>controllers/*\<close>, one reconciler each) and one aggregation goroutine. All of them report through one
  object, the aggregator of \<open>pkg/metrics/aggregator.go\<close>, which \<open>pkg/metrics/metrics.go\<close> creates
  once. It owns ten gauge vectors, the map from OAuth objects to their identity provider types and
  the map from draining machines to their pods. Controllers never call each other; they meet in the
  aggregator and in the API server.

  \<^bold>\<open>Layout.\<close>
    \<^item> \<open>Go_Prelude\<close>, \<open>Go_Utf8\<close>, \<open>Go_Regexp\<close>, \<open>Go_Json\<close>: the parts of Go and of its
      standard library that the source uses: calls that may panic (\<open>exec\<close>), loops over maps and
      slices (\<open>range_exec\<close>), the builtin map, instants, \<open>strings.Contains\<close>, UTF-8 validity, the
      conversion to float64, regular expressions of the shape the program has, \<open>json.Unmarshal\<close>.
      \<open>Json_Roundtrip\<close> proves that the JSON parser reads back what a printer wrote.
    \<^item> \<open>Prometheus\<close> and \<open>Kube\<close>: the interfaces of the two libraries. \<open>gauge_api\<close> and \<open>client\<close>
      are records of the calls the program makes; the locales \<open>gauge_vec\<close> and \<open>api_server\<close> state
      their documented behaviour; \<open>map_api\<close>, \<open>mem_client\<close> and \<open>timeout_client\<close> are concrete
      instances on which the witnesses run.
    \<^item> \<open>Aggregator\<close>: the struct, the constructor and every method of \<open>aggregator.go\<close>.
      \<open>Aggregator_Facts\<close> shows what each method does to the exported series (\<open>exposition\<close>, the
      abstract state of the aggregator) and that it keeps the invariant \<open>agg_wf\<close>; the locales
      \<open>vec_field\<close>, \<open>flag_gauge\<close> and \<open>state_gauge\<close> are the contracts of a field that holds a
      vector, of an on/off metric and of a metric whose label tells a detail. \<open>Aggregator_Properties\<close>
      states the guarantees.
    \<^item> \<open>Controller_Utils\<close> (\<open>controllers/utils\<close>), and one theory per controller:
      \<open>Group_Controller\<close>, \<open>OAuth_Controller\<close>, \<open>ClusterRole_Controller\<close>,
      \<open>LimitedSupport_Controller\<close>, \<open>Proxy_Controller\<close>, \<open>ConfigMap_Controller\<close>,
      \<open>CPMS_Controller\<close>, \<open>PullSecret_Controller\<close>, \<open>Machine_Controller\<close> with \<open>Drain_Events\<close>. In
      each the function named after the controller and \<open>Reconcile\<close> is the method \<open>Reconcile\<close>, branch
      by branch; it returns the outcome, the new world and the new aggregator. The
      \<open>Filter\<close> of a controller is the event filter of its \<open>SetupWithManager\<close>. \<open>Event_Index\<close> traces
      drain reports to the stored events through the index that the machine controller registers.
    \<^item> \<open>Finalizer_Protocol\<close>: the protocol the group and OAuth controllers follow, as a locale that
      both are shown to satisfy, OAuth under a stronger assumption on the API server.
    \<^item> \<open>Go_Flag\<close>: the package flag. \<open>Manager\<close>: what \<open>main.go\<close> hands to the manager of
      controller-runtime - the types of \<open>init\<close>, the options, the structs of the reconcilers and
      the nine \<open>SetupWithManager\<close> - and the constants of \<open>config/config.go\<close>. \<open>Startup\<close>:
      \<open>main\<close>, \<open>getClusterID\<close>, \<open>hasCpmsCrd\<close> and \<open>GetMetricsAggregator\<close>, with the aggregators in a heap
      and pointers to them in the global variable and the structs; \<open>Startup_Properties\<close> states what
      holds of it on every path. \<open>Cached_Reads\<close> shows that the namespaces to which
      \<open>main\<close> restricts the caches hide nothing that a reconciler reads, and that leaving one out would.
    \<^item> \<open>System\<close>: all actors on one aggregator (\<open>system_step\<close>, \<open>reachable\<close>), the abstract steps on
      the exposition (\<open>expo_step\<close>), what a scrape may see (\<open>exposition_sane\<close>), who may change which
      metric (\<open>owner\<close>). \<open>Convergence\<close>: what the metrics come to while the objects rest.
      \<open>Operator_Refinement\<close>: the abstract operator, whose state is the series and two mathematical maps
      (\<open>abstraction\<close>), with the exact effect of every reconcile and every round (\<open>promised\<close>, \<open>recounted\<close>);
      each operation of the program commutes with the abstraction.
    \<^item> \<open>Work_Queue\<close>: why a controller runs - events on their way, the registrations that let them pass, the
      requests that wait (\<open>queue_step\<close>), every state being one of \<open>System\<close>. \<open>Missed_Updates\<close>: the
      invariant that every watched object has a request, an event on its way, or metrics that show it
      (\<open>reflected\<close>), in the locale \<open>watched_cluster\<close>, which extends the contract of the
      readers (\<open>read_cluster\<close>) by the writers. \<open>Queue_Settling\<close>: in a cluster that
      obliges (\<open>obliging_cluster\<close>, with \<open>obliging_reads\<close> for the readers) the operator's own work comes to an end. \<open>Mem_Cluster\<close>: a concrete cluster
      on which both contracts are met. \<open>Queue_Properties\<close>: the properties, for the registrations of \<open>main\<close>. \<open>End_To_End\<close>: in
      an idle state the counts of identity providers and the cluster-admin flag are functions of the cluster.
    \<^item> \<open>Stale_Caches\<close>: the finalizer protocol when the caches lag behind the API server and updates
      are checked against the newest version, as a protocol on lists of versions (\<open>lag_step\<close>) that the group
      and OAuth controllers implement.
    \<^item> \<open>Lagging_Queue\<close>: the queue and the lagging caches together. A world now determines, for every
      object, the newest version and the cached one (\<open>object_versions\<close>); the events come from the caches, one
      for each version that a cache passes on the way (\<open>lag_queue_step\<close>). In the locale \<open>lagging_cluster\<close>
      every object has a request, an event on its way, a cache that is behind, or metrics that show it.
      \<open>Lagging_Counts\<close>: the guarantees of \<open>End_To_End\<close> on the server's side. \<open>Lagging_Settling\<close>:
      what the operator's own work comes to (\<open>lag_works\<close>, in \<open>obliging_lagging_cluster\<close>), with updates that are
      refused because the cache was behind. \<open>Lagging_Memory\<close>, \<open>Lagging_Obliges\<close>: a concrete cluster with
      lagging caches on which these contracts are met. \<open>Lagging_Properties\<close>: the properties, for the
      registrations of \<open>main\<close>.
    \<^item> \<open>E2E_Checks\<close>: what the end-to-end tests of \<open>test/e2e\<close> expect of the metrics, and which clusters
      pass (\<open>metrics_checks\<close>); Prometheus is a parameter, whose answers \<open>scraped_by\<close> describes.
    \<^item> \<open>Deployment\<close>: the roles and bindings of \<open>deploy\<close>, \<open>deploy_pko\<close> and \<open>resources\<close>
      against the calls that the program makes.
    \<^item> \<open>Threads\<close>: a general theory of threads whose calls are sequences of accesses to a state in
      regions, with one mutex; its locale \<open>shared_regions\<close> proves serializability, exclusion and that
      calls return. \<open>Aggregator_Threads\<close>: the methods of \<open>aggregator.go\<close> access by access (\<open>call_code\<close>), proved to
      make up the methods, and the regions of the struct. \<open>Concurrency\<close>: the controllers and the loop as
      such threads. \<open>Scrapes\<close>: what a scrape can see between two accesses.
    \<^item> \<open>Locks\<close>: threads whose calls say themselves when they lock the mutex and defer its Unlock, and the discipline
      (\<open>lock_discipline\<close>) under which the mutex is never misused, no thread waits for ever and the calls
      end. \<open>Aggregator_Locks\<close>: the methods with these statements (\<open>method_text\<close>) keep the discipline, and their
      runs are runs of \<open>Concurrency\<close>.
    \<^item> This theory states the properties that span the components.

  \<^bold>\<open>Conventions.\<close> A Go map is an association list with distinct keys whose order stands for the
  unspecified iteration order. A nil pointer is \<open>None\<close>, and reading through it is a panic.
  controller-runtime recovers a panic of a reconciler, so a panic is an outcome and the state reached
  so far is kept. An error is a value of the outcome. Time is a parameter. In \<open>System\<close> each reconcile
  and each round of the loop is one step; \<open>Concurrency\<close> justifies this for the aggregator: whatever
  the accesses of the goroutines interleave to is a state that \<open>System\<close> reaches.
  controller-runtime runs one reconcile of a controller at a time.

  \<^bold>\<open>Parameters.\<close> Code outside the repository is an argument: the gauge vectors, the Kubernetes client, the
  event list, the manager, its builder and
  the type scheme, the bundle parser of the cluster network operator, the decoders of machine
  configurations, the constants of \<open>openshift/api\<close>. What is assumed of them is
  named in \<open>gauge_vec\<close>, \<open>gauge_with\<close>, \<open>api_server\<close>, \<open>atomic_api_server\<close>, \<open>type_scheme\<close>,
  \<open>namespace_cache\<close>, \<open>restricted\<close>, \<open>field_index\<close>, \<open>read_cluster\<close>, \<open>watched_cluster\<close>, \<open>obliging_reads\<close>,
  \<open>obliging_cluster\<close>, \<open>lagging_server\<close>, \<open>atomic_lagging_server\<close>, \<open>lagging_cluster\<close>,
  \<open>obliging_lagging_cluster\<close>, \<open>scraped_by\<close>, \<open>valid_subjects\<close>, \<open>valid_instance_types\<close>, \<open>valid_nodes\<close>.

  \<^bold>\<open>Bounds.\<close> All recursion is structural or has a termination proof, so there is no fuel. JSON values may
  be nested 10000 deep, the limit of the Go package. A float64 is exact up to 2 to the 53;
  \<open>float64\<close> rounds beyond.

  \<^bold>\<open>What a read sees.\<close> In \<open>System\<close> and the theories of the queue a world is what the readers see, that
  is, the contents of the caches; a step of the cluster is a change that a cache takes in, and
  the informer that makes it sends the event. \<open>Stale_Caches\<close> and the theories \<open>Lagging_*\<close> keep the
  caches and the API server apart: what a reconciler reads is the cached view, what it writes goes to the server.

  \<^bold>\<open>Not modelled.\<close> Logging, TLS and the FIPS message (output only); the HTTP server and leader
  election, which are inside controller-runtime; when the queue takes a request up again (its
  delays and back-off), which is left open; the metrics service that the metrics library creates; the
  manifests of OLM and of the package operator other than roles and bindings, the build
  scripts; of the end-to-end tests, the installation checks and the steps that prepare the cluster.
\<close>

section \<open>An instance of the operator\<close>

text \<open>A cluster that has none of the objects.\<close>

definition bare_operator :: "(unit, map_vec, Certificate list, mem_error) operator" where
  "bare_operator = \<lparr>op_gauges = map_api, op_idp_types = api_idp_types, op_clusterId = ''c1'',
     op_role_client = absent_client, op_configmap_client = absent_client, op_group_client = absent_client,
     op_machine_client = absent_client, op_oauth_client = absent_client, op_proxy_client = absent_client,
     op_secret_client = absent_client, op_cpms_client = absent_client,
     op_network_operator = one_cert_operator, op_decoders = text_decoders, op_events = failure_lister\<rparr>"

lemma bare_operator_simps [simp]:
  "op_gauges bare_operator = map_api" "op_idp_types bare_operator = api_idp_types"
  "op_clusterId bare_operator = ''c1''" "op_proxy_client bare_operator = absent_client"
  by (simp_all add: bare_operator_def)

lemma bare_operator_ok: "operator_ok bare_operator"
  by (simp add: operator_ok_def bare_operator_def map_api_gauges api_idp_types_valid one_cert_valid
      text_decoders_valid valid_nodes_def absent_client_def byte_def)

lemma bare_operator_starts:
  obtains a where "reachable bare_operator ((), a)"
    and "NewMetricsAggregator map_api aggregatorResyncInterval ''c1'' = Ok a"
proof -
  have "ValidString ''c1''" by (simp add: byte_def)
  then obtain a where a: "NewMetricsAggregator map_api aggregatorResyncInterval ''c1'' = Ok a"
    using NewMetricsAggregator_ok [OF map_api_gauges] by blast
  then have "reachable bare_operator ((), a)"
    by (intro reachable.started) (simp add: bare_operator_def)
  with a that show ?thesis by blast
qed

section \<open>Properties of the operator\<close>

text \<open>
  C1: In every state the operator can reach, whatever the cluster does and in whatever order
  the controllers and the aggregation loop run, the aggregator satisfies its invariant and every
  exported series means what its metric promises: the right cluster id, flags that are 0 or 1,
  proxy values that agree with the labels, the same node in both labels of a drain series, at most
  one series for the control plane machine set and for the pull secret, and a pull secret series
  that is 1 exactly if its reason is the one for validity.
\<close>

theorem exposition_always_sane:
  assumes "operator_ok oper" and "reachable oper (w, a)"
  shows "agg_wf (op_gauges oper) a
    \<and> exposition_sane (op_clusterId oper) (op_idp_types oper) (exported (op_gauges oper) a)"
  using reachable_invariant [OF assms(2,1)] by simp

theorem exposition_always_sane_witness:
  "\<exists>a. reachable bare_operator ((), a) \<and> exposition_sane ''c1'' api_idp_types (exported map_api a)"
proof -
  obtain a where a: "reachable bare_operator ((), a)" by (rule bare_operator_starts)
  from exposition_always_sane [OF bare_operator_ok a] a show ?thesis
    by auto
qed

text \<open>
  C3: Every metric has one owner: a step that changes the series of a metric is a step of its
  owner, so no controller can disturb the metrics of another. Only the OAuth controller changes
  the map of identity providers, only the machine controller the map of draining machines.
\<close>

theorem metrics_have_one_owner:
  assumes "operator_ok oper" and "reachable oper (w, a)"
    and "system_step oper l (w, a) (w', a')"
  shows "(\<forall>v. owner v \<noteq> l \<longrightarrow> exported (op_gauges oper) a' v = exported (op_gauges oper) a v)
    \<and> (l \<noteq> Ran OAuth_C \<longrightarrow> providerMap a' = providerMap a)
    \<and> (l \<noteq> Ran Machine_C \<longrightarrow> drainingMachines a' = drainingMachines a)"
  using system_step_expo [OF assms(1,3)] reachable_invariant [OF assms(2,1)] expo_step_owner
  by (metis snd_conv)

theorem metrics_have_one_owner_witness:
  "\<exists>a w' a'. reachable bare_operator ((), a)
    \<and> system_step bare_operator (Ran Proxy_C) ((), a) (w', a')
    \<and> exported map_api a' Cluster_Admin_Enabled = exported map_api a Cluster_Admin_Enabled"
proof -
  obtain a where a: "reachable bare_operator ((), a)" by (rule bare_operator_starts)
  obtain out w' a' where "ProxyReconcile (op_proxy_client bare_operator) (op_gauges bare_operator)
      (op_clusterId bare_operator) proxy_object_key () a = (out, w', a')" by (rule prod_cases3)
  then have step: "system_step bare_operator (Ran Proxy_C) ((), a) (w', a')"
    by (rule system_step.proxy)
  have "owner Cluster_Admin_Enabled \<noteq> Ran Proxy_C" by simp
  with metrics_have_one_owner [OF bare_operator_ok a step]
  have "exported map_api a' Cluster_Admin_Enabled = exported map_api a Cluster_Admin_Enabled"
    by auto
  with a step show ?thesis by blast
qed

text \<open>
  C22: In a reachable state no call on a gauge vector panics: the aggregation loop always returns,
  and a reconcile panics only where the machine controller or the control plane machine set
  controller reads through a nil pointer of the object.
\<close>

theorem reconciles_do_not_panic:
  assumes "operator_ok oper" and "reachable oper (w, a)"
  shows "(\<exists>a'. aggregate (op_gauges oper) (op_idp_types oper) a = Ok a')
    \<and> fst (GroupReconcile (op_group_client oper) (op_gauges oper) (op_clusterId oper) req w a) \<noteq> Panicking
    \<and> fst (LimitedSupportReconcile (op_configmap_client oper) (op_gauges oper) (op_clusterId oper) req w a) \<noteq> Panicking
    \<and> fst (ProxyReconcile (op_proxy_client oper) (op_gauges oper) (op_clusterId oper) req w a) \<noteq> Panicking
    \<and> fst (ConfigMapReconcile (op_configmap_client oper) (op_network_operator oper) (op_gauges oper)
        (op_clusterId oper) req w a) \<noteq> Panicking
    \<and> fst (PullSecretReconcile (op_secret_client oper) (op_gauges oper) (op_clusterId oper) req w a) \<noteq> Panicking
    \<and> fst (OAuthReconcile (op_oauth_client oper) req w a) \<noteq> Panicking
    \<and> (fst (CPMSReconcile (op_cpms_client oper) (op_decoders oper) (op_gauges oper) (op_clusterId oper)
          req w a) = Panicking \<longrightarrow>
        (\<exists>obj. Get (op_cpms_client oper) w cpms_key = Inr obj
           \<and> instance_type_of (op_decoders oper) obj = Nil_pointer))
    \<and> (fst (MachineReconcile (op_machine_client oper) (op_events oper) (op_gauges oper) now req w a)
          = Panicking \<longrightarrow>
        (\<exists>machine. Get (op_machine_client oper) w (machine_key req) = Inr machine
           \<and> (m_DeletionTimestamp (machine_meta machine) = None \<or> status_NodeRef machine = None)))"
proof -
  have wf: "agg_wf (op_gauges oper) a" using reachable_invariant [OF assms(2,1)] by simp
  have pv: "gauge_vec (op_gauges oper)" and cid: "ValidString (op_clusterId oper)"
    and types: "list_all ValidString (knownIdentityProviderTypes (op_idp_types oper))"
    and subjects: "valid_subjects (op_network_operator oper)"
    and instances: "valid_instance_types (op_decoders oper)"
    and nodes: "valid_nodes (op_machine_client oper)"
    using assms(1) by (simp_all add: operator_ok_def)
  show ?thesis
    by (intro conjI impI aggregate_returns [OF pv wf types] group_never_panics [OF pv cid wf]
        limited_support_never_panics [OF pv cid wf] proxy_never_panics [OF pv cid wf]
        configmap_never_panics [OF pv cid wf subjects] pull_secret_never_panics [OF pv cid wf]
        oauth_never_panics [OF wf] cpms_panics_on_nil [OF pv cid wf instances]
        machine_panics_on_nil [OF pv wf nodes]) assumption+
qed

theorem reconciles_do_not_panic_witness:
  "\<exists>a. reachable bare_operator ((), a)
    \<and> fst (ProxyReconcile absent_client map_api ''c1'' proxy_object_key () a) \<noteq> Panicking"
proof -
  obtain a where a: "reachable bare_operator ((), a)" by (rule bare_operator_starts)
  have "fst (ProxyReconcile (op_proxy_client bare_operator) (op_gauges bare_operator)
      (op_clusterId bare_operator) proxy_object_key () a) \<noteq> Panicking"
    using reconciles_do_not_panic [OF bare_operator_ok a, of proxy_object_key] by blast
  with a show ?thesis by auto
qed

section \<open>Threads of the operator\<close>

text \<open>
  A moment of a concurrent run on the bare cluster: the aggregation loop holds the mutex and the
  proxy controller is about to set the cluster id.
\<close>

definition busy_machine :: "map_vec AdoptionMetricsAggregator
    \<Rightarrow> (actor, agg_call list, map_vec AdoptionMetricsAggregator) machine" where
  "busy_machine a = \<lparr>status = (\<lambda>_. Idle)(
       Ticker := Running [aggregate_m] (calls_code map_api map_with api_idp_types [aggregate_m]),
       Ran Proxy_C := Running [SetClusterID_m ''c1''] (calls_code map_api map_with api_idp_types [SetClusterID_m ''c1''])),
     mutex = Some Ticker, shared = a, history = []\<rparr>"

lemma bare_ticker_makes: "makes bare_operator Ticker [aggregate_m]"
proof -
  have "\<exists>w'. system_step bare_operator Ticker ((), a) (w', run_calls map_api api_idp_types [aggregate_m] a)"
    if wf: "agg_wf map_api a" for a
  proof -
    obtain a' where "aggregate map_api api_idp_types a = Ok a'"
      using aggregate_returns [OF map_api_gauges wf api_idp_types_valid] by blast
    then show ?thesis using system_step.ticks [of bare_operator a a' "()"] by auto
  qed
  then show ?thesis unfolding makes_def bare_operator_simps by simp
qed

lemma bare_proxy_makes: "makes bare_operator (Ran Proxy_C) [SetClusterID_m ''c1'']"
proof -
  have "snd (snd (ProxyReconcile absent_client map_api ''c1'' proxy_object_key () a)) =
      run_calls map_api api_idp_types [SetClusterID_m ''c1''] a" for a
    by (simp add: ProxyReconcile_def absent_client_def after_call_state)
  then have "\<exists>w'. system_step bare_operator (Ran Proxy_C) ((), a)
      (w', run_calls map_api api_idp_types [SetClusterID_m ''c1''] a)" for a
    using proxy_steps [of bare_operator "()" a proxy_object_key] by (simp only: bare_operator_simps)
  then show ?thesis unfolding makes_def bare_operator_simps by simp
qed

lemma bare_concurrent_run:
  "concurrent_run bare_operator map_with (started_machine a) (busy_machine a)"
proof -
  let ?code = "calls_code map_api map_with api_idp_types"
  let ?step = "thread_step (makes bare_operator) ?code holds_mutex"
    and ?run = "interleaved (makes bare_operator) ?code holds_mutex (started_machine a)"
  define m1 where "m1 = (started_machine a)\<lparr>status := (\<lambda>_. Idle)(Ticker := Waiting [aggregate_m])\<rparr>"
  define m2 where "m2 = m1\<lparr>status := (\<lambda>_. Idle)(Ticker := Running [aggregate_m] (?code [aggregate_m])),
    mutex := Some Ticker\<rparr>"
  have "?step Ticker (started_machine a) m1"
    using thread_step.request [of "started_machine a" Ticker "makes bare_operator" "[aggregate_m]" holds_mutex ?code]
    by (simp add: m1_def started_machine_def bare_ticker_makes holds_mutex_def)
  with interleaved.no_step have "?run m1" by (rule interleaved.one_more)
  moreover have "?step Ticker m1 m2"
    using thread_step.acquire [of m1 Ticker "[aggregate_m]" "makes bare_operator" ?code holds_mutex]
    by (simp add: m1_def m2_def started_machine_def)
  ultimately have "?run m2" by (rule interleaved.one_more)
  moreover have "?step (Ran Proxy_C) m2 (busy_machine a)"
    using thread_step.invoke [of m2 "Ran Proxy_C" "makes bare_operator" "[SetClusterID_m ''c1'']" holds_mutex ?code]
    by (simp add: m1_def m2_def busy_machine_def started_machine_def bare_proxy_makes holds_mutex_def)
  ultimately have "?run (busy_machine a)" by (rule interleaved.one_more)
  then show ?thesis unfolding concurrent_run_def bare_operator_simps .
qed

text \<open>
  C7: Running at the same time does no harm: when the threads of the controllers and of the
  aggregation loop interleave access by access in any way the mutex allows, then, whenever no
  call is running, the aggregator is the one that the reconciles leave when each runs as one step, in
  the order in which their calls returned. So every such state is a reachable state of the
  operator, and what holds of reachable states holds of it.
\<close>

theorem concurrent_runs_reachable:
  assumes "operator_ok oper" and "gauge_with (op_gauges oper) wth"
    and "NewMetricsAggregator (op_gauges oper) aggregatorResyncInterval (op_clusterId oper) = Ok a0"
    and "concurrent_run oper wth (started_machine a0) m" and "quiescent m"
  shows "shared m = fold (run_calls (op_gauges oper) (op_idp_types oper)) (history m) a0
    \<and> reachable oper (w, shared m)"
proof -
  have "shared m = serial (calls_code (op_gauges oper) wth (op_idp_types oper)) (history m) a0"
    using agg_threads.serializable [OF assms(4) [unfolded concurrent_run_def] assms(5)] .
  moreover have "serial (calls_code (op_gauges oper) wth (op_idp_types oper)) cs a =
      fold (run_calls (op_gauges oper) (op_idp_types oper)) cs a" for cs a
    by (simp add: serial_def run_calls_def [abs_def] run_calls_code [OF assms(2)])
  ultimately show ?thesis
    using history_reachable [OF assms(1,2,4) reachable.started [OF assms(3)]] by simp
qed

theorem concurrent_runs_reachable_witness:
  "\<exists>a m. concurrent_run bare_operator map_with (busy_machine a) m \<and> quiescent m
    \<and> reachable bare_operator ((), shared m)"
proof -
  obtain a where a: "NewMetricsAggregator map_api aggregatorResyncInterval ''c1'' = Ok a"
    by (rule bare_operator_starts)
  obtain m where m: "concurrent_run bare_operator map_with (busy_machine a) m" "quiescent m"
    using concurrent_return [OF bare_concurrent_run] by blast
  then have run: "concurrent_run bare_operator map_with (started_machine a) m"
    using concurrent_run_trans [OF bare_concurrent_run] by blast
  have "gauge_with (op_gauges bare_operator) map_with"
    by (simp add: map_vec.gauge_with_axioms)
  from concurrent_runs_reachable [OF bare_operator_ok this _ run m(2), of "()"] a m show ?thesis
    by auto
qed

text \<open>
  C12: No data race: at any moment of a concurrent run two threads that are inside calls are in
  different parts of the aggregator, and what is left of their calls neither reads nor writes
  outside these parts. A thread inside a call that takes the mutex holds it.
\<close>

theorem no_two_threads_in_one_region:
  assumes "concurrent_run oper wth (started_machine a0) m"
    and "status m t = Running calls k" and "status m t' = Running calls' k'" and "t \<noteq> t'"
  shows "home t \<noteq> home t' \<and> within agree (home t) k \<and> within agree (home t') k'
    \<and> (holds_mutex calls \<longrightarrow> mutex m = Some t)"
proof -
  note lin = agg_threads.linear_interleaved [OF assms(1) [unfolded concurrent_run_def]]
  show ?thesis
    using agg_threads.linear_apart [OF lin assms(2-4)] agg_threads.linear_running [OF lin assms(2)]
      agg_threads.linear_running [OF lin assms(3)] makes_region by metis
qed

theorem no_two_threads_in_one_region_witness:
  "\<exists>a m. concurrent_run bare_operator map_with (started_machine a) m \<and> mutex m = Some Ticker
    \<and> (\<exists>k. status m (Ran Proxy_C) = Running [SetClusterID_m ''c1''] k \<and> within agree Proxy_R k)"
proof -
  fix a
  have "status (busy_machine a) Ticker = Running [aggregate_m] (calls_code map_api map_with api_idp_types [aggregate_m])"
    "status (busy_machine a) (Ran Proxy_C) = Running [SetClusterID_m ''c1'']
       (calls_code map_api map_with api_idp_types [SetClusterID_m ''c1''])" "holds_mutex [aggregate_m]"
    by (simp_all add: busy_machine_def holds_mutex_def del: calls_code.simps)
  with no_two_threads_in_one_region [OF bare_concurrent_run this(1,2)] bare_concurrent_run [of a]
  show ?thesis by auto
qed

text \<open>
  C37: The view of a mutex that a call holds throughout is no simplification. In a run in which Lock and the deferred
  Unlock are statements of the methods, and the threads make the calls of their reconciles, the aggregator is at
  every moment that of a concurrent run in which calls hold the mutex by definition. So a scrape sees only
  series and values that the metrics promise or have just been created; and whenever no thread is inside a call, the
  aggregator is in a reachable state of the operator.
\<close>

theorem locked_runs_concurrent:
  assumes "operator_ok oper" and "gauge_with (op_gauges oper) wth"
    and "NewMetricsAggregator (op_gauges oper) aggregatorResyncInterval (op_clusterId oper) = Ok a0"
    and "lock_run (makes oper) (method_text (op_gauges oper) wth (op_idp_types oper)) a0 m"
  shows "(\<exists>M. concurrent_run oper wth (started_machine a0) M \<and> shared M = memory m)
    \<and> glimpse_sane (op_clusterId oper) (op_idp_types oper) (exported (op_gauges oper) (memory m))
    \<and> ((\<forall>t. activity m t = Away) \<longrightarrow> reachable oper (w, memory m))"
proof -
  from lock_run_followed [OF assms(4)] obtain M where M: "concurrent_run oper wth (started_machine a0) M"
    "shadows (op_gauges oper) wth (op_idp_types oper) m M" by blast
  then have mem: "shared M = memory m" by (simp add: shadows_def)
  have glimpse: "glimpse_sane (op_clusterId oper) (op_idp_types oper) (exported (op_gauges oper) (shared M))"
    using concurrent_glimpse [OF assms(1,2) reachable.started [OF assms(3)] M(1)]
    unfolding glimpse_sane_def scrape_ok_def by metis
  have "reachable oper (w, shared M)" if "\<forall>t. activity m t = Away"
  proof -
    have "quiescent M" using shadows_quiescent [OF M(2)] that by blast
    with agg_threads.serializable [OF M(1) [unfolded concurrent_run_def]]
      history_reachable [OF assms(1,2) M(1) reachable.started [OF assms(3)]] show ?thesis by simp
  qed
  with M(1) mem glimpse show ?thesis by auto
qed

theorem locked_runs_concurrent_witness:
  "\<exists>a a' m. NewMetricsAggregator map_api aggregatorResyncInterval ''c1'' = Ok a \<and> aggregate map_api api_idp_types a = Ok a'
    \<and> lock_run (makes bare_operator) (method_text map_api map_with api_idp_types) a m \<and> memory m = a'
    \<and> (\<forall>t. activity m t = Away) \<and> reachable bare_operator ((), memory m)"
proof -
  let ?text = "method_text map_api map_with api_idp_types"
    and ?code = "call_code map_api map_with api_idp_types aggregate_m"
  obtain a where a: "NewMetricsAggregator map_api aggregatorResyncInterval ''c1'' = Ok a" "reachable bare_operator ((), a)"
    by (rule bare_operator_starts)
  have "agg_wf map_api a" using reachable_invariant [OF a(2) bare_operator_ok] by simp
  then obtain a' where a': "aggregate map_api api_idp_types a = Ok a'"
    using aggregate_returns [OF map_api_gauges _ api_idp_types_valid] by blast
  have with_ok: "gauge_with map_api map_with" by (rule map_vec.gauge_with_axioms)
  define m1 where "m1 = \<lparr>activity = (\<lambda>_. Away)(Ticker := Inside aggregate_m 0 (?text aggregate_m) []),
    locked_by = None, memory = a, fatal = False\<rparr>"
  define m2 where "m2 = (becomes m1 Ticker (Inside aggregate_m 0 (LDeferUnlock (bare ?code)) []))\<lparr>locked_by := Some Ticker\<rparr>"
  define m3 where "m3 = becomes m2 Ticker (Inside aggregate_m 1 (bare ?code) [])"
  define m4 where "m4 = (becomes m3 Ticker (Leaving 1 []))\<lparr>memory := a'\<rparr>"
  define m5 where "m5 = (becomes m4 Ticker (Leaving 0 []))\<lparr>locked_by := None\<rparr>"
  define m6 where "m6 = becomes m5 Ticker Away"
  have run1: "lock_run (makes bare_operator) ?text a m1"
    using lock_run.begins [OF lock_run.starts [of "makes bare_operator" ?text a], of Ticker aggregate_m "[]"]
    by (simp add: m1_def bare_ticker_makes)
  have s1: "goes_on ?text Ticker m1 m2"
    unfolding m2_def by (rule goes_on.locks) (simp_all add: m1_def)
  have s2: "goes_on ?text Ticker m2 m3"
    unfolding m3_def using goes_on.defers [of m2 Ticker aggregate_m 0 "bare ?code" "[]" ?text] by (simp add: m2_def m1_def)
  have s0: "(moves ?text)\<^sup>*\<^sup>* m3 m4"
    unfolding m4_def by (rule run_bare [of ?code])
      (simp_all add: m3_def m2_def m1_def run_call_code [OF with_ok] a' del: call_code.simps)
  have s3: "goes_on ?text Ticker m4 m5"
    unfolding m5_def by (rule goes_on.unlocks) (simp_all add: m4_def m3_def m2_def m1_def)
  have s4: "goes_on ?text Ticker m5 m6"
    unfolding m6_def by (rule goes_on.goes_away) (simp_all add: m5_def m4_def m3_def m2_def m1_def)
  have run: "lock_run (makes bare_operator) ?text a m6"
    by (rule lock_run.proceeds [OF lock_run.proceeds [OF lock_run_moves [OF s0 lock_run.proceeds [OF lock_run.proceeds [OF run1 s1] s2]] s3] s4])
  have m6: "memory m6 = a'" "\<forall>t. activity m6 t = Away"
    by (simp_all add: m6_def m5_def m4_def m3_def m2_def m1_def)
  have "reachable bare_operator ((), memory m6)"
    using locked_runs_concurrent [of bare_operator map_with a m6 "()"] bare_operator_ok with_ok a(1) run m6(2) by simp
  with a(1) a' run m6 show ?thesis by blast
qed

text \<open>
  C16: A scrape may come between any two accesses of the running calls. Even then every series it
  sees has labels that its metric promises and a value that it promises, or the 0 of a series
  that has just been created; there is at most one series for the control plane machine set and
  for the pull secret; and the flags for cluster-admin and limited support are always there, with 0 or 1.
\<close>

theorem scrapes_always_sane:
  assumes "operator_ok oper" and "gauge_with (op_gauges oper) wth"
    and "NewMetricsAggregator (op_gauges oper) aggregatorResyncInterval (op_clusterId oper) = Ok a0"
    and "concurrent_run oper wth (started_machine a0) m"
  shows "glimpse_sane (op_clusterId oper) (op_idp_types oper) (exported (op_gauges oper) (shared m))"
  unfolding glimpse_sane_def
  using concurrent_glimpse [OF assms(1,2) reachable.started [OF assms(3)] assms(4)]
  unfolding scrape_ok_def glimpse_sane_def by metis

theorem scrapes_always_sane_witness:
  "\<exists>a. concurrent_run bare_operator map_with (started_machine a) (busy_machine a)
    \<and> flag_present (exported map_api (shared (busy_machine a)) Cluster_Admin_Enabled) ''c1''"
proof -
  obtain a where a: "NewMetricsAggregator map_api aggregatorResyncInterval ''c1'' = Ok a"
    by (rule bare_operator_starts)
  have "gauge_with (op_gauges bare_operator) map_with"
    by (simp add: map_vec.gauge_with_axioms)
  from scrapes_always_sane [OF bare_operator_ok this _ bare_concurrent_run] a bare_concurrent_run [of a]
  show ?thesis by (auto simp: glimpse_sane_def)
qed

text \<open>
  A start-up that goes through leaves the operator in a reachable state: the aggregator that
  all controllers share and whose vectors the metrics server exposes is the one from which the
  operator's steps begin.
\<close>

theorem startup_reaches_operator:
  assumes "main (op_gauges oper) env = Next p"
    and "getClusterID (ClusterVersion_Get env) = Inr (op_clusterId oper)"
  shows "\<exists>a. heap p = [a] \<and> aggregator p = Some 0 \<and> ticking p = [0] \<and> reachable oper (w, a)
    \<and> exposed p = Some (metricsConfig (GetMetrics a))"
  using assms by (auto simp: main_Next_iff started_process_def intro: reachable.started)

theorem startup_reaches_operator_witness:
  "\<exists>p a. main map_api (good_env True []) = Next p \<and> heap p = [a] \<and> reachable bare_operator ((), a)"
proof -
  have "parse_flags main_flags [] [] = Parsed [] []" by simp
  then obtain p where p: "main map_api (good_env True []) = Next p" by (rule good_main) blast
  have "main (op_gauges bare_operator) (good_env True []) = Next p"
    "getClusterID (ClusterVersion_Get (good_env True [])) = Inr (op_clusterId bare_operator)"
    using p by (simp_all add: getClusterID_def)
  from startup_reaches_operator [OF this, of "()"] p show ?thesis by blast
qed

text \<open>
  C8: The metrics converge. Let the limited support config map, the CA bundle, the pull secret and
  the control plane machine set stay as they are from some reachable state on, while anything else
  in the cluster changes and controllers and loop run in any order. As soon as a controller has
  run once, its metrics show exactly what the objects say, and they still do at the end, whatever has
  run since: the flag whether the config map exists, one expiry per certificate of the bundle and
  none of an earlier one, the one series for the verdict on the pull secret, the one series for the
  instance type and state of the machine set. Where the API server gives an error other than
  not-found, or the machine set cannot be read, nothing is claimed.
\<close>

theorem metrics_converge:
  assumes "operator_ok oper" and "reachable oper (w0, a0)"
    and "quiet_run oper (w0, a0) ls (w, a)" and "Ran c \<in> set ls"
  shows "settled oper w c (scraped oper a)"
proof -
  have "settled oper w0 c (scraped oper (snd s'))" if "quiet_run oper s ls s'" "s = (w0, a0)" "Ran c \<in> set ls"
    for s s' ls
    using that
  proof induction
    case (quiet_step ls w a l w' a')
    have inv: "reachable oper (w, a)" "at_rest oper w0 w"
      using quiet_run_reachable [OF quiet_step.hyps(1)] quiet_step.prems(1) assms(2) by simp_all
    then have wf: "agg_wf (op_gauges oper) a" using reachable_invariant assms(1) by fastforce
    show ?case
    proof (cases "l = Ran c")
      case True
      with step_settles [OF assms(1) wf] quiet_step.hyps(2) have "settled oper w c (scraped oper a')" by blast
      with settled_at_rest [OF inv(2)] show ?thesis by simp
    next
      case False
      with quiet_step others_keep_settled [OF assms(1) wf quiet_step.hyps(2)] show ?thesis by auto
    qed
  qed simp
  from this [OF assms(3) refl assms(4)] quiet_run_reachable [OF assms(3,2)] settled_at_rest
  show ?thesis by fastforce
qed

theorem metrics_converge_witness:
  "\<exists>a. reachable bare_operator ((), a)
    \<and> exported map_api a Pull_Secret_Valid = [[''c1'', secret_reason None] \<mapsto> 0]"
proof -
  let ?oper = bare_operator
  obtain a0 where a0: "reachable ?oper ((), a0)" by (rule bare_operator_starts)
  obtain o1 w1 a1 where "PullSecretReconcile (op_secret_client ?oper) (op_gauges ?oper) (op_clusterId ?oper)
      pull_secret_key () a0 = (o1, w1, a1)" by (rule prod_cases3)
  then have s1: "system_step ?oper (Ran PullSecret_C) ((), a0) (w1, a1)" by (rule system_step.pull_secret)
  obtain o2 w2 a2 where "ProxyReconcile (op_proxy_client ?oper) (op_gauges ?oper) (op_clusterId ?oper)
      proxy_object_key w1 a1 = (o2, w2, a2)" by (rule prod_cases3)
  then have s2: "system_step ?oper (Ran Proxy_C) (w1, a1) (w2, a2)" by (rule system_step.proxy)
  have run: "quiet_run ?oper ((), a0) [Ran PullSecret_C, Ran Proxy_C] (w2, a2)"
    using quiet_run.quiet_step [OF quiet_run.quiet_step [OF quiet_run.quiet_start s1] s2] by (simp add: at_rest_refl)
  have "settled ?oper w2 PullSecret_C (exported (op_gauges ?oper) a2)"
    by (rule metrics_converge [OF bare_operator_ok a0 run]) simp
  then have "exported map_api a2 Pull_Secret_Valid = [[''c1'', secret_reason None] \<mapsto> 0]"
    by (simp add: bare_operator_def absent_client_def)
  moreover have "reachable ?oper (w2, a2)" using a0 s1 s2 by (blast intro: reachable.stepped)
  ultimately show ?thesis by auto
qed

text \<open>
  The event filters are exact. A request is queued for an event, of whatever kind, exactly if it
  concerns the object that the reconciler will read: the limited support config map, the user
  CA bundle, the pull secret; and, for the cluster-scoped kinds, the group cluster-admins and the
  role cluster-admin. An update is judged by the new object, so none of these is missed.
\<close>

theorem event_filters_exact:
  "(admits LimitedSupportFilter evt \<longleftrightarrow> key_of (event_object evt) = limited_support_key)
   \<and> (admits (ConfigMapFilter cno) evt \<longleftrightarrow> key_of (event_object evt) = ca_bundle_key cno)
   \<and> (admits PullSecretFilter evt \<longleftrightarrow> key_of (event_object evt) = pull_secret_key)
   \<and> (admits GroupFilter evt \<longleftrightarrow> m_Name (event_object evt) = clusterAdminGroupName)
   \<and> (admits ClusterRoleFilter evt \<longleftrightarrow> m_Name (event_object evt) = clusterAdminName)"
  by (simp add: limited_support_filter_exact configmap_filter_exact pull_secret_filter_exact
      group_filter_exact clusterrole_filter_exact)

end
